(* ===== verification/Rose_Prelude.thy ===== *)
theory Rose_Prelude
  imports Main "HOL-Library.Word"
begin

text \<open>
  Shared vocabulary of the development: bytes, Go slices and their updates, little- and
  big-endian codecs, the error values the Go code returns, and the generic list and
  arithmetic lemmas the component theories use through the collections
  \<open>bslice_simps\<close> and \<open>codec_simps\<close>.
\<close>

unbundle bit_operations_syntax

named_theorems bslice_simps \<open>rewriting slices, overwrites and their lengths\<close>
named_theorems codec_simps \<open>integer codecs\<close>

section \<open>Types\<close>

type_synonym byte = "8 word"
type_synonym bytes = "byte list"
type_synonym uint16 = "16 word"
type_synonym uint32 = "32 word"
type_synonym uint64 = "64 word"

text \<open>
  The errors of the storage packages. A sentinel that callers test with
  \<^verbatim>\<open>errors.Is\<close> has a constructor of its own, an error built by \<^verbatim>\<open>fmt.Errorf\<close>
  without wrapping is \<open>Err\<close> with its message, and wrapping (\<^verbatim>\<open>%w\<close>) keeps the
  wrapped value.
\<close>

datatype err =
    ErrBitrot
  | ErrUnrecognizedPlogFormat
  | ErrPlogHeaderCorrupt
  | ErrNotExist
  | ErrShortWrite
  | ErrEOF
  | ErrIO
  | Err string

type_synonym 'a result = "err + 'a"

definition MaxInt64 :: int where
  "MaxInt64 = 2 ^ 63 - 1"

section \<open>Slices and overwrites\<close>

text \<open>\<open>bslice i j xs\<close> is Go's \<^verbatim>\<open>xs[i:j]\<close> for \<open>i \<le> j \<le> length xs\<close>.\<close>

definition bslice :: "nat \<Rightarrow> nat \<Rightarrow> 'a list \<Rightarrow> 'a list" where
  "bslice i j xs = take (j - i) (drop i xs)"

text \<open>\<open>copy_at dst i src\<close> is Go's \<^verbatim>\<open>copy(dst[i:], src)\<close>: it never extends \<open>dst\<close>.\<close>

definition copy_at :: "'a list \<Rightarrow> nat \<Rightarrow> 'a list \<Rightarrow> 'a list" where
  "copy_at dst i src = take i dst @ take (length dst - i) src @ drop (i + length src) dst"

text \<open>
  \<open>write_bytes d off b\<close> is the content of a file after a positioned write of \<open>b\<close>:
  the file is extended, and a hole before \<open>off\<close> reads as zero.
\<close>

definition write_bytes :: "bytes \<Rightarrow> nat \<Rightarrow> bytes \<Rightarrow> bytes" where
  "write_bytes d off b =
     (if b = [] then d
      else take off (d @ replicate (off - length d) 0) @ b @ drop (off + length b) d)"

text \<open>\<open>resize d n\<close> is the content of a file after \<^verbatim>\<open>Truncate(n)\<close>.\<close>

definition resize :: "bytes \<Rightarrow> nat \<Rightarrow> bytes" where
  "resize d n = take n d @ replicate (n - length d) 0"

definition str_bytes :: "string \<Rightarrow> bytes" where
  "str_bytes s = map of_char s"

lemma length_str_bytes [simp]: "length (str_bytes s) = length s"
  by (simp add: str_bytes_def)

lemma length_bslice [bslice_simps]: "length (bslice i j xs) = min (j - i) (length xs - i)"
  by (simp add: bslice_def)

lemma length_bslice_le [simp]: "j \<le> length xs \<Longrightarrow> length (bslice i j xs) = j - i"
  by (simp add: bslice_def)

lemma bslice_Nil [simp]: "bslice i j [] = []"
  by (simp add: bslice_def)

lemma bslice_empty [simp]: "j \<le> i \<Longrightarrow> bslice i j xs = []"
  by (simp add: bslice_def)

lemma bslice_all [simp]: "length xs \<le> j \<Longrightarrow> bslice 0 j xs = xs"
  by (simp add: bslice_def)

lemma bslice_0: "bslice 0 j xs = take j xs"
  by (simp add: bslice_def)

lemma bslice_to_end: "length xs \<le> j \<Longrightarrow> bslice i j xs = drop i xs"
  by (simp add: bslice_def)

lemma bslice_append_adjacent:
  "i \<le> j \<Longrightarrow> j \<le> k \<Longrightarrow> bslice i j xs @ bslice j k xs = bslice i k xs"
proof -
  assume ij: "i \<le> j" and jk: "j \<le> k"
  have "take (k - i) (drop i xs) = take (j - i) (drop i xs) @ take (k - j) (drop (j - i) (drop i xs))"
    using ij jk by (metis Nat.add_diff_assoc add.commute diff_add_inverse le_add_diff_inverse take_add)
  then show ?thesis using ij by (simp add: bslice_def)
qed

lemma bslice_append_left [simp]: "j \<le> length xs \<Longrightarrow> bslice i j (xs @ ys) = bslice i j xs"
  by (cases "i \<le> length xs") (auto simp: bslice_def)

lemma bslice_append_right:
  "length xs \<le> i \<Longrightarrow> bslice i j (xs @ ys) = bslice (i - length xs) (j - length xs) ys"
  by (auto simp: bslice_def)

lemma bslice_Cons: "0 < i \<Longrightarrow> bslice i j (x # xs) = bslice (i - 1) (j - 1) xs"
  by (cases i; cases j) (auto simp: bslice_def)

lemma bslice_take: "j \<le> n \<Longrightarrow> bslice i j (take n xs) = bslice i j xs"
  by (auto simp: bslice_def drop_take min_def)

lemma bslice_drop: "bslice i j (drop n xs) = bslice (n + i) (n + j) xs"
  by (simp add: bslice_def add.commute)

lemma bslice_slice: "j' + i \<le> j \<Longrightarrow> bslice i' j' (bslice i j xs) = bslice (i + i') (i + j') xs"
  by (auto simp: bslice_def drop_take min_def add.commute)

lemma nth_bslice: "i + k < j \<Longrightarrow> j \<le> length xs \<Longrightarrow> bslice i j xs ! k = xs ! (i + k)"
  by (simp add: bslice_def)

lemma length_copy_at [simp]: "length (copy_at dst i src) = length dst"
  by (auto simp: copy_at_def)

lemma copy_at_fit:
  "i + length src \<le> length dst \<Longrightarrow>
   copy_at dst i src = take i dst @ src @ drop (i + length src) dst"
  by (simp add: copy_at_def)

lemma length_write_bytes [bslice_simps]:
  "length (write_bytes d off b) = (if b = [] then length d else max (length d) (off + length b))"
  by (auto simp: write_bytes_def)

lemma length_resize [simp]: "length (resize d n) = n"
  by (simp add: resize_def)

lemma resize_same [simp]: "resize d (length d) = d"
  by (simp add: resize_def)

lemma resize_shrink: "n \<le> length d \<Longrightarrow> resize d n = take n d"
  by (simp add: resize_def)

lemma write_bytes_inside:
  "off \<le> length d \<Longrightarrow> write_bytes d off b = take off d @ b @ drop (off + length b) d"
  by (auto simp: write_bytes_def)

lemma write_bytes_Nil [simp]: "write_bytes d off [] = d"
  by (simp add: write_bytes_def)

lemma take_write_bytes: "n \<le> off \<Longrightarrow> n \<le> length d \<Longrightarrow> take n (write_bytes d off b) = take n d"
  by (auto simp: write_bytes_def)

lemma bslice_write_bytes_before:
  "j \<le> off \<Longrightarrow> j \<le> length d \<Longrightarrow> bslice i j (write_bytes d off b) = bslice i j d"
  by (metis bslice_take take_write_bytes order_refl)

lemma bslice_write_bytes_at:
  "off \<le> length d \<Longrightarrow> bslice off (off + length b) (write_bytes d off b) = b"
  by (simp add: write_bytes_inside bslice_append_right min_def)

lemma take_resize: "n \<le> m \<Longrightarrow> n \<le> length d \<Longrightarrow> take n (resize d m) = take n d"
  by (simp add: resize_def)

lemma bslice_resize: "j \<le> n \<Longrightarrow> j \<le> length d \<Longrightarrow> bslice i j (resize d n) = bslice i j d"
  by (metis bslice_take take_resize order_refl)

lemma mod_add_once:
  "x < m \<Longrightarrow> y < m \<Longrightarrow> (x + y) mod m = (if x + y < m then x + y else x + y - (m :: nat))"
  by (auto simp: mod_if)

section \<open>Integer codecs\<close>

text \<open>
  \<open>le_put n x\<close> writes the \<open>n\<close> low bytes of \<open>x\<close> least significant first, as
  \<^verbatim>\<open>binary.LittleEndian.PutUint16/32/64\<close> do for \<open>n = 2, 4, 8\<close>; \<open>le_get\<close> reads
  them back. \<open>be_put\<close> and \<open>be_get\<close> are the big-endian pair.
\<close>

fun le_put :: "nat \<Rightarrow> nat \<Rightarrow> bytes" where
  "le_put 0 x = []"
| "le_put (Suc n) x = of_nat (x mod 256) # le_put n (x div 256)"

fun le_get :: "bytes \<Rightarrow> nat" where
  "le_get [] = 0"
| "le_get (b # bs) = unat b + 256 * le_get bs"

definition be_put :: "nat \<Rightarrow> nat \<Rightarrow> bytes" where
  "be_put n x = rev (le_put n x)"

definition be_get :: "bytes \<Rightarrow> nat" where
  "be_get bs = le_get (rev bs)"

lemma unat_byte_lt: "unat (b :: byte) < 256"
  using unsigned_less [of b] by simp

lemma unat_of_nat_byte [simp]: "unat (of_nat x :: byte) = x mod 256"
  by (simp add: unat_of_nat take_bit_eq_mod)

lemma length_le_put [simp]: "length (le_put n x) = n"
  by (induction n arbitrary: x) auto

lemma length_be_put [simp]: "length (be_put n x) = n"
  by (simp add: be_put_def)

lemma le_get_put [codec_simps]: "le_get (le_put n x) = x mod 256 ^ n"
proof (induction n arbitrary: x)
  case 0
  then show ?case by simp
next
  case (Suc n)
  then show ?case by (simp add: mod_mult2_eq)
qed

lemma le_get_bound: "le_get bs < 256 ^ length bs"
proof (induction bs)
  case Nil
  then show ?case by simp
next
  case (Cons b bs)
  have "unat b + 256 * le_get bs < 256 * (le_get bs + 1)"
    using unat_byte_lt [of b] by simp
  also have "\<dots> \<le> 256 * 256 ^ length bs"
    using Cons.IH by (intro mult_le_mono) auto
  finally show ?case by simp
qed

lemma le_put_get [codec_simps]: "n = length bs \<Longrightarrow> le_put n (le_get bs) = bs"
proof (induction bs arbitrary: n)
  case Nil
  then show ?case by simp
next
  case (Cons b bs)
  have "(unat b + 256 * le_get bs) mod 256 = unat b" "(unat b + 256 * le_get bs) div 256 = le_get bs"
    using unat_byte_lt [of b] by auto
  then show ?case using Cons by simp
qed

lemma be_get_put [codec_simps]: "be_get (be_put n x) = x mod 256 ^ n"
  by (simp add: be_get_def be_put_def le_get_put)

lemma be_put_get [codec_simps]: "n = length bs \<Longrightarrow> be_put n (be_get bs) = bs"
  by (simp add: be_get_def be_put_def le_put_get)

lemma be_put_mod: "be_put n (x mod 256 ^ n) = be_put n x"
proof -
  have "le_put n (x mod 256 ^ n) = le_put n x"
  proof (induction n arbitrary: x)
    case (Suc n)
    then show ?case by (simp add: mod_mult2_eq)
  qed simp
  then show ?thesis by (simp add: be_put_def)
qed

lemma le_get_append: "le_get (xs @ ys) = le_get xs + 256 ^ length xs * le_get ys"
  by (induction xs) (simp_all add: algebra_simps)

lemma be_get_append: "be_get (xs @ ys) = be_get xs * 256 ^ length ys + be_get ys"
  by (simp add: be_get_def le_get_append)

lemma be_get_bound: "be_get bs < 256 ^ length bs"
  using le_get_bound [of "rev bs"] by (simp add: be_get_def)

lemma le_put_inj: "x < 256 ^ n \<Longrightarrow> y < 256 ^ n \<Longrightarrow> le_put n x = le_put n y \<Longrightarrow> x = y"
  by (metis le_get_put mod_less)

lemma unat_uint16_lt: "unat (w :: uint16) < 65536"
  using unsigned_less [of w, where ?'a = nat] by simp

lemma unat_uint32_lt: "unat (w :: uint32) < 4294967296"
  using unsigned_less [of w, where ?'a = nat] by simp

lemma unat_uint64_lt: "unat (w :: uint64) < 18446744073709551616"
  using unsigned_less [of w, where ?'a = nat] by simp

lemma le_get_uint16 [simp]: "le_get (le_put 2 (unat (w :: uint16))) = unat w"
  using unat_uint16_lt [of w] by (simp add: le_get_put)

lemma le_get_uint32 [simp]: "le_get (le_put 4 (unat (w :: uint32))) = unat w"
  using unat_uint32_lt [of w] by (simp add: le_get_put)

lemma le_get_uint64 [simp]: "le_get (le_put 8 (unat (w :: uint64))) = unat w"
  using unat_uint64_lt [of w] by (simp add: le_get_put)

lemma be_get_uint64 [simp]: "be_get (be_put 8 (unat (w :: uint64))) = unat w"
  using unat_uint64_lt [of w] by (simp add: be_get_put)

lemma unat_le_get_uint32: "length bs = 4 \<Longrightarrow> unat (of_nat (le_get bs) :: uint32) = le_get bs"
  using le_get_bound [of bs] by (simp add: unat_of_nat take_bit_nat_eq_self_iff)

lemma unat_le_get_uint64: "length bs = 8 \<Longrightarrow> unat (of_nat (le_get bs) :: uint64) = le_get bs"
  using le_get_bound [of bs] by (simp add: unat_of_nat take_bit_nat_eq_self_iff)

lemma le_put_uint32 [simp]: "length bs = 4 \<Longrightarrow> le_put 4 (unat (of_nat (le_get bs) :: uint32)) = bs"
  by (simp only: unat_le_get_uint32 le_put_get)

lemma le_put_uint64 [simp]: "length bs = 8 \<Longrightarrow> le_put 8 (unat (of_nat (le_get bs) :: uint64)) = bs"
  by (simp only: unat_le_get_uint64 le_put_get)

section \<open>Sums\<close>

lemma sum_case_Inr_E:
  assumes "(case r of Inl e \<Rightarrow> Inl e | Inr x \<Rightarrow> f x) = Inr y"
  obtains x where "r = Inr x" "f x = Inr y"
  using assms by (cases r) auto

end
