(* ===== verification/Rose_Uid.thy ===== *)
theory Rose_Uid
  imports Rose_Prelude
begin

text \<open>
  The package \<^verbatim>\<open>uid\<close>: 120-bit identifiers and their Crockford base32 text form
  (\<^verbatim>\<open>src/uid/uid.go\<close>). A UID is a byte list of length \<open>Size\<close>; the encoder and the
  decoder keep the source's 16-bit accumulator, whose stale high bits are never masked
  off, so the proofs relate it to the positional value modulo \<open>2 ^ 16\<close>.
\<close>

section \<open>The code\<close>

definition Size :: nat where
  "Size = 15"

definition EncodedLen :: nat where
  "EncodedLen = 24"

type_synonym uid = bytes

definition crockford :: bytes where
  "crockford = str_bytes ''0123456789ABCDEFGHJKMNPQRSTVWXYZ''"

text \<open>The loop of \<^verbatim>\<open>init\<close> over the alphabet, then its six substitutions.\<close>

fun decode_symbols :: "nat \<Rightarrow> bytes \<Rightarrow> int list \<Rightarrow> int list" where
  "decode_symbols v [] d = d"
| "decode_symbols v (c # cs) d =
     (let d1 = d[unat c := int v];
          d2 = (if 65 \<le> unat c \<and> unat c \<le> 90 then d1[unat c + 32 := int v] else d1)
      in decode_symbols (Suc v) cs d2)"

definition decode :: "int list" where
  "decode = (decode_symbols 0 crockford (replicate 256 (-1)))
     [79 := 0, 111 := 0, 73 := 1, 105 := 1, 76 := 1, 108 := 1]"

definition zero_uid :: uid where
  "zero_uid = replicate Size 0"

definition FromBytes :: "bytes \<Rightarrow> uid result" where
  "FromBytes b =
     (if length b = 0 then Inr zero_uid
      else if length b \<noteq> Size then Inl (Err ''uid: invalid byte length'')
      else Inr b)"

definition IsZero :: "uid \<Rightarrow> bool" where
  "IsZero u \<longleftrightarrow> u = zero_uid"

text \<open>The inner loop of \<^verbatim>\<open>String\<close>, which buffers bytes until five bits are available.\<close>

function uid_fill :: "uid \<Rightarrow> uint16 \<Rightarrow> nat \<Rightarrow> nat \<Rightarrow> uint16 \<times> nat \<times> nat" where
  "uid_fill u acc bits bi =
     (if bits < 5 then uid_fill u (push_bit 8 acc OR ucast (u ! bi)) (bits + 8) (bi + 1)
      else (acc, bits, bi))"
  by pat_completeness auto
termination
  by (relation "measure (\<lambda>(u, acc, bits, bi). 5 - bits)") auto

declare uid_fill.simps [simp del]

fun uid_encode :: "uid \<Rightarrow> nat \<Rightarrow> uint16 \<Rightarrow> nat \<Rightarrow> nat \<Rightarrow> bytes" where
  "uid_encode u 0 acc bits bi = []"
| "uid_encode u (Suc n) acc bits bi =
     (let (acc, bits, bi) = uid_fill u acc bits bi; bits = bits - 5
      in crockford ! unat (drop_bit bits acc AND 0x1f) # uid_encode u n acc bits bi)"

definition UID_String :: "uid \<Rightarrow> bytes" where
  "UID_String u = uid_encode u EncodedLen 0 0 0"

fun uid_parse :: "bytes \<Rightarrow> uid \<Rightarrow> uint16 \<Rightarrow> nat \<Rightarrow> nat \<Rightarrow> uid result" where
  "uid_parse [] u acc bits bi = Inr u"
| "uid_parse (c # cs) u acc bits bi =
     (let v = decode ! unat c
      in if v < 0 then Inl (Err ''uid: invalid character'')
         else let acc = push_bit 5 acc OR of_int v; bits = bits + 5
              in if bits \<ge> 8
                 then let bits = bits - 8
                      in uid_parse cs (u[bi := ucast (drop_bit bits acc)]) acc bits (bi + 1)
                 else uid_parse cs u acc bits bi)"

definition Parse :: "bytes \<Rightarrow> uid result" where
  "Parse s =
     (let s = filter (\<lambda>c. c \<noteq> 45) s
      in if length s \<noteq> EncodedLen then Inl (Err ''uid: invalid length'')
         else uid_parse s zero_uid 0 0 0)"

section \<open>Positional values\<close>

definition num :: "nat \<Rightarrow> nat list \<Rightarrow> nat" where
  "num b ds = foldl (\<lambda>a d. a * b + d) 0 ds"

lemma num_Nil [simp]: "num b [] = 0"
  by (simp add: num_def)

lemma num_snoc [simp]: "num b (ds @ [d]) = num b ds * b + d"
  by (simp add: num_def)

lemma num_append: "num b (xs @ ys) = num b xs * b ^ length ys + num b ys"
  by (induction ys rule: rev_induct) (simp_all add: append_assoc [symmetric] algebra_simps del: append_assoc)

lemma num_bound: "\<forall>d \<in> set ds. d < b \<Longrightarrow> num b ds < b ^ length ds"
proof (induction ds rule: rev_induct)
  case Nil
  then show ?case by simp
next
  case (snoc d ds)
  then have "num b ds + 1 \<le> b ^ length ds" "d < b" by auto
  then have "num b ds * b + d < (num b ds + 1) * b" by simp
  also have "\<dots> \<le> b ^ length ds * b" using \<open>num b ds + 1 \<le> b ^ length ds\<close> by (intro mult_le_mono) auto
  finally show ?case by (simp add: mult.commute)
qed

lemma num_take:
  assumes "\<forall>d \<in> set ds. d < b"
  shows "num b (take k ds) = num b ds div b ^ (length ds - k)"
proof -
  have lt: "num b (drop k ds) < b ^ (length ds - k)"
    using num_bound [of "drop k ds" b] assms by (auto dest: in_set_dropD)
  have "num b ds = num b (take k ds) * b ^ (length ds - k) + num b (drop k ds)"
    by (metis num_append append_take_drop_id length_drop)
  moreover have "b ^ (length ds - k) \<noteq> 0" using lt by (metis less_nat_zero_code)
  ultimately show ?thesis using lt by (metis add_0 add.commute div_less div_mult_self1)
qed

lemma num_digit:
  assumes "\<forall>d \<in> set ds. d < b" "k < length ds"
  shows "num b ds div b ^ (length ds - Suc k) mod b = ds ! k"
proof -
  have "num b (take (Suc k) ds) = num b (take k ds) * b + ds ! k"
    using assms(2) by (simp add: take_Suc_conv_app_nth)
  then show ?thesis
    using assms by (simp flip: num_take)
qed

lemma num_of_digits:
  "num b (map (\<lambda>j. x div b ^ (n - Suc j) mod b) [0..<n]) = x mod b ^ n"
proof (induction n arbitrary: x)
  case 0
  then show ?case by simp
next
  case (Suc n)
  have "map (\<lambda>j. x div b ^ (Suc n - Suc j) mod b) [0..<n]
      = map (\<lambda>j. (x div b) div b ^ (n - Suc j) mod b) [0..<n]"
    by (rule map_cong) (auto simp: Suc_diff_Suc simp flip: div_mult2_eq power_Suc)
  then have "num b (map (\<lambda>j. x div b ^ (Suc n - Suc j) mod b) [0..<Suc n])
      = (x div b mod b ^ n) * b + x mod b"
    by (simp only: upt_Suc_append map_append list.map num_snoc Suc.IH) simp
  also have "\<dots> = x mod b ^ Suc n"
    by (simp add: mod_mult2_eq)
  finally show ?case .
qed

lemma num_sum: "num b ds = (\<Sum>k<length ds. ds ! k * b ^ (length ds - Suc k))"
proof (induction ds rule: rev_induct)
  case (snoc d ds)
  have "(\<Sum>k<length ds. (ds @ [d]) ! k * b ^ (length ds - k)) = (\<Sum>k<length ds. ds ! k * b ^ (length ds - Suc k)) * b"
    unfolding sum_distrib_right
    by (intro sum.cong) (auto simp: nth_append mult.assoc Suc_diff_Suc simp flip: power_Suc2)
  then show ?case by (simp add: snoc)
qed simp

section \<open>The accumulator\<close>

lemma shift_or_add:
  fixes w v :: uint16
  assumes "unat v < 2 ^ n"
  shows "push_bit n w OR v = w * 2 ^ n + v"
proof -
  have v: "take_bit n v = v"
    by (metis assms take_bit_nat_eq_self unsigned_take_bit_eq word_unat_eq_iff)
  have "push_bit n w AND v = 0"
    by (subst v [symmetric]) (auto intro!: bit_eqI simp: bit_simps)
  then have "push_bit n w OR v = push_bit n w + v"
    by (rule disjunctive_add_eq_or [symmetric])
  then show ?thesis by (simp add: push_bit_eq_mult)
qed

lemma acc_byte: "push_bit 8 (of_nat a :: uint16) OR ucast (x :: byte) = of_nat (a * 256 + unat x)"
proof -
  have x: "unat (ucast x :: uint16) = unat x"
    by (simp add: unsigned_ucast_eq take_bit_nat_eq_self_iff order_less_trans [OF unat_byte_lt])
  then have "ucast x = (of_nat (unat x) :: uint16)" by (metis of_nat_unat ucast_id)
  then show ?thesis using x unat_byte_lt [of x] by (simp add: shift_or_add)
qed

lemma acc_digit: "v < 32 \<Longrightarrow> push_bit 5 (of_nat a :: uint16) OR of_nat v = of_nat (a * 32 + v)"
  by (subst shift_or_add) (simp_all add: unat_of_nat take_bit_nat_eq_self_iff)

lemma unat_acc_window:
  assumes "n + k \<le> 16"
  shows "unat (take_bit k (drop_bit n (of_nat a :: uint16))) = a div 2 ^ n mod 2 ^ k"
proof -
  have "unat (of_nat a :: uint16) = take_bit 16 a"
    by (simp add: unat_of_nat take_bit_eq_mod)
  then have "unat (take_bit k (drop_bit n (of_nat a :: uint16))) = take_bit k (drop_bit n (take_bit 16 a))"
    by (simp only: unsigned_take_bit_eq unat_drop_bit_eq)
  also have "\<dots> = take_bit k (drop_bit n a)"
    using assms by (auto intro!: bit_eqI simp: bit_simps)
  finally show ?thesis by (simp add: take_bit_eq_mod drop_bit_eq_div)
qed

lemma unat_acc_symbol:
  "n + 5 \<le> 16 \<Longrightarrow> unat (drop_bit n (of_nat a :: uint16) AND 0x1f) = a div 2 ^ n mod 32"
  using unat_acc_window [of n 5 a] by (simp add: take_bit_eq_mask mask_eq_exp_minus_1)

lemma acc_out_byte:
  assumes "n + 8 \<le> 16"
  shows "(ucast (drop_bit n (of_nat a :: uint16)) :: byte) = of_nat (a div 2 ^ n)"
proof -
  have "unat (ucast (drop_bit n (of_nat a :: uint16)) :: byte)
      = unat (take_bit 8 (drop_bit n (of_nat a :: uint16)))"
    by (simp add: unsigned_ucast_eq unsigned_take_bit_eq)
  also have "\<dots> = unat (of_nat (a div 2 ^ n) :: byte)"
    using unat_acc_window [OF assms] by simp
  finally show ?thesis by (simp add: word_unat_eq_iff)
qed

section \<open>The encoder\<close>

lemma uid_fill_eq [simp]:
  "uid_fill u acc bits bi =
     (if bits < 5 then (push_bit 8 acc OR ucast (u ! bi), bits + 8, bi + 1) else (acc, bits, bi))"
  by (simp add: uid_fill.simps)

definition uid_value :: "uid \<Rightarrow> nat" where
  "uid_value u = num 256 (map unat u)"

lemma uid_value_take:
  "length u = Size \<Longrightarrow> num 256 (take k (map unat u)) = uid_value u div 256 ^ (Size - k)"
  using num_take [of "map unat u" 256 k] unat_byte_lt by (auto simp: uid_value_def)

lemma uid_value_bound: "length u = Size \<Longrightarrow> uid_value u < 2 ^ 120"
  using num_bound [of "map unat u" 256] unat_byte_lt by (auto simp: uid_value_def Size_def)

lemma uid_encode_spec:
  assumes "length u = Size" "n \<le> 24" "8 * bi = 5 * (24 - n) + bits" "bits < 8"
  shows "uid_encode u n (of_nat (num 256 (take bi (map unat u)))) bits bi
       = map (\<lambda>i. crockford ! (uid_value u div 32 ^ (23 - i) mod 32)) [24 - n..<24]"
  using assms(2-)
proof (induction n arbitrary: bits bi)
  case 0
  then show ?case by simp
next
  case (Suc m)
  obtain bits' bi' where f:
    "uid_fill u (of_nat (num 256 (take bi (map unat u)))) bits bi
     = (of_nat (num 256 (take bi' (map unat u))), bits', bi')"
    "8 * bi' = 5 * (24 - Suc m) + bits'" "5 \<le> bits'" "bits' \<le> 12"
  proof (cases "bits < 5")
    case True
    then have "bi < length u" using Suc.prems assms(1) by (simp add: Size_def)
    then have "num 256 (take (bi + 1) (map unat u)) = num 256 (take bi (map unat u)) * 256 + unat (u ! bi)"
      by (simp add: take_Suc_conv_app_nth)
    then show ?thesis using True Suc.prems that [of "bi + 1" "bits + 8"] by (simp add: acc_byte)
  next
    case False
    then show ?thesis using Suc.prems that [of bi bits] by simp
  qed
  let ?e = "8 * (Size - bi') + (bits' - 5)"
  have e: "?e = 5 * (23 - (24 - Suc m))"
    using f(2-4) Suc.prems(1) by (simp add: Size_def)
  have "num 256 (take bi' (map unat u)) div 2 ^ (bits' - 5) = uid_value u div (256 ^ (Size - bi') * 2 ^ (bits' - 5))"
    using assms(1) by (simp add: uid_value_take div_mult2_eq)
  also have "(256 :: nat) ^ (Size - bi') * 2 ^ (bits' - 5) = 2 ^ ?e"
    by (simp add: power_add power_mult)
  also have "\<dots> = 32 ^ (23 - (24 - Suc m))"
    by (subst e) (simp add: power_mult)
  finally have d: "unat (drop_bit (bits' - 5) (of_nat (num 256 (take bi' (map unat u))) :: uint16) AND 0x1f)
      = uid_value u div 32 ^ (23 - (24 - Suc m)) mod 32"
    using f(3,4) by (subst unat_acc_symbol) simp_all
  have r: "[24 - Suc m..<24] = (24 - Suc m) # [24 - m..<24]"
    using Suc.prems(1) upt_conv_Cons [of "24 - Suc m" 24] by (simp only: Suc_diff_Suc)
  have "uid_encode u m (of_nat (num 256 (take bi' (map unat u)))) (bits' - 5) bi'
      = map (\<lambda>i. crockford ! (uid_value u div 32 ^ (23 - i) mod 32)) [24 - m..<24]"
    using Suc.prems(1) f(2-4) by (intro Suc.IH) auto
  then show ?case unfolding r by (simp add: f(1) d del: uid_fill_eq)
qed

lemma UID_String_spec:
  "length u = Size \<Longrightarrow>
   UID_String u = map (\<lambda>i. crockford ! (uid_value u div 32 ^ (23 - i) mod 32)) [0..<24]"
  using uid_encode_spec [of u 24 0 0] by (simp add: UID_String_def EncodedLen_def)

lemma uid_value_sum: "length u = Size \<Longrightarrow> uid_value u = (\<Sum>k<15. unat (u ! k) * 256 ^ (14 - k))"
  using num_sum [of 256 "map unat u"] by (simp add: uid_value_def Size_def)

section \<open>The decoder\<close>

lemma decode_crockford: "v < 32 \<Longrightarrow> decode ! unat (crockford ! v) = int v"
proof -
  have "list_all (\<lambda>v. decode ! unat (crockford ! v) = int v) [0..<32]" by code_simp
  then show "v < 32 \<Longrightarrow> ?thesis" by (simp add: list_all_iff)
qed

lemma crockford_not_hyphen: "v < 32 \<Longrightarrow> crockford ! v \<noteq> 45"
proof -
  have "list_all (\<lambda>v. crockford ! v \<noteq> 45) [0..<32]" by code_simp
  then show "v < 32 \<Longrightarrow> ?thesis" by (simp add: list_all_iff)
qed

lemma decode_less: "decode ! unat (c :: byte) < 32"
proof -
  have "list_all (\<lambda>n. decode ! n < 32) [0..<256]" by code_simp
  then show ?thesis using unat_byte_lt [of c] by (simp add: list_all_iff)
qed

lemma nat_decode_less: "nat (decode ! unat (c :: byte)) < 32"
  using decode_less [of c] by linarith

definition uid_of_value :: "nat \<Rightarrow> uid" where
  "uid_of_value x = map (\<lambda>k. of_nat (x div 256 ^ (14 - k))) [0..<15]"

lemma length_uid_of_value [simp]: "length (uid_of_value x) = Size"
  by (simp add: uid_of_value_def Size_def)

lemma uid_parse_spec:
  assumes "length ds = 24" "\<forall>d \<in> set ds. d < 32" "map (\<lambda>c. decode ! unat c) cs = map int ds"
    and "n \<le> 24" "5 * (24 - n) = 8 * bi + bits" "bits < 8" "length u = 15"
  shows "uid_parse (drop (24 - n) cs) u (of_nat (num 32 (take (24 - n) ds))) bits bi
       = Inr (take bi u @ drop bi (uid_of_value (num 32 ds)))"
  using assms(4-)
proof (induction n arbitrary: bits bi u)
  case 0
  then have "bi = 15" by simp
  then show ?case
    using 0 assms(1,3) map_eq_imp_length_eq [OF assms(3)] by (simp add: uid_of_value_def)
next
  case (Suc m)
  define i where "i = 24 - Suc m"
  have i: "i < 24" "24 - m = Suc i" "5 * i = 8 * bi + bits" using Suc.prems by (auto simp: i_def)
  have len: "length cs = 24" using assms(1,3) map_eq_imp_length_eq by fastforce
  have dec: "decode ! unat (cs ! i) = int (ds ! i)"
    using i(1) len assms(1,3) by (metis nth_map)
  have lt: "ds ! i < 32" using assms(1,2) i(1) by simp
  have dr: "drop i cs = cs ! i # drop (Suc i) cs"
    using i(1) len by (simp add: Cons_nth_drop_Suc)
  have acc: "push_bit 5 (of_nat (num 32 (take i ds)) :: uint16) OR of_nat (ds ! i)
      = of_nat (num 32 (take (Suc i) ds))"
    using i(1) assms(1) lt by (simp only: acc_digit) (simp add: take_Suc_conv_app_nth)
  have "uid_parse (drop i cs) u (of_nat (num 32 (take i ds))) bits bi
      = Inr (take bi u @ drop bi (uid_of_value (num 32 ds)))"
  proof (cases "8 \<le> bits + 5")
    case False
    then have "uid_parse (drop (24 - m) cs) u (of_nat (num 32 (take (24 - m) ds))) (bits + 5) bi
        = Inr (take bi u @ drop bi (uid_of_value (num 32 ds)))"
      using Suc.prems i by (intro Suc.IH) auto
    then show ?thesis using False by (simp add: dr dec acc i(2))
  next
    case True
    let ?b = "of_nat (num 32 (take (Suc i) ds) div 2 ^ (bits + 5 - 8)) :: byte"
    have bi: "bi < 15" using Suc.prems i True by simp
    have ex: "(32 :: nat) ^ (24 - Suc i) * 2 ^ (bits + 5 - 8) = 256 ^ (14 - bi)"
    proof -
      have e: "5 * (24 - Suc i) + (bits + 5 - 8) = 8 * (14 - bi)"
        using Suc.prems i True by simp
      have "(32 :: nat) ^ (24 - Suc i) * 2 ^ (bits + 5 - 8) = 2 ^ (5 * (24 - Suc i) + (bits + 5 - 8))"
        by (simp add: power_add power_mult)
      also have "\<dots> = 256 ^ (14 - bi)" by (subst e) (simp add: power_mult)
      finally show ?thesis .
    qed
    have "num 32 (take (Suc i) ds) div 2 ^ (bits + 5 - 8) = num 32 ds div 256 ^ (14 - bi)"
      using num_take [OF assms(2), of "Suc i"] assms(1) ex by (simp flip: div_mult2_eq)
    then have b: "?b = uid_of_value (num 32 ds) ! bi"
      using bi by (simp add: uid_of_value_def)
    have "uid_parse (drop (24 - m) cs) (u[bi := ?b]) (of_nat (num 32 (take (24 - m) ds))) (bits + 5 - 8) (bi + 1)
        = Inr (take (bi + 1) (u[bi := ?b]) @ drop (bi + 1) (uid_of_value (num 32 ds)))"
      using Suc.prems i True by (intro Suc.IH) auto
    also have "take (bi + 1) (u[bi := ?b]) @ drop (bi + 1) (uid_of_value (num 32 ds))
        = take bi u @ drop bi (uid_of_value (num 32 ds))"
      using bi Suc.prems(4) b
      by (simp add: take_Suc_conv_app_nth Cons_nth_drop_Suc [symmetric] Size_def)
    finally show ?thesis
      using True Suc.prems(3) by (simp add: dr dec acc i(2) acc_out_byte del: of_nat_div)
  qed
  then show ?case by (simp only: i_def)
qed

lemma uid_parse_ok:
  assumes "length s = 24" "\<forall>c \<in> set s. 0 \<le> decode ! unat c"
  shows "uid_parse s zero_uid 0 0 0
       = Inr (uid_of_value (num 32 (map (\<lambda>c. nat (decode ! unat c)) s)))"
  using uid_parse_spec [of "map (\<lambda>c. nat (decode ! unat c)) s" s 24 0 0 zero_uid] assms decode_less
  by (auto simp: zero_uid_def Size_def nat_less_iff)

lemma uid_parse_error:
  "\<exists>c \<in> set s. decode ! unat c < 0 \<Longrightarrow> uid_parse s u acc bits bi = Inl (Err ''uid: invalid character'')"
  by (induction s arbitrary: u acc bits bi) (fastforce simp: Let_def)+

lemma uid_of_value_inverse: "length u = Size \<Longrightarrow> uid_of_value (uid_value u) = u"
proof (rule nth_equalityI)
  fix k assume u: "length u = Size" and k: "k < length (uid_of_value (uid_value u))"
  have "uid_value u div 256 ^ (14 - k) mod 256 = unat (u ! k)"
    using num_digit [of "map unat u" 256 k] u k unat_byte_lt by (auto simp: uid_value_def Size_def)
  then have "unat (uid_of_value (uid_value u) ! k) = unat (u ! k)"
    using k by (simp add: uid_of_value_def Size_def)
  then show "uid_of_value (uid_value u) ! k = u ! k" by (simp add: word_unat_eq_iff)
qed simp

lemma uid_value_of_value: "x < 2 ^ 120 \<Longrightarrow> uid_value (uid_of_value x) = x"
proof -
  have "map unat (uid_of_value x) = map (\<lambda>j. x div 256 ^ (15 - Suc j) mod 256) [0..<15]"
    by (simp add: uid_of_value_def)
  then show "x < 2 ^ 120 \<Longrightarrow> ?thesis"
    using num_of_digits [of 256 x 15] by (simp add: uid_value_def)
qed

lemma num32_digits:
  "x < 2 ^ 120 \<Longrightarrow> num 32 (map (\<lambda>i. x div 32 ^ (23 - i) mod 32) [0..<24]) = x"
  using num_of_digits [of 32 x 24] by simp

lemma UID_String_chars:
  "length u = Size \<Longrightarrow> c \<in> set (UID_String u) \<Longrightarrow> c \<noteq> 45 \<and> 0 \<le> decode ! unat c"
  by (auto simp: UID_String_spec crockford_not_hyphen decode_crockford)

text \<open>
  Crockford's reading of a symbol, stated without the decoder's table: letters are read in upper case,
  I and L as the digit 1 and O as the digit 0; every other byte stands for itself.
\<close>

definition spelled :: "byte \<Rightarrow> byte" where
  "spelled c =
     (let C = (if 97 \<le> c \<and> c \<le> 122 then c - 32 else c)
      in if C = 73 \<or> C = 76 then 49 else if C = 79 then 48 else C)"

lemma decode_spelled: "decode ! unat (spelled c) = decode ! unat c"
proof (cases "97 \<le> unat c \<and> unat c \<le> 122 \<or> unat c \<in> {73, 76, 79}")
  case True
  have "list_all (\<lambda>n. decode ! unat (spelled (of_nat n)) = decode ! n) ([97..<123] @ [73, 76, 79])" by code_simp
  moreover have "unat c \<in> set ([97..<123] @ [73, 76, 79])" using True by (auto simp only: set_append set_upt atLeastLessThan_iff Un_iff list.set insert_iff)
  ultimately have "decode ! unat (spelled (of_nat (unat c))) = decode ! unat c" unfolding list_all_iff by blast
  then show ?thesis by simp
next
  case False
  then have "spelled c = c" by (auto simp: spelled_def word_le_nat_alt)
  then show ?thesis by simp
qed

lemma symbol_spelled: "0 \<le> decode ! unat c \<Longrightarrow> crockford ! nat (decode ! unat c) = spelled c"
proof -
  have "list_all2 (\<lambda>n v. if v < 0 then True else crockford ! nat v = spelled (of_nat n)) [0..<256] decode"
    by code_simp
  from list_all2_nthD [OF this, of "unat c"] show "0 \<le> decode ! unat c \<Longrightarrow> ?thesis"
    using unat_byte_lt [of c] by simp
qed

lemma length_crockford: "length crockford = 32"
  by code_simp

lemma decode_valid: "0 \<le> decode ! unat c \<longleftrightarrow> spelled c \<in> set crockford"
proof
  assume "0 \<le> decode ! unat c"
  from symbol_spelled [OF this] show "spelled c \<in> set crockford"
    using nat_decode_less [of c] length_crockford by (metis nth_mem)
next
  assume "spelled c \<in> set crockford"
  then obtain v where "v < 32" "spelled c = crockford ! v" by (metis in_set_conv_nth length_crockford)
  then show "0 \<le> decode ! unat c" using decode_crockford decode_spelled [of c] by simp
qed

lemma UID_String_symbols: "length u = Size \<Longrightarrow> set (UID_String u) \<subseteq> set crockford"
  by (auto simp: UID_String_spec length_crockford)

lemma Parse_accepts:
  assumes "Parse s = Inr u"
  shows "length u = Size" "UID_String u = map spelled (filter (\<lambda>c. c \<noteq> 45) s)"
proof -
  let ?t = "filter (\<lambda>c. c \<noteq> 45) s"
  let ?ds = "map (\<lambda>c. nat (decode ! unat c)) ?t"
  have l: "length ?t = 24" and p: "uid_parse ?t zero_uid 0 0 0 = Inr u"
    using assms by (auto simp: Parse_def EncodedLen_def Let_def split: if_splits)
  have v: "\<forall>c \<in> set ?t. 0 \<le> decode ! unat c"
    using p uid_parse_error [of ?t zero_uid 0 0 0] by (metis Inl_Inr_False not_less)
  have u: "u = uid_of_value (num 32 ?ds)" using uid_parse_ok [OF l v] p by simp
  have lt: "\<forall>d \<in> set ?ds. d < 32" by (auto simp: nat_decode_less)
  have "num 32 ?ds < 2 ^ 120" using num_bound [OF lt] l by simp
  then have val: "uid_value u = num 32 ?ds" by (simp add: u uid_value_of_value)
  have "num 32 ?ds div 32 ^ (23 - i) mod 32 = ?ds ! i" if "i < 24" for i
    using num_digit [OF lt, of i] that l by simp
  then have "UID_String u = map (\<lambda>c. crockford ! nat (decode ! unat c)) ?t"
    using l by (intro nth_equalityI) (auto simp: UID_String_spec u val [unfolded u])
  also have "\<dots> = map spelled ?t"
    using v by (intro map_cong) (simp_all add: symbol_spelled)
  finally show "UID_String u = map spelled ?t" .
  show "length u = Size" by (simp add: u)
qed

lemma Parse_spelling:
  assumes "length u = Size" "UID_String u = map spelled (filter (\<lambda>c. c \<noteq> 45) s)"
  shows "Parse s = Inr u"
proof -
  let ?t = "filter (\<lambda>c. c \<noteq> 45) s"
  have "length (UID_String u) = 24" by (simp add: UID_String_spec [OF assms(1)])
  then have l: "length ?t = 24" by (simp add: assms(2))
  have sym: "spelled c \<in> set crockford" if "c \<in> set ?t" for c
    using UID_String_symbols [OF assms(1)] that by (auto simp: assms(2))
  then have v: "\<forall>c \<in> set ?t. 0 \<le> decode ! unat c" by (simp add: decode_valid)
  have "map (\<lambda>c. nat (decode ! unat c)) ?t = map (\<lambda>c. nat (decode ! unat c)) (UID_String u)"
    by (simp add: assms(2) decode_spelled)
  also have "\<dots> = map (\<lambda>i. uid_value u div 32 ^ (23 - i) mod 32) [0..<24]"
    by (simp add: UID_String_spec [OF assms(1)] decode_crockford)
  finally have "uid_parse ?t zero_uid 0 0 0 = Inr (uid_of_value (uid_value u))"
    using uid_parse_ok [OF l v] num32_digits [OF uid_value_bound [OF assms(1)]] by simp
  then show ?thesis using l by (simp add: Parse_def EncodedLen_def uid_of_value_inverse [OF assms(1)])
qed

section \<open>Properties\<close>

text \<open>
  C13. Printing a UID and parsing the text gives the UID back: \<^verbatim>\<open>Parse(u.String()) == u\<close>
  for every 120-bit identifier, through the 16-bit accumulators of both loops.
\<close>

theorem Parse_String_roundtrip:
  assumes "length u = Size"
  shows "Parse (UID_String u) = Inr u"
proof -
  have f: "filter (\<lambda>c. c \<noteq> 45) (UID_String u) = UID_String u"
    using UID_String_chars [OF assms] by (simp add: filter_id_conv)
  have l: "length (UID_String u) = 24" by (simp add: UID_String_spec [OF assms])
  have d: "map (\<lambda>c. nat (decode ! unat c)) (UID_String u)
      = map (\<lambda>i. uid_value u div 32 ^ (23 - i) mod 32) [0..<24]"
    by (simp add: UID_String_spec [OF assms] decode_crockford)
  have "uid_parse (UID_String u) zero_uid 0 0 0 = Inr (uid_of_value (uid_value u))"
    using uid_parse_ok [OF l] UID_String_chars [OF assms]
    by (simp add: d num32_digits [OF uid_value_bound [OF assms]])
  then show ?thesis
    by (simp add: Parse_def f l EncodedLen_def uid_of_value_inverse [OF assms])
qed

theorem Parse_String_roundtrip_witness:
  "Parse (UID_String [1, 2, 3, 4, 5, 6, 7, 8, 9, 10, 11, 12, 13, 14, 255])
     = Inr [1, 2, 3, 4, 5, 6, 7, 8, 9, 10, 11, 12, 13, 14, 255]"
  by (rule Parse_String_roundtrip) (simp add: Size_def)

text \<open>
  C14. Parsing is exact: a text is accepted as the UID \<open>u\<close> precisely when, hyphens dropped and every
  symbol read as Crockford prescribes (in either case, I and L as 1, O as 0), it is what \<open>u\<close>
  prints. In particular every other text is refused, and two texts parse to the same UID only when
  they have the same reading.
\<close>

theorem Parse_canonical:
  "Parse s = Inr u \<longleftrightarrow> length u = Size \<and> UID_String u = map spelled (filter (\<lambda>c. c \<noteq> 45) s)"
  using Parse_accepts [of s u] Parse_spelling [of u s] by blast

text \<open>
  C27. The text of a UID is its 120-bit value, most significant byte first, written in 24 base-32
  digits of the alphabet of digits and upper-case letters without I, L, O and U.
\<close>

theorem UID_String_base32:
  assumes "length u = Size"
  shows "UID_String u =
    map (\<lambda>i. str_bytes ''0123456789ABCDEFGHJKMNPQRSTVWXYZ'' !
           ((\<Sum>k<15. unat (u ! k) * 256 ^ (14 - k)) div 32 ^ (23 - i) mod 32)) [0..<24]"
  unfolding UID_String_spec [OF assms] uid_value_sum [OF assms] crockford_def ..

theorem UID_String_base32_witness:
  "UID_String [255, 0, 0, 0, 0, 0, 0, 0, 0, 0, 0, 0, 0, 0, 33] = str_bytes ''ZW0000000000000000000011''"
proof -
  let ?u = "[255, 0, 0, 0, 0, 0, 0, 0, 0, 0, 0, 0, 0, 0, 33] :: uid"
  have l: "length ?u = Size" by (simp add: Size_def)
  have v: "(\<Sum>k<15. unat (?u ! k) * 256 ^ (14 - k)) = 1324035698926381045275276563951124513"
    by (simp add: lessThan_nat_numeral lessThan_Suc)
  show ?thesis unfolding UID_String_base32 [OF l] v by (simp add: str_bytes_def upt_rec)
qed

end
