(* ===== verification/Rose_Crypto.thy ===== *)
theory Rose_Crypto
  imports Rose_Prelude
begin

text \<open>
  The parts of Go's standard library that the storage format rests on:
  \<^verbatim>\<open>crypto/sha256\<close>, \<^verbatim>\<open>crypto/hmac\<close> with SHA-256, \<^verbatim>\<open>hash/crc32\<close> with the
  Castagnoli table, and AES-128 in counter mode (\<^verbatim>\<open>crypto/aes\<close>, \<^verbatim>\<open>crypto/cipher\<close>).
  They are executable definitions of the published functions, so every theorem of the
  development is about these functions and none assumes anything of them; the
  lemmas here are the digest lengths and the involution of the key stream.
\<close>

section \<open>SHA-256\<close>

definition sha256_k :: "uint32 list" where
  "sha256_k =
    [1116352408, 1899447441, 3049323471, 3921009573, 961987163, 1508970993,
     2453635748, 2870763221, 3624381080, 310598401, 607225278, 1426881987,
     1925078388, 2162078206, 2614888103, 3248222580, 3835390401, 4022224774,
     264347078, 604807628, 770255983, 1249150122, 1555081692, 1996064986,
     2554220882, 2821834349, 2952996808, 3210313671, 3336571891, 3584528711,
     113926993, 338241895, 666307205, 773529912, 1294757372, 1396182291,
     1695183700, 1986661051, 2177026350, 2456956037, 2730485921, 2820302411,
     3259730800, 3345764771, 3516065817, 3600352804, 4094571909, 275423344,
     430227734, 506948616, 659060556, 883997877, 958139571, 1322822218,
     1537002063, 1747873779, 1955562222, 2024104815, 2227730452, 2361852424,
     2428436474, 2756734187, 3204031479, 3329325298]"

definition rotr32 :: "nat \<Rightarrow> uint32 \<Rightarrow> uint32" where
  "rotr32 n w = drop_bit n w OR push_bit (32 - n) w"

type_synonym sha256_state = "uint32 list"

definition sha256_init :: sha256_state where
  "sha256_init =
    [1779033703, 3144134277, 1013904242, 2773480762,
     1359893119, 2600822924, 528734635, 1541459225]"

definition sha256_extend_word :: "uint32 list \<Rightarrow> uint32" where
  "sha256_extend_word ws =
     (let n = length ws; a = ws ! (n - 2); b = ws ! (n - 15)
      in (rotr32 17 a XOR rotr32 19 a XOR drop_bit 10 a) + ws ! (n - 7)
         + (rotr32 7 b XOR rotr32 18 b XOR drop_bit 3 b) + ws ! (n - 16))"

fun sha256_schedule :: "nat \<Rightarrow> uint32 list \<Rightarrow> uint32 list" where
  "sha256_schedule 0 ws = ws"
| "sha256_schedule (Suc n) ws = sha256_schedule n (ws @ [sha256_extend_word ws])"

fun sha256_round :: "uint32 \<times> uint32 \<Rightarrow> sha256_state \<Rightarrow> sha256_state" where
  "sha256_round (k, w) [a, b, c, d, e, f, g, h] =
     (let t1 = h + (rotr32 6 e XOR rotr32 11 e XOR rotr32 25 e)
             + ((e AND f) XOR (NOT e AND g)) + k + w;
          t2 = (rotr32 2 a XOR rotr32 13 a XOR rotr32 22 a)
             + ((a AND b) XOR (a AND c) XOR (b AND c))
      in [t1 + t2, a, b, c, d + t1, e, f, g])"
| "sha256_round _ s = s"

text \<open>Four bytes as a big-endian word and back.\<close>

definition be_word :: "bytes \<Rightarrow> uint32" where
  "be_word bs = fold (\<lambda>b w. push_bit 8 w OR ucast b) bs 0"

definition be_word_bytes :: "uint32 \<Rightarrow> bytes" where
  "be_word_bytes w = map (\<lambda>i. ucast (drop_bit i w)) [24, 16, 8, 0]"

fun be_words :: "nat \<Rightarrow> bytes \<Rightarrow> uint32 list" where
  "be_words 0 bs = []"
| "be_words (Suc n) bs = be_word (take 4 bs) # be_words n (drop 4 bs)"

definition sha256_compress :: "sha256_state \<Rightarrow> bytes \<Rightarrow> sha256_state" where
  "sha256_compress s block =
     map2 (+) s (fold sha256_round (zip sha256_k (sha256_schedule 48 (be_words 16 block))) s)"

fun sha256_blocks :: "nat \<Rightarrow> bytes \<Rightarrow> sha256_state \<Rightarrow> sha256_state" where
  "sha256_blocks 0 m s = s"
| "sha256_blocks (Suc n) m s = sha256_blocks n (drop 64 m) (sha256_compress s (take 64 m))"

definition sha256_pad :: "bytes \<Rightarrow> bytes" where
  "sha256_pad m =
     m @ 0x80 # replicate ((119 - length m mod 64) mod 64) 0 @ be_put 8 (8 * length m)"

definition sha256 :: "bytes \<Rightarrow> bytes" where
  "sha256 m =
     (let p = sha256_pad m
      in concat (map be_word_bytes (sha256_blocks (length p div 64) p sha256_init)))"

lemma length_sha256_round: "length (sha256_round kw s) = length s"
  by (induction kw s rule: sha256_round.induct) (simp_all add: Let_def)

lemma length_fold_sha256_round: "length (fold sha256_round kws s) = length s"
  by (induction kws arbitrary: s) (simp_all add: length_sha256_round)

lemma length_sha256_blocks: "length (sha256_blocks n m s) = length s"
  by (induction n arbitrary: m s) (simp_all add: sha256_compress_def length_fold_sha256_round)

lemma length_sha256 [simp]: "length (sha256 m) = 32"
proof -
  have "length (concat (map be_word_bytes s)) = 4 * length s" for s
    by (induction s) (simp_all add: be_word_bytes_def)
  then show ?thesis by (simp add: sha256_def Let_def length_sha256_blocks sha256_init_def)
qed

section \<open>HMAC\<close>

definition hmac_key :: "bytes \<Rightarrow> bytes" where
  "hmac_key key =
     (let k = (if length key > 64 then sha256 key else key) in k @ replicate (64 - length k) 0)"

definition hmac_sha256 :: "bytes \<Rightarrow> bytes \<Rightarrow> bytes" where
  "hmac_sha256 key m =
     sha256 (map (\<lambda>b. b XOR 0x5c) (hmac_key key)
           @ sha256 (map (\<lambda>b. b XOR 0x36) (hmac_key key) @ m))"

lemma length_hmac_sha256 [simp]: "length (hmac_sha256 key m) = 32"
  by (simp add: hmac_sha256_def)

section \<open>CRC-32 (Castagnoli)\<close>

fun crc32c_bits :: "nat \<Rightarrow> uint32 \<Rightarrow> uint32" where
  "crc32c_bits 0 c = c"
| "crc32c_bits (Suc n) c =
     crc32c_bits n (if bit c 0 then drop_bit 1 c XOR 0x82f63b78 else drop_bit 1 c)"

definition crc32c :: "bytes \<Rightarrow> uint32" where
  "crc32c bs = NOT (fold (\<lambda>b c. crc32c_bits 8 (c XOR ucast b)) bs 0xffffffff)"

section \<open>AES-128 and counter mode\<close>

definition aes_sbox :: bytes where
  "aes_sbox =
    [0x63, 0x7c, 0x77, 0x7b, 0xf2, 0x6b, 0x6f, 0xc5, 0x30, 0x01, 0x67, 0x2b,
     0xfe, 0xd7, 0xab, 0x76, 0xca, 0x82, 0xc9, 0x7d, 0xfa, 0x59, 0x47, 0xf0,
     0xad, 0xd4, 0xa2, 0xaf, 0x9c, 0xa4, 0x72, 0xc0, 0xb7, 0xfd, 0x93, 0x26,
     0x36, 0x3f, 0xf7, 0xcc, 0x34, 0xa5, 0xe5, 0xf1, 0x71, 0xd8, 0x31, 0x15,
     0x04, 0xc7, 0x23, 0xc3, 0x18, 0x96, 0x05, 0x9a, 0x07, 0x12, 0x80, 0xe2,
     0xeb, 0x27, 0xb2, 0x75, 0x09, 0x83, 0x2c, 0x1a, 0x1b, 0x6e, 0x5a, 0xa0,
     0x52, 0x3b, 0xd6, 0xb3, 0x29, 0xe3, 0x2f, 0x84, 0x53, 0xd1, 0x00, 0xed,
     0x20, 0xfc, 0xb1, 0x5b, 0x6a, 0xcb, 0xbe, 0x39, 0x4a, 0x4c, 0x58, 0xcf,
     0xd0, 0xef, 0xaa, 0xfb, 0x43, 0x4d, 0x33, 0x85, 0x45, 0xf9, 0x02, 0x7f,
     0x50, 0x3c, 0x9f, 0xa8, 0x51, 0xa3, 0x40, 0x8f, 0x92, 0x9d, 0x38, 0xf5,
     0xbc, 0xb6, 0xda, 0x21, 0x10, 0xff, 0xf3, 0xd2, 0xcd, 0x0c, 0x13, 0xec,
     0x5f, 0x97, 0x44, 0x17, 0xc4, 0xa7, 0x7e, 0x3d, 0x64, 0x5d, 0x19, 0x73,
     0x60, 0x81, 0x4f, 0xdc, 0x22, 0x2a, 0x90, 0x88, 0x46, 0xee, 0xb8, 0x14,
     0xde, 0x5e, 0x0b, 0xdb, 0xe0, 0x32, 0x3a, 0x0a, 0x49, 0x06, 0x24, 0x5c,
     0xc2, 0xd3, 0xac, 0x62, 0x91, 0x95, 0xe4, 0x79, 0xe7, 0xc8, 0x37, 0x6d,
     0x8d, 0xd5, 0x4e, 0xa9, 0x6c, 0x56, 0xf4, 0xea, 0x65, 0x7a, 0xae, 0x08,
     0xba, 0x78, 0x25, 0x2e, 0x1c, 0xa6, 0xb4, 0xc6, 0xe8, 0xdd, 0x74, 0x1f,
     0x4b, 0xbd, 0x8b, 0x8a, 0x70, 0x3e, 0xb5, 0x66, 0x48, 0x03, 0xf6, 0x0e,
     0x61, 0x35, 0x57, 0xb9, 0x86, 0xc1, 0x1d, 0x9e, 0xe1, 0xf8, 0x98, 0x11,
     0x69, 0xd9, 0x8e, 0x94, 0x9b, 0x1e, 0x87, 0xe9, 0xce, 0x55, 0x28, 0xdf,
     0x8c, 0xa1, 0x89, 0x0d, 0xbf, 0xe6, 0x42, 0x68, 0x41, 0x99, 0x2d, 0x0f,
     0xb0, 0x54, 0xbb, 0x16]"

definition sub_byte :: "byte \<Rightarrow> byte" where
  "sub_byte b = aes_sbox ! unat b"

definition xtime :: "byte \<Rightarrow> byte" where
  "xtime b = (if bit b 7 then push_bit 1 b XOR 0x1b else push_bit 1 b)"

fun mix_column :: "bytes \<Rightarrow> bytes" where
  "mix_column [a, b, c, d] =
     [xtime a XOR (xtime b XOR b) XOR c XOR d,
      a XOR xtime b XOR (xtime c XOR c) XOR d,
      a XOR b XOR xtime c XOR (xtime d XOR d),
      (xtime a XOR a) XOR b XOR c XOR xtime d]"
| "mix_column cs = cs"

definition shift_rows :: "bytes \<Rightarrow> bytes" where
  "shift_rows s = map (\<lambda>i. s ! ((i + 4 * (i mod 4)) mod 16)) [0..<16]"

definition mix_columns :: "bytes \<Rightarrow> bytes" where
  "mix_columns s = concat (map (\<lambda>j. mix_column (bslice (4 * j) (4 * j + 4) s)) [0..<4])"

definition aes_next_word :: "nat \<Rightarrow> bytes list \<Rightarrow> byte \<Rightarrow> bytes" where
  "aes_next_word i ws rcon =
     (let prev = ws ! (i - 1);
          t = (if i mod 4 = 0
               then map2 (XOR) (map sub_byte (rotate1 prev)) [rcon, 0, 0, 0]
               else prev)
      in map2 (XOR) (ws ! (i - 4)) t)"

fun aes_expand :: "nat \<Rightarrow> bytes list \<Rightarrow> byte \<Rightarrow> bytes list" where
  "aes_expand 0 ws rcon = ws"
| "aes_expand (Suc n) ws rcon =
     (let i = length ws
      in aes_expand n (ws @ [aes_next_word i ws rcon]) (if i mod 4 = 3 \<and> 4 \<le> i then xtime rcon else rcon))"

definition aes_round_keys :: "bytes \<Rightarrow> bytes" where
  "aes_round_keys key =
     concat (aes_expand 40 (map (\<lambda>j. bslice (4 * j) (4 * j + 4) key) [0..<4]) 1)"

definition aes_round :: "bytes \<Rightarrow> nat \<Rightarrow> bytes \<Rightarrow> bytes" where
  "aes_round rk r s =
     map2 (XOR) (if r < 10 then mix_columns (shift_rows (map sub_byte s)) else shift_rows (map sub_byte s))
       (bslice (16 * r) (16 * r + 16) rk)"

definition aes128 :: "bytes \<Rightarrow> bytes \<Rightarrow> bytes" where
  "aes128 key block =
     (let rk = aes_round_keys key
      in fold (aes_round rk) [1..<11] (map2 (XOR) block (take 16 rk)))"

text \<open>Byte \<open>i\<close> of the key stream of \<^verbatim>\<open>cipher.NewCTR\<close> with initial counter block \<open>iv\<close>.\<close>

definition ctr_keystream :: "bytes \<Rightarrow> bytes \<Rightarrow> nat \<Rightarrow> byte" where
  "ctr_keystream key iv i = aes128 key (be_put 16 (be_get iv + i div 16)) ! (i mod 16)"

text \<open>\<^verbatim>\<open>XORKeyStream\<close> on a stream object that has already produced \<open>pos\<close> bytes.\<close>

definition XORKeyStream :: "bytes \<Rightarrow> bytes \<Rightarrow> nat \<Rightarrow> bytes \<Rightarrow> bytes" where
  "XORKeyStream key iv pos src =
     map (\<lambda>j. src ! j XOR ctr_keystream key iv (pos + j)) [0..<length src]"

lemma length_XORKeyStream [simp]: "length (XORKeyStream key iv pos src) = length src"
  by (simp add: XORKeyStream_def)

lemma XORKeyStream_involution [simp]:
  "XORKeyStream key iv pos (XORKeyStream key iv pos src) = src"
  by (rule nth_equalityI) (simp_all add: XORKeyStream_def xor.assoc)

end
