(* ===== verification/Rose_Chunk_Header.thy ===== *)
theory Rose_Chunk_Header
  imports Rose_Crypto Rose_Uid
begin

text \<open>
  Chunk records: the content address (\<^verbatim>\<open>src/storage/content.go\<close>), key and stream
  derivation and positioned AES-CTR (\<^verbatim>\<open>src/storage/crypt.go\<close>) and the 64-byte
  recovery header in clear and encrypted form (\<^verbatim>\<open>src/storage/chunk_header.go\<close>).
  A fixed-size Go array is a byte list of that length; a header is written as the
  concatenation of its fields, in the order and at the offsets of the source.
\<close>

section \<open>Content addresses\<close>

definition ContentHash :: "bytes \<Rightarrow> bytes \<Rightarrow> bytes" where
  "ContentHash domain payload =
     (if length domain = 0 then sha256 payload
      else sha256 (str_bytes ''rose scoped chunk v1'' @ [0] @ domain @ payload))"

section \<open>Key and stream derivation\<close>

definition vlogKeyLabel :: bytes where
  "vlogKeyLabel = str_bytes ''rose vlog aes-ctr key v1''"

definition chunkStreamLabel :: bytes where
  "chunkStreamLabel = str_bytes ''rose chunk stream v1''"

text \<open>
  \<^verbatim>\<open>hmacSHA256\<close> builds HMAC by hand in fixed buffers, so the copies are bounded by
  the 64-byte pads and the 128-byte inner buffer.
\<close>

definition hmacSHA256 :: "bytes \<Rightarrow> bytes \<Rightarrow> bytes \<Rightarrow> bytes" where
  "hmacSHA256 key a b =
     (let ipad = map (\<lambda>x. x XOR 0x36) (copy_at (replicate 64 0) 0 key);
          opad = map (\<lambda>x. x XOR 0x5c) (copy_at (replicate 64 0) 0 key);
          buf = take 128 ipad;
          buf = buf @ take (128 - length buf) a;
          buf = buf @ take (128 - length buf) b;
          inner = sha256 buf
      in sha256 (opad @ inner))"

definition DeriveVlogKey :: "uid \<Rightarrow> uid \<Rightarrow> bytes" where
  "DeriveVlogKey clusterKey vlogUID = take 16 (hmacSHA256 clusterKey vlogKeyLabel vlogUID)"

definition DeriveChunkStreamHash64 :: "bytes \<Rightarrow> uint64 \<Rightarrow> bytes" where
  "DeriveChunkStreamHash64 vlogKey chunkHash64 =
     take 16 (hmacSHA256 vlogKey chunkStreamLabel (le_put 8 (unat chunkHash64)))"

definition DeriveChunkStream :: "bytes \<Rightarrow> bytes \<Rightarrow> bytes result" where
  "DeriveChunkStream vlogKey chunkHash =
     (if length chunkHash < 8 then Inl (Err ''chunk hash length < 8'')
      else Inr (DeriveChunkStreamHash64 vlogKey (of_nat (le_get (take 8 chunkHash)))))"

definition addCounter :: "bytes \<Rightarrow> uint64 \<Rightarrow> bytes" where
  "addCounter counter n =
     (let lo = of_nat (be_get (bslice 8 16 counter)) :: uint64;
          hi = of_nat (be_get (bslice 0 8 counter)) :: uint64;
          lo2 = lo + n;
          hi = (if lo2 < lo then hi + 1 else hi)
      in be_put 8 (unat hi) @ be_put 8 (unat lo2))"

definition ApplyAES128CTR :: "bytes \<Rightarrow> bytes \<Rightarrow> int \<Rightarrow> bytes \<Rightarrow> bytes result" where
  "ApplyAES128CTR vlogKey chunkStream recordOffset buf =
     (if recordOffset < 0 then Inl (Err ''negative record offset'')
      else if length buf = 0 then Inr buf
      else let blockSkip = of_int (recordOffset div 16) :: uint64;
               byteSkip = nat (recordOffset mod 16);
               counter = addCounter chunkStream blockSkip
           in Inr (XORKeyStream vlogKey counter byteSkip buf))"

section \<open>The recovery header\<close>

definition ChunkHeaderSize :: nat where
  "ChunkHeaderSize = 64"

definition chunkHeaderMagic :: bytes where
  "chunkHeaderMagic = str_bytes ''RCHK''"

definition ChunkHeaderVersion :: byte where
  "ChunkHeaderVersion = 1"

definition ChunkFlagInitial :: byte where
  "ChunkFlagInitial = 1"

definition ChunkFlagLast :: byte where
  "ChunkFlagLast = 2"

record ChunkHeader =
  Flags :: byte
  FileID :: uint64
  ChunkHash :: uint64
  PayloadLen :: uint32
  FileOffset :: uint64
  PrevHash :: uint64
  PathHint :: bytes

definition is_initial :: "byte \<Rightarrow> bool" where
  "is_initial f \<longleftrightarrow> f AND ChunkFlagInitial \<noteq> 0"

definition known_flags :: "byte \<Rightarrow> bool" where
  "known_flags f \<longleftrightarrow> f AND NOT (ChunkFlagInitial OR ChunkFlagLast) = 0"

text \<open>Bytes 32 to 63: the path hint, or offset, previous hash and half a path hint.\<close>

definition header_tail :: "ChunkHeader \<Rightarrow> bytes" where
  "header_tail h =
     (if is_initial (Flags h) then PathHint h
      else le_put 8 (unat (FileOffset h)) @ le_put 8 (unat (PrevHash h)) @ take 16 (PathHint h))"

text \<open>The 64 bytes with a given checksum field (bytes 28 to 31).\<close>

definition header_layout :: "ChunkHeader \<Rightarrow> bytes \<Rightarrow> bytes" where
  "header_layout h crc =
     chunkHeaderMagic @ [ChunkHeaderVersion, Flags h] @ [0, 0]
     @ le_put 8 (unat (FileID h)) @ le_put 8 (unat (ChunkHash h))
     @ le_put 4 (unat (PayloadLen h)) @ crc @ header_tail h"

definition Encode :: "ChunkHeader \<Rightarrow> bytes" where
  "Encode h =
     header_layout h (le_put 4 (unat (crc32c (header_layout h (replicate 4 0)))))"

text \<open>Go's \<^verbatim>\<open>clear(crcInput[28:32])\<close>.\<close>

definition clear_crc :: "bytes \<Rightarrow> bytes" where
  "clear_crc buf = take 28 buf @ replicate 4 0 @ drop 32 buf"

definition EncodeEncrypted :: "ChunkHeader \<Rightarrow> bytes \<Rightarrow> bytes \<Rightarrow> bytes result" where
  "EncodeEncrypted h vlogKey chunkHash =
     (let logical = Encode h
      in case DeriveChunkStream vlogKey chunkHash of
           Inl e \<Rightarrow> Inl e
         | Inr stream \<Rightarrow>
             (let clr = chunkHeaderMagic @ [ChunkHeaderVersion, 0]
                    @ le_put 4 (unat (PayloadLen h))
                    @ le_put 4 (unat (crc32c (clear_crc logical)))
                    @ le_put 8 (unat (ChunkHash h));
                  secret = [logical ! 5, 0] @ bslice 8 16 logical @ bslice 32 64 logical
              in case ApplyAES128CTR vlogKey stream 22 secret of
                   Inl e \<Rightarrow> Inl e
                 | Inr enc \<Rightarrow> Inr (clr @ enc)))"

definition decodeLogicalChunkHeader :: "bytes \<Rightarrow> ChunkHeader result" where
  "decodeLogicalChunkHeader buf =
     (if \<not> known_flags (buf ! 5) then Inl (Err ''chunk header has unknown flags'')
      else let ini = is_initial (buf ! 5)
           in Inr \<lparr>Flags = buf ! 5,
                   FileID = of_nat (le_get (bslice 8 16 buf)),
                   ChunkHash = of_nat (le_get (bslice 16 24 buf)),
                   PayloadLen = of_nat (le_get (bslice 24 28 buf)),
                   FileOffset = (if ini then 0 else of_nat (le_get (bslice 32 40 buf))),
                   PrevHash = (if ini then 0 else of_nat (le_get (bslice 40 48 buf))),
                   PathHint = (if ini then bslice 32 64 buf
                               else bslice 48 64 buf @ replicate 16 0)\<rparr>)"

definition DecodeChunkHeader :: "bytes \<Rightarrow> ChunkHeader result" where
  "DecodeChunkHeader buf =
     (if length buf \<noteq> ChunkHeaderSize then Inl (Err ''chunk header length'')
      else if take 4 buf \<noteq> chunkHeaderMagic then Inl (Err ''chunk header missing magic'')
      else if buf ! 4 \<noteq> ChunkHeaderVersion then Inl (Err ''chunk header version unsupported'')
      else if \<not> known_flags (buf ! 5) then Inl (Err ''chunk header has unknown flags'')
      else if le_get (bslice 6 8 buf) \<noteq> 0 then Inl (Err ''chunk header reserved bytes are non-zero'')
      else if unat (crc32c (clear_crc buf)) \<noteq> le_get (bslice 28 32 buf)
           then Inl (Err ''chunk header crc mismatch'')
      else let ini = is_initial (buf ! 5)
           in Inr \<lparr>Flags = buf ! 5,
                   FileID = of_nat (le_get (bslice 8 16 buf)),
                   ChunkHash = of_nat (le_get (bslice 16 24 buf)),
                   PayloadLen = of_nat (le_get (bslice 24 28 buf)),
                   FileOffset = (if ini then 0 else of_nat (le_get (bslice 32 40 buf))),
                   PrevHash = (if ini then 0 else of_nat (le_get (bslice 40 48 buf))),
                   PathHint = (if ini then bslice 32 64 buf
                               else bslice 48 64 buf @ replicate 16 0)\<rparr>)"

text \<open>The caller's content hash is a parameter the decoder never reads.\<close>

definition DecodeEncryptedChunkHeader :: "bytes \<Rightarrow> bytes \<Rightarrow> bytes \<Rightarrow> ChunkHeader result" where
  "DecodeEncryptedChunkHeader buf vlogKey chunkHash =
     (if length buf \<noteq> ChunkHeaderSize then Inl (Err ''chunk header length'')
      else if take 4 buf \<noteq> chunkHeaderMagic then Inl (Err ''chunk header missing magic'')
      else if buf ! 4 \<noteq> ChunkHeaderVersion then Inl (Err ''chunk header version unsupported'')
      else if buf ! 5 \<noteq> 0 then Inl (Err ''chunk header reserved byte is non-zero'')
      else let stream = DeriveChunkStreamHash64 vlogKey (of_nat (le_get (bslice 14 22 buf)))
           in case ApplyAES128CTR vlogKey stream 22 (bslice 22 64 buf) of
                Inl e \<Rightarrow> Inl e
              | Inr dec \<Rightarrow>
                  (let logical = chunkHeaderMagic @ [ChunkHeaderVersion, dec ! 0] @ [0, 0]
                         @ bslice 2 10 dec @ bslice 14 22 buf @ bslice 6 10 buf
                         @ bslice 10 14 buf @ bslice 10 42 dec
                   in if unat (crc32c (clear_crc logical)) \<noteq> le_get (bslice 10 14 buf)
                      then Inl (Err ''chunk header crc mismatch'')
                      else decodeLogicalChunkHeader logical))"

section \<open>Derivation lemmas\<close>

lemma hmac_key_short: "length key \<le> 64 \<Longrightarrow> hmac_key key = copy_at (replicate 64 0) 0 key"
  by (simp add: hmac_key_def copy_at_def)

lemma length_hmacSHA256 [simp]: "length (hmacSHA256 key a b) = 32"
  by (simp add: hmacSHA256_def Let_def)

lemma hmacSHA256_eq:
  "length key \<le> 64 \<Longrightarrow> length a + length b \<le> 64 \<Longrightarrow> hmacSHA256 key a b = hmac_sha256 key (a @ b)"
  by (simp add: hmacSHA256_def hmac_sha256_def hmac_key_short Let_def)

lemma be_get_addCounter:
  assumes "length c = 16"
  shows "be_get (addCounter c n) = (be_get c + unat n) mod 2 ^ 128"
proof -
  let ?L = "be_get (bslice 8 16 c)" and ?H = "be_get (bslice 0 8 c)"
  have L: "?L < 2 ^ 64" and H: "?H < 2 ^ 64"
    using be_get_bound [of "bslice 8 16 c"] be_get_bound [of "bslice 0 8 c"] assms by simp_all
  have c: "be_get c = ?H * 2 ^ 64 + ?L"
    using be_get_append [of "bslice 0 8 c" "bslice 8 16 c"] assms
    by (simp add: bslice_append_adjacent)
  define lo where "lo = (of_nat ?L :: uint64)"
  define hi where "hi = (of_nat ?H :: uint64)"
  have ul: "unat lo = ?L" and uh: "unat hi = ?H"
    using L H by (simp_all add: lo_def hi_def unat_of_nat take_bit_nat_eq_self_iff)
  have un: "unat n < 2 ^ 64" using unsigned_less [of n] by simp
  have carry: "lo + n < lo \<longleftrightarrow> 2 ^ 64 \<le> ?L + unat n"
    using ul un L by (auto simp: word_less_nat_alt unat_word_ariths mod_add_once)
  have sum: "unat (lo + n) = (?L + unat n) mod 2 ^ 64"
    by (simp add: unat_word_ariths ul)
  have "be_get (addCounter c n) = unat (if lo + n < lo then hi + 1 else hi) * 2 ^ 64 + unat (lo + n)"
  proof -
    show ?thesis
      by (simp add: addCounter_def Let_def be_get_append lo_def hi_def)
  qed
  also have "\<dots> = (be_get c + unat n) mod 2 ^ 128"
  proof (cases "2 ^ 64 \<le> ?L + unat n")
    case False
    then show ?thesis using carry sum uh c H by simp
  next
    case True
    have "(?L + unat n) mod 2 ^ 64 = ?L + unat n - 2 ^ 64"
      using True L un by (simp add: mod_if)
    then have m: "unat (lo + n) = ?L + unat n - 2 ^ 64" using sum by simp
    show ?thesis
    proof (cases "?H + 1 = 2 ^ 64")
      case True
      then have "unat (hi + 1) = 0" using uh by (simp add: unat_word_ariths)
      moreover have "be_get c + unat n = 2 ^ 128 + (?L + unat n - 2 ^ 64)"
        using c True \<open>2 ^ 64 \<le> ?L + unat n\<close> by simp
      moreover from this have "(be_get c + unat n) mod 2 ^ 128 = ?L + unat n - 2 ^ 64"
        using L un by (simp only: mod_add_self1) simp
      ultimately show ?thesis using \<open>2 ^ 64 \<le> ?L + unat n\<close> carry m by (simp only: if_True)
    next
      case False
      then have "unat (hi + 1) = ?H + 1" using uh H by (simp add: unat_word_ariths)
      then show ?thesis using False \<open>2 ^ 64 \<le> ?L + unat n\<close> carry m c L H un by simp
    qed
  qed
  finally show ?thesis .
qed

lemma ctr_keystream_skip:
  assumes "length iv = 16" "q < 2 ^ 64"
  shows "ctr_keystream key (addCounter iv (of_nat q)) i = ctr_keystream key iv (16 * q + i)"
proof -
  have "be_put 16 (be_get (addCounter iv (of_nat q)) + i div 16) = be_put 16 (be_get iv + (16 * q + i) div 16)"
  proof -
    have "unat (of_nat q :: uint64) = q" using assms(2) by (simp add: unat_of_nat take_bit_nat_eq_self_iff)
    then have "be_get (addCounter iv (of_nat q)) = (be_get iv + q) mod 256 ^ 16"
      using be_get_addCounter [OF assms(1), of "of_nat q"] by simp
    then have "(be_get (addCounter iv (of_nat q)) + i div 16) mod 256 ^ 16
        = (be_get iv + (16 * q + i) div 16) mod 256 ^ 16"
      by (simp only: mod_add_left_eq) (simp add: add.assoc)
    then show ?thesis by (metis be_put_mod)
  qed
  then show ?thesis by (simp add: ctr_keystream_def)
qed

lemma ApplyAES128CTR_eq:
  assumes "length stream = 16" "0 \<le> off" "off < 2 ^ 63"
  shows "ApplyAES128CTR key stream off buf = Inr (XORKeyStream key stream (nat off) buf)"
proof -
  define q where "q = nat (off div 16)"
  define r where "r = nat (off mod 16)"
  have off: "nat off = 16 * q + r" using assms(2) by (simp add: q_def r_def nat_mod_distrib nat_div_distrib)
  have q: "q < 2 ^ 64" using assms(2,3) by (simp add: q_def)
  have w: "(of_int (off div 16) :: uint64) = of_nat q" using assms(2) by (simp add: q_def of_nat_nat)
  have "XORKeyStream key (addCounter stream (of_nat q)) r buf = XORKeyStream key stream (16 * q + r) buf"
    by (simp add: XORKeyStream_def ctr_keystream_skip [OF assms(1) q] add.assoc)
  then show ?thesis
    using assms(2) by (cases buf) (auto simp: ApplyAES128CTR_def Let_def w off XORKeyStream_def simp flip: r_def)
qed

section \<open>Header lemmas\<close>

definition header_wf :: "ChunkHeader \<Rightarrow> bool" where
  "header_wf h \<longleftrightarrow> known_flags (Flags h) \<and> length (PathHint h) = 32"

text \<open>What of a header the 64 bytes can carry: bytes 32 to 47 serve one of two purposes.\<close>

definition stored_part :: "ChunkHeader \<Rightarrow> ChunkHeader" where
  "stored_part h =
     (if is_initial (Flags h) then h\<lparr>FileOffset := 0, PrevHash := 0\<rparr>
      else h\<lparr>PathHint := take 16 (PathHint h) @ replicate 16 0\<rparr>)"

lemma length_magic [simp]: "length chunkHeaderMagic = 4"
  by (simp add: chunkHeaderMagic_def)

lemma length_header_tail [simp]: "length (PathHint h) = 32 \<Longrightarrow> length (header_tail h) = 32"
  by (simp add: header_tail_def)

lemma length_header_layout [simp]:
  "length (PathHint h) = 32 \<Longrightarrow> length crc = 4 \<Longrightarrow> length (header_layout h crc) = 64"
  by (simp add: header_layout_def)

lemma header_layout_fields:
  assumes "length (PathHint h) = 32" "length crc = 4"
  shows "take 4 (header_layout h crc) = chunkHeaderMagic"
    "header_layout h crc ! 4 = ChunkHeaderVersion"
    "header_layout h crc ! 5 = Flags h"
    "bslice 6 8 (header_layout h crc) = [0, 0]"
    "bslice 8 16 (header_layout h crc) = le_put 8 (unat (FileID h))"
    "bslice 16 24 (header_layout h crc) = le_put 8 (unat (ChunkHash h))"
    "bslice 24 28 (header_layout h crc) = le_put 4 (unat (PayloadLen h))"
    "bslice 28 32 (header_layout h crc) = crc"
    "bslice 32 64 (header_layout h crc) = header_tail h"
    "clear_crc (header_layout h crc) = header_layout h (replicate 4 0)"
  using assms
  by (simp_all add: header_layout_def bslice_append_right bslice_Cons bslice_0 nth_append clear_crc_def)

lemma header_tail_fields:
  assumes "length (PathHint h) = 32" "length crc = 4" "\<not> is_initial (Flags h)"
  shows "bslice 32 40 (header_layout h crc) = le_put 8 (unat (FileOffset h))"
    "bslice 40 48 (header_layout h crc) = le_put 8 (unat (PrevHash h))"
    "bslice 48 64 (header_layout h crc) = take 16 (PathHint h)"
  using assms
  by (simp_all add: header_layout_def header_tail_def bslice_append_right bslice_Cons)

lemma decodeLogical_layout:
  assumes "header_wf h" "length crc = 4"
  shows "decodeLogicalChunkHeader (header_layout h crc) = Inr (stored_part h)"
proof -
  have l: "length (PathHint h) = 32" and k: "known_flags (Flags h)"
    using assms(1) by (simp_all add: header_wf_def)
  note f = header_layout_fields [OF l assms(2)]
  show ?thesis
  proof (cases "is_initial (Flags h)")
    case True
    then show ?thesis
      by (simp add: decodeLogicalChunkHeader_def Let_def f k stored_part_def header_tail_def)
  next
    case False
    then show ?thesis
      by (simp add: decodeLogicalChunkHeader_def Let_def f k stored_part_def
            header_tail_fields [OF l assms(2) False])
  qed
qed

lemma DecodeChunkHeader_alt:
  "DecodeChunkHeader buf =
     (if length buf \<noteq> ChunkHeaderSize then Inl (Err ''chunk header length'')
      else if take 4 buf \<noteq> chunkHeaderMagic then Inl (Err ''chunk header missing magic'')
      else if buf ! 4 \<noteq> ChunkHeaderVersion then Inl (Err ''chunk header version unsupported'')
      else if \<not> known_flags (buf ! 5) then Inl (Err ''chunk header has unknown flags'')
      else if le_get (bslice 6 8 buf) \<noteq> 0 then Inl (Err ''chunk header reserved bytes are non-zero'')
      else if unat (crc32c (clear_crc buf)) \<noteq> le_get (bslice 28 32 buf)
           then Inl (Err ''chunk header crc mismatch'')
      else decodeLogicalChunkHeader buf)"
  by (simp add: DecodeChunkHeader_def decodeLogicalChunkHeader_def)

lemma two_bytes: "length buf \<ge> n + 2 \<Longrightarrow> [buf ! n, buf ! Suc n] = bslice n (n + 2) buf"
  by (intro nth_equalityI) (auto simp: nth_bslice less_Suc_eq)

lemma decodeLogical_inverse:
  assumes d: "decodeLogicalChunkHeader buf = Inr h" and l: "length buf = 64"
    and m: "take 4 buf = chunkHeaderMagic" "buf ! 4 = ChunkHeaderVersion" "bslice 6 8 buf = [0, 0]"
  shows "header_wf h \<and> header_layout h (bslice 28 32 buf) = buf"
proof -
  have tail: "header_tail h = bslice 32 64 buf"
    using d l by (auto simp: decodeLogicalChunkHeader_def Let_def header_tail_def bslice_append_adjacent split: if_splits)
  have fields: "Flags h = buf ! 5" "le_put 8 (unat (FileID h)) = bslice 8 16 buf"
    "le_put 8 (unat (ChunkHash h)) = bslice 16 24 buf" "le_put 4 (unat (PayloadLen h)) = bslice 24 28 buf"
    using d l by (auto simp: decodeLogicalChunkHeader_def Let_def split: if_splits)
  have "header_layout h (bslice 28 32 buf)
      = bslice 0 4 buf @ bslice 4 6 buf @ bslice 6 8 buf @ bslice 8 16 buf @ bslice 16 24 buf
        @ bslice 24 28 buf @ bslice 28 32 buf @ bslice 32 64 buf"
    using two_bytes [of 4 buf] l m by (simp add: header_layout_def fields tail bslice_0)
  also have "\<dots> = buf" using l by (simp add: bslice_append_adjacent)
  finally show ?thesis
    using d l by (auto simp: decodeLogicalChunkHeader_def header_wf_def Let_def split: if_splits)
qed

lemma DeriveChunkStream_length: "length (DeriveChunkStreamHash64 k w) = 16"
  by (simp add: DeriveChunkStreamHash64_def)

lemma EncodeEncrypted_eq:
  assumes "header_wf h" "8 \<le> length chunkHash"
  shows "EncodeEncrypted h vlogKey chunkHash = Inr
     (chunkHeaderMagic @ [ChunkHeaderVersion, 0] @ le_put 4 (unat (PayloadLen h))
      @ le_put 4 (unat (crc32c (header_layout h (replicate 4 0)))) @ le_put 8 (unat (ChunkHash h))
      @ XORKeyStream vlogKey (DeriveChunkStreamHash64 vlogKey (of_nat (le_get (take 8 chunkHash)))) 22
          ([Flags h, 0] @ le_put 8 (unat (FileID h)) @ header_tail h))"
proof -
  have l: "length (PathHint h) = 32" using assms(1) by (simp add: header_wf_def)
  show ?thesis
    using assms(2) header_layout_fields [OF l, of "le_put 4 _"]
    by (simp add: EncodeEncrypted_def Let_def Encode_def DeriveChunkStream_def
          ApplyAES128CTR_eq [OF DeriveChunkStream_length])
qed

lemma DecodeEncrypted_layout:
  assumes "header_wf h"
    and "ks = DeriveChunkStreamHash64 vlogKey (ChunkHash h)"
    and "buf = chunkHeaderMagic @ [ChunkHeaderVersion, 0] @ le_put 4 (unat (PayloadLen h))
      @ le_put 4 (unat (crc32c (header_layout h (replicate 4 0)))) @ le_put 8 (unat (ChunkHash h))
      @ XORKeyStream vlogKey ks 22 ([Flags h, 0] @ le_put 8 (unat (FileID h)) @ header_tail h)"
  shows "DecodeEncryptedChunkHeader buf vlogKey chunkHash = Inr (stored_part h)"
proof -
  have l: "length (PathHint h) = 32" using assms(1) by (simp add: header_wf_def)
  let ?crc = "le_put 4 (unat (crc32c (header_layout h (replicate 4 0))))"
  have f: "length buf = 64" "take 4 buf = chunkHeaderMagic" "buf ! 4 = ChunkHeaderVersion" "buf ! 5 = 0"
    "bslice 6 10 buf = le_put 4 (unat (PayloadLen h))" "bslice 10 14 buf = ?crc"
    "bslice 14 22 buf = le_put 8 (unat (ChunkHash h))"
    "bslice 22 64 buf = XORKeyStream vlogKey ks 22 ([Flags h, 0] @ le_put 8 (unat (FileID h)) @ header_tail h)"
    using l by (simp_all add: assms(3) bslice_append_right bslice_Cons nth_append)
  let ?dec = "[Flags h, 0] @ le_put 8 (unat (FileID h)) @ header_tail h"
  have "of_nat (le_get (bslice 14 22 buf)) = ChunkHash h" by (simp add: f)
  then have d: "ApplyAES128CTR vlogKey (DeriveChunkStreamHash64 vlogKey (of_nat (le_get (bslice 14 22 buf)))) 22
      (bslice 22 64 buf) = Inr ?dec"
    by (simp add: assms(2) f(8) ApplyAES128CTR_eq [OF DeriveChunkStream_length])
  have lay: "chunkHeaderMagic @ [ChunkHeaderVersion, ?dec ! 0] @ [0, 0]
         @ bslice 2 10 ?dec @ bslice 14 22 buf @ bslice 6 10 buf @ bslice 10 14 buf @ bslice 10 42 ?dec
      = header_layout h ?crc"
    using l by (simp add: header_layout_def f bslice_append_right bslice_Cons)
  have "DecodeEncryptedChunkHeader buf vlogKey chunkHash
      = (if unat (crc32c (clear_crc (header_layout h ?crc))) \<noteq> le_get (bslice 10 14 buf)
         then Inl (Err ''chunk header crc mismatch'')
         else decodeLogicalChunkHeader (header_layout h ?crc))"
    unfolding DecodeEncryptedChunkHeader_def Let_def d sum.case lay by (simp add: f(1-4) ChunkHeaderSize_def)
  then show ?thesis using decodeLogical_layout [OF assms(1)] l by (simp add: f header_layout_fields)
qed

section \<open>Properties\<close>

text \<open>
  C15. The hand-written \<^verbatim>\<open>hmacSHA256\<close> agrees with the HMAC of the standard library
  where the code uses it: the vlog key is the truncated HMAC of label and vlog UID under the
  cluster key, the chunk stream the truncated HMAC of label and 64-bit hash under the vlog
  key, so neither the 64-byte pads nor the 128-byte buffer ever truncates.
\<close>

theorem derivation_is_HMAC:
  assumes "length clusterKey = Size" "length vlogUID = Size"
  shows "DeriveVlogKey clusterKey vlogUID = take 16 (hmac_sha256 clusterKey (vlogKeyLabel @ vlogUID))
    \<and> length (DeriveVlogKey clusterKey vlogUID) = 16
    \<and> DeriveChunkStreamHash64 (DeriveVlogKey clusterKey vlogUID) h64
        = take 16 (hmac_sha256 (DeriveVlogKey clusterKey vlogUID) (chunkStreamLabel @ le_put 8 (unat h64)))"
proof -
  have "length (DeriveVlogKey clusterKey vlogUID) = 16" by (simp add: DeriveVlogKey_def)
  then show ?thesis
    using assms by (simp add: DeriveVlogKey_def DeriveChunkStreamHash64_def hmacSHA256_eq Size_def
        vlogKeyLabel_def chunkStreamLabel_def)
qed

theorem derivation_is_HMAC_witness:
  "DeriveVlogKey (replicate 15 1) (replicate 15 2)
     = take 16 (hmac_sha256 (replicate 15 1) (vlogKeyLabel @ replicate 15 2))"
  using derivation_is_HMAC [of "replicate 15 1" "replicate 15 2"] by (simp add: Size_def)

text \<open>
  C16. Random access into an encrypted record: transforming only the bytes from an offset on
  gives exactly that part of the transformed record, with the counter advanced by whole
  blocks (carry into the high half included) and the partial block discarded; and
  transforming twice is the identity, so decryption of any range is the plaintext range.
\<close>

theorem ApplyAES128CTR_range:
  assumes "length stream = 16" "off + n \<le> length rec" "length rec < 2 ^ 63"
  shows "\<exists>enc. ApplyAES128CTR key stream 0 rec = Inr enc
    \<and> ApplyAES128CTR key stream (int off) (bslice off (off + n) rec) = Inr (bslice off (off + n) enc)
    \<and> ApplyAES128CTR key stream (int off) (bslice off (off + n) enc) = Inr (bslice off (off + n) rec)"
proof -
  let ?e = "XORKeyStream key stream 0 rec"
  have e: "ApplyAES128CTR key stream 0 rec = Inr ?e"
    using ApplyAES128CTR_eq [OF assms(1), of 0] by simp
  have o: "int off < 2 ^ 63" using assms(2,3) by auto
  have s: "XORKeyStream key stream off (bslice off (off + n) rec) = bslice off (off + n) ?e"
    using assms(2) by (intro nth_equalityI) (simp_all add: XORKeyStream_def nth_bslice)
  then have "XORKeyStream key stream off (bslice off (off + n) ?e) = bslice off (off + n) rec"
    by (metis XORKeyStream_involution)
  with s show ?thesis using e ApplyAES128CTR_eq [OF assms(1) _ o] by auto
qed

theorem ApplyAES128CTR_range_witness:
  "\<exists>enc. ApplyAES128CTR (replicate 16 7) (replicate 16 255) 0 (replicate 100 65) = Inr enc
    \<and> ApplyAES128CTR (replicate 16 7) (replicate 16 255) (int 20) (bslice 20 (20 + 50) (replicate 100 65))
        = Inr (bslice 20 (20 + 50) enc)
    \<and> ApplyAES128CTR (replicate 16 7) (replicate 16 255) (int 20) (bslice 20 (20 + 50) enc)
        = Inr (bslice 20 (20 + 50) (replicate 100 65))"
  by (rule ApplyAES128CTR_range) simp_all

text \<open>
  C17. Decoding an encoded header gives back every field the format stores, for every
  header with known flags.
\<close>

theorem DecodeChunkHeader_Encode:
  assumes "header_wf h"
  shows "DecodeChunkHeader (Encode h) = Inr (stored_part h)"
proof -
  have l: "length (PathHint h) = 32" and k: "known_flags (Flags h)"
    using assms by (simp_all add: header_wf_def)
  show ?thesis
    using decodeLogical_layout [OF assms] k
    by (simp add: DecodeChunkHeader_alt Encode_def ChunkHeaderSize_def header_layout_fields l)
qed

definition sample_header :: ChunkHeader where
  "sample_header = \<lparr>Flags = 2, FileID = 9, ChunkHash = 77, PayloadLen = 4096, FileOffset = 8192,
     PrevHash = 5, PathHint = replicate 32 3\<rparr>"

lemma sample_header_wf: "header_wf sample_header"
  by (simp add: header_wf_def sample_header_def known_flags_def ChunkFlagInitial_def ChunkFlagLast_def)

theorem DecodeChunkHeader_Encode_witness:
  "header_wf sample_header \<and> DecodeChunkHeader (Encode sample_header) = Inr (stored_part sample_header)"
  using sample_header_wf DecodeChunkHeader_Encode [OF sample_header_wf] by blast

text \<open>
  C18. The header format is canonical: whatever the decoder accepts is byte for byte the
  encoding of what it returns, so no two accepted 64-byte strings decode to the same header.
\<close>

theorem Encode_DecodeChunkHeader:
  assumes "DecodeChunkHeader buf = Inr h"
  shows "header_wf h \<and> Encode h = buf"
proof -
  have c: "length buf = 64" "take 4 buf = chunkHeaderMagic" "buf ! 4 = ChunkHeaderVersion"
    "le_get (bslice 6 8 buf) = 0" "unat (crc32c (clear_crc buf)) = le_get (bslice 28 32 buf)"
    "decodeLogicalChunkHeader buf = Inr h"
    using assms by (auto simp: DecodeChunkHeader_alt ChunkHeaderSize_def split: if_splits)
  have z: "bslice 6 8 buf = [0, 0]"
    using le_put_get [of 2 "bslice 6 8 buf"] c(1,4) by (simp add: numeral_2_eq_2)
  note inv = decodeLogical_inverse [OF c(6) c(1-3) z]
  then have l: "length (PathHint h) = 32" by (simp add: header_wf_def)
  have "clear_crc buf = header_layout h (replicate 4 0)"
    using header_layout_fields(10) [OF l, of "bslice 28 32 buf"] inv c(1) by simp
  then have "le_put 4 (unat (crc32c (header_layout h (replicate 4 0)))) = bslice 28 32 buf"
    using c(1,5) le_put_get [of 4 "bslice 28 32 buf"] by simp
  then show ?thesis using inv by (simp add: Encode_def)
qed

theorem Encode_DecodeChunkHeader_witness:
  "DecodeChunkHeader (Encode sample_header) = Inr (stored_part sample_header)
     \<and> Encode (stored_part sample_header) = Encode sample_header"
proof -
  have d: "DecodeChunkHeader (Encode sample_header) = Inr (stored_part sample_header)"
    using decodeLogical_layout [OF sample_header_wf] sample_header_wf
    by (simp add: DecodeChunkHeader_alt Encode_def ChunkHeaderSize_def header_layout_fields header_wf_def)
  show ?thesis using d Encode_DecodeChunkHeader [OF d] by blast
qed

text \<open>
  C19. The encrypted header round trip: with the 64-bit hash field equal to the first eight
  bytes of the content hash, as the writer sets it, the decoder recovers every stored field
  from the clear hash and the vlog key alone, whatever content hash its caller passes.
\<close>

theorem DecodeEncrypted_EncodeEncrypted:
  assumes "header_wf h" "8 \<le> length chunkHash" "ChunkHash h = of_nat (le_get (take 8 chunkHash))"
  shows "\<exists>buf. EncodeEncrypted h vlogKey chunkHash = Inr buf \<and> length buf = ChunkHeaderSize
    \<and> (\<forall>other. DecodeEncryptedChunkHeader buf vlogKey other = Inr (stored_part h))"
  using assms EncodeEncrypted_eq [OF assms(1,2)] DecodeEncrypted_layout [OF assms(1) refl refl]
  by (auto simp: ChunkHeaderSize_def header_wf_def)

theorem DecodeEncrypted_EncodeEncrypted_witness:
  "\<exists>buf. EncodeEncrypted sample_header (replicate 16 1) [77, 0, 0, 0, 0, 0, 0, 0] = Inr buf
     \<and> length buf = ChunkHeaderSize
     \<and> (\<forall>other. DecodeEncryptedChunkHeader buf (replicate 16 1) other = Inr (stored_part sample_header))"
  by (rule DecodeEncrypted_EncodeEncrypted) (simp_all add: sample_header_wf, simp add: sample_header_def)

end
