(* ===== verification/Rose_Durability.thy ===== *)
theory Rose_Durability
  imports Rose_Prelude
begin

text \<open>
  The durability coordinator of \<^verbatim>\<open>src/durability/coordinator.go\<close>: the one-way protocol that makes
  staged bytes durable before a namespace entry may refer to them. The adapters
  (\<^verbatim>\<open>Publication\<close>) and the crash hook are arguments with their own state, so every theorem is
  about all adapters and all hooks.
\<close>

section \<open>The code\<close>

text \<open>
  The adapter interface \<^verbatim>\<open>Publication\<close> over an adapter state \<open>'s\<close>: a Go method
  returning \<^verbatim>\<open>(value, error)\<close> returns the new adapter state, the value and the error.
\<close>

record 's Publication =
  Admit :: "'s \<Rightarrow> 's \<times> uint32 list \<times> err option"
  Sync :: "uint32 \<Rightarrow> 's \<Rightarrow> 's \<times> int \<times> err option"
  RecordPrefix :: "uint32 \<Rightarrow> int \<Rightarrow> 's \<Rightarrow> 's \<times> err option"
  Verify :: "'s \<Rightarrow> 's \<times> err option"
  Publish :: "'s \<Rightarrow> 's \<times> err option"

datatype Point = ShardsSynced | PrefixRecorded | PlacementsVerified | NamespacePublished

datatype phase = admit | syncPrefix | recordPrefix | verify | publish | finished

record Transaction =
  phase :: phase
  vlogs :: "uint32 list"
  index :: nat
  prefix :: int
  terr :: "err option"

definition new_Transaction :: Transaction where
  "new_Transaction = \<lparr>phase = admit, vlogs = [], index = 0, prefix = 0, terr = None\<rparr>"

record 's Coordinator =
  Pub :: "'s Publication"
  Hook :: "(Point \<Rightarrow> 's \<Rightarrow> 's \<times> err option) option"

definition Done :: "Transaction \<Rightarrow> bool" where
  "Done t \<longleftrightarrow> phase t = finished"

text \<open>
  One effect of the protocol: the switch over the phase, giving the new adapter state, the
  transaction and the point reached (\<open>None\<close> for the empty point).
\<close>

definition step_effect :: "'s Publication \<Rightarrow> Transaction \<Rightarrow> 's \<Rightarrow> 's \<times> Transaction \<times> Point option" where
  "step_effect p t s =
     (case phase t of
        admit \<Rightarrow>
          (case Admit p s of (s, ids, e) \<Rightarrow>
             let t = t\<lparr>terr := e\<rparr>
             in if e = None
                then (s, t\<lparr>vlogs := ids, phase := (if length ids = 0 then verify else syncPrefix)\<rparr>, None)
                else (s, t, None))
      | syncPrefix \<Rightarrow>
          (case Sync p (vlogs t ! index t) s of (s, pr, e) \<Rightarrow>
             let t = t\<lparr>prefix := pr, terr := e\<rparr>
             in if e = None then (s, t\<lparr>phase := recordPrefix\<rparr>, Some ShardsSynced) else (s, t, None))
      | recordPrefix \<Rightarrow>
          (case RecordPrefix p (vlogs t ! index t) (prefix t) s of (s, e) \<Rightarrow>
             let t = t\<lparr>terr := e\<rparr>
             in if e = None
                then let t = t\<lparr>index := index t + 1\<rparr>
                     in (s, t\<lparr>phase := (if index t = length (vlogs t) then verify else syncPrefix)\<rparr>,
                         Some PrefixRecorded)
                else (s, t, None))
      | verify \<Rightarrow>
          (case Verify p s of (s, e) \<Rightarrow>
             let t = t\<lparr>terr := e\<rparr>
             in if e = None then (s, t\<lparr>phase := publish\<rparr>, Some PlacementsVerified) else (s, t, None))
      | publish \<Rightarrow>
          (case Publish p s of (s, e) \<Rightarrow>
             let t = t\<lparr>terr := e\<rparr>
             in if e = None then (s, t\<lparr>phase := finished\<rparr>, Some NamespacePublished) else (s, t, None))
      | finished \<Rightarrow> (s, t, None))"

definition Coordinator_Step :: "'s Coordinator \<Rightarrow> Transaction \<Rightarrow> 's \<Rightarrow> 's \<times> Transaction \<times> err option" where
  "Coordinator_Step c t s =
     (if terr t \<noteq> None then (s, t, terr t)
      else if Done t then (s, t, None)
      else case step_effect (Pub c) t s of (s, t, point) \<Rightarrow>
        (case (terr t, point, Hook c) of
           (None, Some pt, Some hook) \<Rightarrow>
             (case hook pt s of (s, e) \<Rightarrow> (s, t\<lparr>terr := e\<rparr>, e))
         | _ \<Rightarrow> (s, t, terr t)))"

text \<open>The loop of \<^verbatim>\<open>Commit\<close>; not returning is the value \<open>None\<close>.\<close>

partial_function (option) commit_loop ::
  "'s Coordinator \<Rightarrow> Transaction \<Rightarrow> 's \<Rightarrow> ('s \<times> err option) option" where
  "commit_loop c t s =
     (if Done t then Some (s, None)
      else case Coordinator_Step c t s of (s', t', e) \<Rightarrow>
        (if e \<noteq> None then Some (s', e) else commit_loop c t' s'))"

definition Coordinator_Commit :: "'s Coordinator \<Rightarrow> 's \<Rightarrow> ('s \<times> err option) option" where
  "Coordinator_Commit c s = commit_loop c new_Transaction s"

section \<open>The protocol as a straight-line program\<close>

text \<open>
  The specification the stepper refines: admit, then for every admitted vlog in order sync
  it and record exactly the prefix the sync returned, then verify, then publish, stopping at
  the first error.
\<close>

definition at_point :: "'s Coordinator \<Rightarrow> Point \<Rightarrow> 's \<Rightarrow> 's \<times> err option" where
  "at_point c pt s = (case Hook c of None \<Rightarrow> (s, None) | Some hook \<Rightarrow> hook pt s)"

fun sync_vlogs :: "'s Coordinator \<Rightarrow> uint32 list \<Rightarrow> 's \<Rightarrow> 's \<times> err option" where
  "sync_vlogs c [] s = (s, None)"
| "sync_vlogs c (v # vs) s =
     (case Sync (Pub c) v s of
        (s, pr, Some e) \<Rightarrow> (s, Some e)
      | (s, pr, None) \<Rightarrow>
          (case at_point c ShardsSynced s of
             (s, Some e) \<Rightarrow> (s, Some e)
           | (s, None) \<Rightarrow>
               (case RecordPrefix (Pub c) v pr s of
                  (s, Some e) \<Rightarrow> (s, Some e)
                | (s, None) \<Rightarrow>
                    (case at_point c PrefixRecorded s of
                       (s, Some e) \<Rightarrow> (s, Some e)
                     | (s, None) \<Rightarrow> sync_vlogs c vs s))))"

definition verify_publish :: "'s Coordinator \<Rightarrow> 's \<Rightarrow> 's \<times> err option" where
  "verify_publish c s =
     (case Verify (Pub c) s of
        (s, Some e) \<Rightarrow> (s, Some e)
      | (s, None) \<Rightarrow>
          (case at_point c PlacementsVerified s of
             (s, Some e) \<Rightarrow> (s, Some e)
           | (s, None) \<Rightarrow>
               (case Publish (Pub c) s of
                  (s, Some e) \<Rightarrow> (s, Some e)
                | (s, None) \<Rightarrow> at_point c NamespacePublished s)))"

definition commit_spec :: "'s Coordinator \<Rightarrow> 's \<Rightarrow> 's \<times> err option" where
  "commit_spec c s =
     (case Admit (Pub c) s of
        (s, ids, Some e) \<Rightarrow> (s, Some e)
      | (s, ids, None) \<Rightarrow>
          (case sync_vlogs c ids s of
             (s, Some e) \<Rightarrow> (s, Some e)
           | (s, None) \<Rightarrow> verify_publish c s))"

lemmas step_defs = Coordinator_Step_def step_effect_def Done_def at_point_def

lemma commit_loop_done: "phase t = finished \<Longrightarrow> commit_loop c t s = Some (s, None)"
  by (simp add: commit_loop.simps Done_def)

lemma commit_loop_verify:
  assumes "phase t = verify" "terr t = None"
  shows "commit_loop c t s = Some (verify_publish c s)"
proof -
  have pub: "commit_loop c u s =
      Some (case Publish (Pub c) s of (s, Some e) \<Rightarrow> (s, Some e) | (s, None) \<Rightarrow> at_point c NamespacePublished s)"
    if "phase u = publish" "terr u = None" for u s
    using that
    by (subst commit_loop.simps)
       (auto simp: step_defs commit_loop_done Let_def split: prod.splits option.splits)
  show ?thesis
    using assms
    by (subst commit_loop.simps)
       (auto simp: step_defs verify_publish_def pub Let_def split: prod.splits option.splits)
qed


lemma commit_loop_sync:
  assumes "phase t = syncPrefix" "terr t = None" "drop (index t) (vlogs t) = v # vs"
  shows "commit_loop c t s =
     Some (case sync_vlogs c (v # vs) s of
             (s, Some e) \<Rightarrow> (s, Some e)
           | (s, None) \<Rightarrow> verify_publish c s)"
  using assms
proof (induction vs arbitrary: t v s)
  case Nil
  then have v: "vlogs t ! index t = v" "Suc (index t) = length (vlogs t)"
    by (auto simp: nth_via_drop dest: arg_cong [where f = length])
  have rec: "commit_loop c u s' =
      Some (case RecordPrefix (Pub c) v (prefix u) s' of (s, Some e) \<Rightarrow> (s, Some e)
        | (s, None) \<Rightarrow> (case at_point c PrefixRecorded s of (s, Some e) \<Rightarrow> (s, Some e)
        | (s, None) \<Rightarrow> verify_publish c s))"
    if "phase u = recordPrefix" "terr u = None" "vlogs u = vlogs t" "index u = index t" for u s'
    using that v
    by (subst commit_loop.simps)
       (auto simp: step_defs commit_loop_verify Let_def split: prod.splits option.splits)
  show ?case
    using Nil v
    by (subst commit_loop.simps)
       (auto simp: step_defs rec Let_def split: prod.splits option.splits)
next
  case (Cons w ws)
  then have d: "drop (Suc (index t)) (vlogs t) = w # ws"
    by (metis drop_Suc tl_drop list.sel(3))
  with Cons.prems have v: "vlogs t ! index t = v" "Suc (index t) \<noteq> length (vlogs t)"
    by (auto simp: nth_via_drop)
  have rec: "commit_loop c u s' =
      Some (case RecordPrefix (Pub c) v (prefix u) s' of (s, Some e) \<Rightarrow> (s, Some e)
        | (s, None) \<Rightarrow> (case at_point c PrefixRecorded s of (s, Some e) \<Rightarrow> (s, Some e)
        | (s, None) \<Rightarrow> (case sync_vlogs c (w # ws) s of (s, Some e) \<Rightarrow> (s, Some e)
        | (s, None) \<Rightarrow> verify_publish c s)))"
    if "phase u = recordPrefix" "terr u = None" "vlogs u = vlogs t" "index u = index t" for u s'
    using that v d
    by (subst commit_loop.simps)
       (auto simp: step_defs Cons.IH [where v = w] Let_def simp del: sync_vlogs.simps split: prod.splits option.splits)
  show ?case
    using Cons.prems v
    by (subst commit_loop.simps, subst sync_vlogs.simps)
       (auto simp: step_defs rec Let_def simp del: sync_vlogs.simps split: prod.splits option.splits)
qed

lemma Commit_eq_spec: "Coordinator_Commit c s = Some (commit_spec c s)"
proof -
  have "commit_loop c u s' = Some (case sync_vlogs c ids s' of
       (s, Some e) \<Rightarrow> (s, Some e) | (s, None) \<Rightarrow> verify_publish c s)"
    if "phase u = (if ids = [] then verify else syncPrefix)" "terr u = None" "vlogs u = ids" "index u = 0"
    for u ids s'
    using that by (cases ids) (simp_all add: commit_loop_verify commit_loop_sync del: sync_vlogs.simps(2))
  then show ?thesis
    unfolding Coordinator_Commit_def
    by (subst commit_loop.simps)
       (auto simp: step_defs new_Transaction_def commit_spec_def Let_def split: prod.splits option.splits)
qed

section \<open>Call traces\<close>

text \<open>
  A publication adapter observed from outside: \<open>traced\<close> wraps any adapter and logs every call of
  the syncing, recording, verifying and publishing effects with its arguments, the prefix a sync
  returned, and the error the call ended with (\<open>None\<close> for success).
\<close>

datatype call =
  CSync uint32 int "err option"
| CRecord uint32 int "err option"
| CVerify "err option"
| CPublish "err option"

definition traced :: "'s Publication \<Rightarrow> ('s \<times> call list) Publication" where
  "traced p =
     \<lparr>Admit = (\<lambda>(s, tr). case Admit p s of (s, ids, e) \<Rightarrow> ((s, tr), ids, e)),
      Sync = (\<lambda>v (s, tr). case Sync p v s of (s, pr, e) \<Rightarrow> ((s, tr @ [CSync v pr e]), pr, e)),
      RecordPrefix = (\<lambda>v pr (s, tr). case RecordPrefix p v pr s of (s, e) \<Rightarrow> ((s, tr @ [CRecord v pr e]), e)),
      Verify = (\<lambda>(s, tr). case Verify p s of (s, e) \<Rightarrow> ((s, tr @ [CVerify e]), e)),
      Publish = (\<lambda>(s, tr). case Publish p s of (s, e) \<Rightarrow> ((s, tr @ [CPublish e]), e))\<rparr>"

definition traced_hook :: "(Point \<Rightarrow> 's \<Rightarrow> 's \<times> err option) option \<Rightarrow>
    (Point \<Rightarrow> 's \<times> call list \<Rightarrow> ('s \<times> call list) \<times> err option) option" where
  "traced_hook h = map_option (\<lambda>h pt (s, tr). case h pt s of (s, e) \<Rightarrow> ((s, tr), e)) h"

definition traced_coordinator :: "'s Coordinator \<Rightarrow> ('s \<times> call list) Coordinator" where
  "traced_coordinator c = \<lparr>Pub = traced (Pub c), Hook = traced_hook (Hook c)\<rparr>"

text \<open>The successful sync of each vlog, followed by the successful record of the prefix it returned.\<close>

definition prefix_calls :: "(uint32 \<times> int) list \<Rightarrow> call list" where
  "prefix_calls vps = concat (map (\<lambda>(v, pr). [CSync v pr None, CRecord v pr None]) vps)"

lemma prefix_calls_simps [simp]:
  "prefix_calls [] = []"
  "prefix_calls ((v, pr) # vps) = CSync v pr None # CRecord v pr None # prefix_calls vps"
  by (simp_all add: prefix_calls_def)

definition publishes :: "call list \<Rightarrow> bool" where
  "publishes tr \<longleftrightarrow> list_ex (\<lambda>c. case c of CPublish _ \<Rightarrow> True | _ \<Rightarrow> False) tr"

lemma publishes_simps [simp]:
  "\<not> publishes []"
  "publishes (CSync v pr e # tr) = publishes tr"
  "publishes (CRecord v pr e # tr) = publishes tr"
  "publishes (CVerify e # tr) = publishes tr"
  "publishes (CPublish e # tr)"
  "publishes (tr @ tr') \<longleftrightarrow> publishes tr \<or> publishes tr'"
  by (simp_all add: publishes_def)

lemma at_point_traced:
  "at_point (traced_coordinator c) pt (s, tr) =
     (case at_point c pt s of (s', e) \<Rightarrow> ((s', tr), e))"
  by (auto simp: at_point_def traced_coordinator_def traced_hook_def split: option.splits prod.splits)

lemma Pub_traced [simp]: "Pub (traced_coordinator c) = traced (Pub c)"
  by (simp add: traced_coordinator_def)

lemma sync_vlogs_traced:
  assumes "sync_vlogs (traced_coordinator c) vs (s, tr) = ((s', tr'), e)"
  shows "\<exists>new. tr' = tr @ new \<and> \<not> publishes new
    \<and> (e = None \<longrightarrow> (\<exists>prs. length prs = length vs \<and> new = prefix_calls (zip vs prs)))"
  using assms
proof (induction vs arbitrary: s tr)
  case Nil
  then show ?case by simp
next
  case (Cons v vs)
  obtain s1 pr e1 where sync: "Sync (Pub c) v s = (s1, pr, e1)" by (metis prod_cases3)
  show ?case
  proof (cases e1)
    case None
    obtain s2 e2 where h: "at_point c ShardsSynced s1 = (s2, e2)" by force
    obtain s3 e3 where r: "RecordPrefix (Pub c) v pr s2 = (s3, e3)" by force
    obtain s4 e4 where h': "at_point c PrefixRecorded s3 = (s4, e4)" by force
    show ?thesis
    proof (cases "e2 = None \<and> e3 = None \<and> e4 = None")
      case True
      with None Cons.prems sync h r h'
      have "sync_vlogs (traced_coordinator c) vs (s4, tr @ [CSync v pr None, CRecord v pr None]) = ((s', tr'), e)"
        by (simp add: traced_def at_point_traced)
      from Cons.IH [OF this] obtain new where new: "tr' = tr @ [CSync v pr None, CRecord v pr None] @ new"
        "\<not> publishes new"
        "e = None \<longrightarrow> (\<exists>prs. length prs = length vs \<and> new = prefix_calls (zip vs prs))"
        by auto
      have "\<exists>qs. length qs = length (v # vs) \<and> CSync v pr None # CRecord v pr None # new = prefix_calls (zip (v # vs) qs)"
        if "e = None"
      proof -
        from that new obtain prs where "length prs = length vs" "new = prefix_calls (zip vs prs)" by auto
        then show ?thesis by (intro exI [of _ "pr # prs"]) simp
      qed
      with new show ?thesis by (intro exI [of _ "[CSync v pr None, CRecord v pr None] @ new"]) simp
    next
      case False
      with None Cons.prems sync h r h' show ?thesis
        by (auto simp: traced_def at_point_traced split: option.splits)
    qed
  next
    case (Some x)
    with Cons.prems sync show ?thesis by (auto simp: traced_def)
  qed
qed

section \<open>Properties\<close>

text \<open>
  C9. whatever the adapter and the crash hook do, \<^verbatim>\<open>Coordinator.Commit\<close> returns, and its
  step machine has exactly the effects of the straight-line protocol: admit, then for each
  admitted vlog in order sync it and record the prefix that sync returned, then verify, then
  publish, stopping with the first error.
\<close>

theorem Coordinator_Commit_refines: "Coordinator_Commit c s = Some (commit_spec c s)"
  by (rule Commit_eq_spec)

text \<open>
  C10. The namespace is published only on top of durable data: if an execution of
  \<^verbatim>\<open>Coordinator.Commit\<close> reaches the publishing effect, then admission succeeded and, whatever errors
  follow, the calls made are a successful sync of every admitted vlog in order, each followed by a
  successful record of exactly the prefix it returned, then one successful verification, then one
  publication, and nothing after it. No effect that failed is passed over.
\<close>

theorem Coordinator_Commit_publish_last:
  assumes "Coordinator_Commit (traced_coordinator c) (s, []) = Some ((s', tr), e)"
    and "publishes tr"
    and "Admit (Pub c) s = (sa, ids, ea)"
  shows "ea = None \<and> (\<exists>prs ep. length prs = length ids \<and> tr = prefix_calls (zip ids prs) @ [CVerify None, CPublish ep])"
proof -
  obtain s1 tr1 e1 where sv: "sync_vlogs (traced_coordinator c) ids (sa, []) = ((s1, tr1), e1)"
    by (metis surj_pair)
  note new = sync_vlogs_traced [OF sv]
  have ea: "ea = None" and e1: "e1 = None"
    using assms sv new by (auto simp: Commit_eq_spec commit_spec_def traced_def split: option.splits)
  with assms sv have "verify_publish (traced_coordinator c) (s1, tr1) = ((s', tr), e)"
    by (simp add: Commit_eq_spec commit_spec_def traced_def)
  moreover obtain prs where "length prs = length ids" "tr1 = prefix_calls (zip ids prs)" "\<not> publishes tr1"
    using new e1 by auto
  ultimately have "\<exists>ep. tr = prefix_calls (zip ids prs) @ [CVerify None, CPublish ep]"
    using assms(2)
    by (auto simp: verify_publish_def traced_def at_point_traced split: option.splits prod.splits)
  then show ?thesis using ea \<open>length prs = length ids\<close> by blast
qed

definition sample_Publication :: "nat Publication" where
  "sample_Publication =
     \<lparr>Admit = (\<lambda>s. (s, [7], None)), Sync = (\<lambda>v s. (s + 1, 4096, None)),
      RecordPrefix = (\<lambda>v p s. (s, None)), Verify = (\<lambda>s. (s, None)), Publish = (\<lambda>s. (s, None))\<rparr>"

theorem Coordinator_Commit_publish_last_witness:
  "\<exists>prs ep. length prs = length [7::uint32] \<and>
     [CSync 7 4096 None, CRecord 7 4096 None, CVerify None, CPublish None] = prefix_calls (zip [7] prs) @ [CVerify None, CPublish ep]"
  by (rule Coordinator_Commit_publish_last
        [where c = "\<lparr>Pub = sample_Publication, Hook = None\<rparr>" and s = 0 and s' = 1 and sa = 0 and ea = None and e = None, THEN conjunct2])
     (simp_all add: Commit_eq_spec commit_spec_def verify_publish_def traced_def at_point_traced
        traced_coordinator_def traced_hook_def at_point_def sample_Publication_def)

end
