(* ===== verification/Rose_Io.thy ===== *)
theory Rose_Io
  imports Rose_Prelude
begin

text \<open>
  Stateful fallible code as functions on an explicit state: a Go routine that may return an
  error is a \<open>('s, 'a) io\<close>, and \<open>bind\<close> is the sequencing with an early return on error. The
  triples of this theory carry the proofs of such routines: \<open>triple P m Q E\<close> says that from a
  state satisfying \<open>P\<close> the routine \<open>m\<close> always ends, in \<open>Q\<close> with a value or in \<open>E\<close> with an
  error. Rules for the composite forms are collected in \<open>io_rules\<close>.
\<close>

named_theorems io_rules \<open>triples of the primitive and composite routines\<close>
named_theorems io_simps \<open>the routines as equations on states\<close>

type_synonym ('s, 'a) io = "'s \<Rightarrow> 's \<times> 'a result"

definition ret :: "'a \<Rightarrow> ('s, 'a) io" where
  "ret x s = (s, Inr x)"

definition raise :: "err \<Rightarrow> ('s, 'a) io" where
  "raise e s = (s, Inl e)"

definition bind :: "('s, 'a) io \<Rightarrow> ('a \<Rightarrow> ('s, 'b) io) \<Rightarrow> ('s, 'b) io" where
  "bind m k s = (case m s of (s', Inl e) \<Rightarrow> (s', Inl e) | (s', Inr x) \<Rightarrow> k x s')"

definition seq :: "('s, unit) io \<Rightarrow> ('s, 'b) io \<Rightarrow> ('s, 'b) io" where
  "seq m k = bind m (\<lambda>_. k)"

text \<open>\<open>gets f\<close> reads from the state; \<open>of_result f\<close> runs a pure check on it.\<close>

definition gets :: "('s \<Rightarrow> 'a) \<Rightarrow> ('s, 'a) io" where
  "gets f s = (s, Inr (f s))"

definition of_result :: "('s \<Rightarrow> 'a result) \<Rightarrow> ('s, 'a) io" where
  "of_result f s = (s, f s)"

definition modify :: "('s \<Rightarrow> 's) \<Rightarrow> ('s, unit) io" where
  "modify f s = (f s, Inr ())"

definition when_io :: "bool \<Rightarrow> ('s, unit) io \<Rightarrow> ('s, unit) io" where
  "when_io b m = (if b then m else ret ())"

text \<open>\<open>defer_io m c\<close> is Go's \<^verbatim>\<open>defer\<close> of a clean-up whose own errors are ignored.\<close>

definition defer_io :: "('s, 'a) io \<Rightarrow> ('s \<Rightarrow> 's) \<Rightarrow> ('s, 'a) io" where
  "defer_io m c s = (case m s of (s', r) \<Rightarrow> (c s', r))"

lemmas io_defs [io_simps] =
  ret_def raise_def bind_def seq_def gets_def of_result_def modify_def when_io_def defer_io_def

definition triple ::
  "('s \<Rightarrow> bool) \<Rightarrow> ('s, 'a) io \<Rightarrow> ('a \<Rightarrow> 's \<Rightarrow> bool) \<Rightarrow> ('s \<Rightarrow> bool) \<Rightarrow> bool" where
  "triple P m Q E \<longleftrightarrow>
     (\<forall>s. P s \<longrightarrow> (case m s of (s', Inr x) \<Rightarrow> Q x s' | (s', Inl e) \<Rightarrow> E s'))"

lemma tripleI:
  "(\<And>s s' x. P s \<Longrightarrow> m s = (s', Inr x) \<Longrightarrow> Q x s') \<Longrightarrow>
   (\<And>s s' e. P s \<Longrightarrow> m s = (s', Inl e) \<Longrightarrow> E s') \<Longrightarrow> triple P m Q E"
  by (auto simp: triple_def split: prod.splits sum.splits)

lemma tripleD_ok: "triple P m Q E \<Longrightarrow> P s \<Longrightarrow> m s = (s', Inr x) \<Longrightarrow> Q x s'"
  by (auto simp: triple_def)

lemma tripleD_err: "triple P m Q E \<Longrightarrow> P s \<Longrightarrow> m s = (s', Inl e) \<Longrightarrow> E s'"
  by (force simp: triple_def)

lemma triple_bind [io_rules]:
  "triple P m R E \<Longrightarrow> (\<And>x. triple (R x) (k x) Q E) \<Longrightarrow> triple P (bind m k) Q E"
  by (rule tripleI) (auto simp: bind_def split: prod.splits sum.splits dest: tripleD_ok tripleD_err)

lemma triple_seq [io_rules]:
  "triple P m (\<lambda>_. R) E \<Longrightarrow> triple R k Q E \<Longrightarrow> triple P (seq m k) Q E"
  unfolding seq_def by (erule triple_bind) simp

lemma triple_ret [io_rules]: "(\<And>s. P s \<Longrightarrow> Q x s) \<Longrightarrow> triple P (ret x) Q E"
  by (simp add: triple_def ret_def)

lemma triple_raise [io_rules]: "(\<And>s. P s \<Longrightarrow> E s) \<Longrightarrow> triple P (raise e) Q E"
  by (simp add: triple_def raise_def)

lemma triple_gets: "(\<And>s. P s \<Longrightarrow> Q (f s) s) \<Longrightarrow> triple P (gets f) Q E"
  by (simp add: triple_def gets_def)

lemma triple_of_result:
  "(\<And>s x. P s \<Longrightarrow> f s = Inr x \<Longrightarrow> Q x s) \<Longrightarrow> (\<And>s. P s \<Longrightarrow> E s) \<Longrightarrow> triple P (of_result f) Q E"
  by (auto simp: triple_def of_result_def split: sum.splits)

lemma triple_modify: "(\<And>s. P s \<Longrightarrow> Q () (f s)) \<Longrightarrow> triple P (modify f) Q E"
  by (simp add: triple_def modify_def)

lemma triple_when [io_rules]:
  "(b \<Longrightarrow> triple P m Q E) \<Longrightarrow> (\<not> b \<Longrightarrow> (\<And>s. P s \<Longrightarrow> Q () s)) \<Longrightarrow> triple P (when_io b m) Q E"
  by (auto simp: when_io_def triple_def ret_def)

lemma triple_if:
  "(b \<Longrightarrow> triple P m Q E) \<Longrightarrow> (\<not> b \<Longrightarrow> triple P n Q E) \<Longrightarrow> triple P (if b then m else n) Q E"
  by simp

lemma triple_defer:
  "triple P m (\<lambda>x s. Q x (c s)) (\<lambda>s. E (c s)) \<Longrightarrow> triple P (defer_io m c) Q E"
  by (rule tripleI) (auto simp: defer_io_def split: prod.splits dest: tripleD_ok tripleD_err)

lemma triple_weaken:
  "triple P m Q E \<Longrightarrow> (\<And>s. P' s \<Longrightarrow> P s) \<Longrightarrow> (\<And>x s. Q x s \<Longrightarrow> Q' x s) \<Longrightarrow> (\<And>s. E s \<Longrightarrow> E' s)
   \<Longrightarrow> triple P' m Q' E'"
  by (rule tripleI) (blast dest: tripleD_ok tripleD_err)+

lemma triple_pre: "triple P m Q E \<Longrightarrow> (\<And>s. P' s \<Longrightarrow> P s) \<Longrightarrow> triple P' m Q E"
  by (erule triple_weaken) simp_all

lemma triple_conj_pre:
  "(\<And>s. P s \<Longrightarrow> A) \<Longrightarrow> (A \<Longrightarrow> triple P m Q E) \<Longrightarrow> triple P m Q E"
  by (auto simp: triple_def)

text \<open>Running a routine that works on a part of the state.\<close>

definition focus :: "('s \<Rightarrow> 't) \<Rightarrow> ('t \<Rightarrow> 's \<Rightarrow> 's) \<Rightarrow> ('t, 'a) io \<Rightarrow> ('s, 'a) io" where
  "focus get put m s = (case m (get s) of (t, r) \<Rightarrow> (put t s, r))"

text \<open>No error on a successful path: what a routine does when it succeeds.\<close>

lemma bind_ok [simp]: "m s = (s', Inr x) \<Longrightarrow> bind m k s = k x s'"
  by (simp add: bind_def)

lemma bind_err [simp]: "m s = (s', Inl e) \<Longrightarrow> bind m k s = (s', Inl e)"
  by (simp add: bind_def)

lemma seq_ok [simp]: "m s = (s', Inr ()) \<Longrightarrow> seq m k s = k s'"
  by (simp add: seq_def)

lemma bind_eq_Inr:
  "bind m k s = (t, Inr y) \<longleftrightarrow> (\<exists>s' x. m s = (s', Inr x) \<and> k x s' = (t, Inr y))"
  by (auto simp: bind_def split: prod.splits sum.splits)

lemma seq_eq_Inr:
  "seq m k s = (t, Inr y) \<longleftrightarrow> (\<exists>s'. m s = (s', Inr ()) \<and> k s' = (t, Inr y))"
  by (auto simp: seq_def bind_eq_Inr)

lemmas io_Inr_simps = bind_eq_Inr seq_eq_Inr

end
