(* ===== verification/Rose_Undo.thy ===== *)
theory Rose_Undo
  imports Rose_Crypto Rose_Io
begin

text \<open>
  The rollback journal of a plog file (\<^verbatim>\<open>src/storage/undo.go\<close>, \<^verbatim>\<open>remove.go\<close>) on an explicit model
  of the file system calls it makes. Every mutating call may fail, a write may leave a prefix
  behind, and a power failure may lose or scramble whatever was not synced: data, directory entries,
  and the content of a journal that was renamed into place before its own sync. A read fails exactly
  on the offsets the medium cannot read; it has no transient failures. The theorems state
  the journal's promise: however the calls fail and whenever the machine stops, reopening the
  file brings back the last baseline whose retirement had not begun, or the one that replaced it.
\<close>

section \<open>Files, faults and crashes\<close>

text \<open>
  What one plog has on disk: the data file (its directory entry, its content, the offsets the
  medium cannot read), the journal file beside it, and the journal's temporary. The fields that
  say what a power failure may undo are \<open>dirty_from\<close>, the lowest offset of the data changed
  since its last successful \<^verbatim>\<open>fsync\<close>, \<open>journal_maybe\<close>, the earlier states of the journal's
  directory entry since the last successful sync of the directory, \<open>entry_dur\<close>, the data
  file's directory entry at that sync, and three flags for journal files whose content was written
  after their last successful \<^verbatim>\<open>fsync\<close>: \<open>tmp_dirty\<close> for the temporary, \<open>journal_dirty\<close> for the
  file that is the journal now, \<open>maybe_dirty\<close> for one of the files \<open>journal_maybe\<close> lists. \<open>faults\<close> decides the outcome of the mutating system
  calls to come, in order; when it is empty they succeed.
\<close>

datatype io_outcome = IoOk | IoErr nat | IoShort nat

record pfile =
  entry :: bool
  entry_dur :: bool
  content :: bytes
  unreadable :: "nat \<Rightarrow> bool"
  dirty_from :: "nat option"
  journal :: "bytes option"
  journal_maybe :: "bytes option list"
  journal_tmp :: "bytes option"
  tmp_dirty :: bool
  journal_dirty :: bool
  maybe_dirty :: bool
  faults :: "io_outcome list"

definition next_io :: "pfile \<Rightarrow> io_outcome \<times> pfile" where
  "next_io f = (case faults f of [] \<Rightarrow> (IoOk, f) | r # rs \<Rightarrow> (r, f\<lparr>faults := rs\<rparr>))"

text \<open>A system call that either has the effect \<open>g\<close> or fails without any.\<close>

definition sys_op :: "(pfile \<Rightarrow> pfile) \<Rightarrow> (pfile, unit) io" where
  "sys_op g f = (case next_io f of (IoOk, f) \<Rightarrow> (g f, Inr ()) | (_, f) \<Rightarrow> (f, Inl ErrIO))"

definition touch :: "nat \<Rightarrow> pfile \<Rightarrow> pfile" where
  "touch off f =
     (let k = min off (length (content f))
      in f\<lparr>dirty_from := Some (case dirty_from f of None \<Rightarrow> k | Some d \<Rightarrow> min d k)\<rparr>)"

definition put_bytes :: "bytes \<Rightarrow> nat \<Rightarrow> pfile \<Rightarrow> pfile" where
  "put_bytes b off f =
     (if b = [] then f else (touch off f)\<lparr>content := write_bytes (content f) off b\<rparr>)"

text \<open>
  \<^verbatim>\<open>os.File.WriteAt\<close>: the number of bytes written and the error, which is never nil for a short
  write. A failing write leaves a prefix of the bytes behind. (\<open>IoShort\<close> without an error is the
  outcome of an injected writer, see \<open>Rose_Plog\<close>.)
\<close>

definition file_WriteAt :: "bytes \<Rightarrow> nat \<Rightarrow> pfile \<Rightarrow> pfile \<times> nat \<times> err option" where
  "file_WriteAt b off f =
     (case next_io f of
        (IoOk, f) \<Rightarrow> (put_bytes b off f, length b, None)
      | (IoErr n, f) \<Rightarrow> (put_bytes (take n b) off f, min n (length b), Some ErrIO)
      | (IoShort n, f) \<Rightarrow> (put_bytes (take n b) off f, min n (length b), Some ErrIO))"

definition file_ReadAt :: "pfile \<Rightarrow> nat \<Rightarrow> nat \<Rightarrow> bytes result" where
  "file_ReadAt f n off =
     (if n = 0 then Inr []
      else if list_ex (unreadable f) [off..<off + n] then Inl ErrIO
      else if length (content f) < off + n then Inl ErrEOF
      else Inr (bslice off (off + n) (content f)))"

definition file_Truncate :: "nat \<Rightarrow> (pfile, unit) io" where
  "file_Truncate n =
     sys_op (\<lambda>f. if n = length (content f) then f else (touch n f)\<lparr>content := resize (content f) n\<rparr>)"

definition file_Sync :: "(pfile, unit) io" where
  "file_Sync = sys_op (\<lambda>f. f\<lparr>dirty_from := None\<rparr>)"

definition remove_entry :: "(pfile, unit) io" where
  "remove_entry f = (if entry f then sys_op (\<lambda>f. f\<lparr>entry := False\<rparr>) f else (f, Inl ErrNotExist))"

definition remove_journal :: "(pfile, unit) io" where
  "remove_journal f =
     (if journal f = None then (f, Inl ErrNotExist)
      else sys_op (\<lambda>f. f\<lparr>journal := None, journal_maybe := journal f # journal_maybe f,
                          journal_dirty := False, maybe_dirty := maybe_dirty f \<or> journal_dirty f\<rparr>) f)"

definition remove_tmp :: "(pfile, unit) io" where
  "remove_tmp f =
     (if journal_tmp f = None then (f, Inl ErrNotExist) else sys_op (\<lambda>f. f\<lparr>journal_tmp := None\<rparr>) f)"

definition tmp_create :: "(pfile, unit) io" where
  "tmp_create = sys_op (\<lambda>f. f\<lparr>journal_tmp := Some [], tmp_dirty := True\<rparr>)"

definition tmp_write :: "bytes \<Rightarrow> (pfile, unit) io" where
  "tmp_write b f =
     (if b = [] then (f, Inr ()) else let append = (\<lambda>b f. f\<lparr>journal_tmp := map_option (\<lambda>t. t @ b) (journal_tmp f), tmp_dirty := True\<rparr>)
      in case next_io f of
           (IoOk, f) \<Rightarrow> (append b f, Inr ())
         | (IoErr n, f) \<Rightarrow> (append (take n b) f, Inl ErrIO)
         | (IoShort n, f) \<Rightarrow> (append (take n b) f, Inl ErrIO))"

definition tmp_Sync :: "(pfile, unit) io" where
  "tmp_Sync = sys_op (\<lambda>f. f\<lparr>tmp_dirty := False\<rparr>)"

definition tmp_Close :: "(pfile, unit) io" where
  "tmp_Close = sys_op id"

definition rename_tmp :: "(pfile, unit) io" where
  "rename_tmp =
     sys_op (\<lambda>f. f\<lparr>journal := journal_tmp f, journal_maybe := journal f # journal_maybe f, journal_tmp := None,
                    journal_dirty := tmp_dirty f, maybe_dirty := maybe_dirty f \<or> journal_dirty f\<rparr>)"

text \<open>\<^verbatim>\<open>syncParent\<close> opens and syncs the directory of the data file and of its journal.\<close>

definition syncParent :: "(pfile, unit) io" where
  "syncParent = seq (sys_op id) (sys_op (\<lambda>f. f\<lparr>journal_maybe := [], maybe_dirty := False, entry_dur := entry f\<rparr>))"

text \<open>
  A power failure: unsynced data may read back as anything, the directory entries are those of
  some moment since the last sync of the directory, a journal file whose content was not synced when
  it got its name may hold anything, and so may a temporary.
\<close>

definition crash_content :: "nat option \<Rightarrow> bytes \<Rightarrow> bytes \<Rightarrow> bool" where
  "crash_content dirty d d' \<longleftrightarrow>
     (case dirty of None \<Rightarrow> d' = d | Some k \<Rightarrow> take k d' = take k d)"

definition crash :: "pfile \<Rightarrow> pfile \<Rightarrow> bool" where
  "crash f f' \<longleftrightarrow>
     entry f' \<in> {entry f, entry_dur f} \<and> entry_dur f' = entry f' \<and>
     crash_content (dirty_from f) (content f) (content f') \<and> dirty_from f' = None \<and>
     (journal f' \<in> set (journal f # journal_maybe f) \<or> (journal_dirty f \<or> maybe_dirty f) \<and> journal f' \<noteq> None) \<and>
     journal_maybe f' = [] \<and> \<not> journal_dirty f' \<and> \<not> maybe_dirty f'"

section \<open>The undo journal\<close>

definition undoHeaderSize :: nat where "undoHeaderSize = 56"

definition undoMagic :: bytes where "undoMagic = str_bytes ''ROSEUND1''"

definition SectorSize :: nat where "SectorSize = 4096"

record undoRecord =
  identity :: bytes
  ur_start :: nat
  ur_size :: nat
  saved :: bytes

definition int64_of :: "nat \<Rightarrow> int" where
  "int64_of n = (if n < 2 ^ 63 then int n else int n - 2 ^ 64)"

definition parse_undo :: "bytes \<Rightarrow> undoRecord result" where
  "parse_undo j =
     (if length j < undoHeaderSize + 32 then Inl (Err ''short undo journal'')
      else
        let header = take undoHeaderSize j;
            start = int64_of (le_get (bslice 8 16 header));
            size = int64_of (le_get (bslice 16 24 header))
        in if take 8 header \<noteq> undoMagic \<or> start < 0 \<or> size < start
              \<or> size - start \<noteq> int (length j) - int undoHeaderSize - 32
           then Inl (Err ''invalid undo journal geometry'')
           else if sha256 (take (length j - 32) j) \<noteq> drop (length j - 32) j
           then Inl (Err ''undo journal checksum mismatch'')
           else Inr \<lparr>identity = bslice 24 56 header, ur_start = nat start, ur_size = nat size, saved = j\<rparr>)"

definition openUndo :: "pfile \<Rightarrow> undoRecord result" where
  "openUndo f = (case journal f of None \<Rightarrow> Inl ErrNotExist | Some j \<Rightarrow> parse_undo j)"

definition undoIdentity :: "pfile \<Rightarrow> nat \<Rightarrow> bytes result" where
  "undoIdentity f start =
     (case file_ReadAt f (min start SectorSize) 0 of Inl e \<Rightarrow> Inl e | Inr prefix \<Rightarrow> Inr (sha256 prefix))"

definition undo_header :: "nat \<Rightarrow> nat \<Rightarrow> bytes \<Rightarrow> bytes" where
  "undo_header start sz idt = undoMagic @ le_put 8 start @ le_put 8 sz @ idt"

definition identity_mismatch :: err where
  "identity_mismatch = Err ''undo journal belongs to different file identity''"

text \<open>
  The replacement half of \<^verbatim>\<open>saveUndo\<close>, once the previous journal \<open>old\<close>, if any, is known to
  start above \<open>start\<close>. The copies are streamed in the source; the temporary they fill is never
  read before it is complete and synced.
\<close>

definition write_undo :: "undoRecord option \<Rightarrow> nat \<Rightarrow> nat \<Rightarrow> (pfile, unit) io" where
  "write_undo old start sz =
     bind (of_result (\<lambda>f. undoIdentity f start)) (\<lambda>idt.
       if (case old of None \<Rightarrow> False | Some r \<Rightarrow> identity r \<noteq> idt) then raise identity_mismatch
       else
         let header = undo_header start sz idt;
             stop = (case old of None \<Rightarrow> sz | Some r \<Rightarrow> ur_start r);
             rest = (case old of None \<Rightarrow> []
                     | Some r \<Rightarrow> bslice undoHeaderSize (undoHeaderSize + (ur_size r - ur_start r)) (saved r))
         in seq (tmp_write header)
            (bind (of_result (\<lambda>f. file_ReadAt f (stop - start) start)) (\<lambda>mid.
              seq (tmp_write mid)
              (seq (tmp_write rest)
              (seq (tmp_write (sha256 (header @ mid @ rest)))
              (seq tmp_Sync
              (seq tmp_Close
              (seq rename_tmp syncParent))))))))"

definition replace_undo :: "undoRecord option \<Rightarrow> nat \<Rightarrow> (pfile, unit) io" where
  "replace_undo old start =
     bind (gets (\<lambda>f. case old of None \<Rightarrow> length (content f) | Some r \<Rightarrow> ur_size r)) (\<lambda>size.
       if size < start then raise (Err ''undo start outside baseline size'')
       else seq tmp_create (defer_io (write_undo old start size) (\<lambda>f. fst (remove_tmp f))))"

definition saveUndo :: "nat \<Rightarrow> (pfile, unit) io" where
  "saveUndo start =
     bind (gets openUndo) (\<lambda>r.
       case r of
         Inl e \<Rightarrow> if e = ErrNotExist then replace_undo None start else raise e
       | Inr old \<Rightarrow>
           if ur_start old \<le> start
           then bind (of_result (\<lambda>f. undoIdentity f (ur_start old))) (\<lambda>idt.
                  if idt \<noteq> identity old then raise identity_mismatch else syncParent)
           else replace_undo (Some old) start)"

definition copy_back :: "undoRecord \<Rightarrow> (pfile, unit) io" where
  "copy_back r f =
     (if ur_size r = ur_start r then (f, Inr ())
      else case file_WriteAt (bslice undoHeaderSize (undoHeaderSize + (ur_size r - ur_start r)) (saved r)) (ur_start r) f of
        (f, n, Some e) \<Rightarrow> (f, Inl e)
      | (f, n, None) \<Rightarrow> (f, if n < ur_size r - ur_start r then Inl ErrShortWrite else Inr ()))"

definition restoreUndo :: "(pfile, unit) io" where
  "restoreUndo =
     bind (gets openUndo) (\<lambda>r.
       case r of
         Inl e \<Rightarrow> if e = ErrNotExist then syncParent else raise e
       | Inr rec \<Rightarrow>
           bind (of_result (\<lambda>f. undoIdentity f (ur_start rec))) (\<lambda>idt.
             if idt \<noteq> identity rec then raise identity_mismatch
             else seq (copy_back rec)
                  (seq (file_Truncate (ur_size rec))
                  (seq file_Sync
                  (seq remove_journal syncParent)))))"

definition commitUndo :: "(pfile, unit) io" where
  "commitUndo =
     seq file_Sync (\<lambda>f.
       case remove_journal f of
         (f, Inl e) \<Rightarrow> if e = ErrNotExist then syncParent f else (f, Inl e)
       | (f, Inr _) \<Rightarrow> syncParent f)"

definition discardUndoTemp :: "(pfile, unit) io" where
  "discardUndoTemp f =
     (case remove_tmp f of
        (f, Inl e) \<Rightarrow> if e = ErrNotExist then (f, Inr ()) else (f, Inl e)
      | (f, Inr _) \<Rightarrow> syncParent f)"

definition ignore_missing :: "(pfile, unit) io \<Rightarrow> (pfile, unit) io" where
  "ignore_missing m f =
     (case m f of (f, Inl e) \<Rightarrow> (f, if e = ErrNotExist then Inr () else Inl e) | (f, Inr _) \<Rightarrow> (f, Inr ()))"

definition RemovePlogFiles :: "(pfile, unit) io" where
  "RemovePlogFiles =
     seq (ignore_missing remove_entry)
     (seq syncParent
     (seq (ignore_missing remove_journal)
     (seq (ignore_missing remove_tmp) syncParent)))"

section \<open>The journal's content\<close>

text \<open>The journal that preserves the baseline content \<open>C\<close> from offset \<open>start\<close> on.\<close>

definition journal_body :: "bytes \<Rightarrow> nat \<Rightarrow> bytes" where
  "journal_body C start = undo_header start (length C) (sha256 (take (min start SectorSize) C)) @ drop start C"

definition journal_of :: "bytes \<Rightarrow> nat \<Rightarrow> bytes" where
  "journal_of C start = journal_body C start @ sha256 (journal_body C start)"

lemma length_undo_header [simp]: "length idt = 32 \<Longrightarrow> length (undo_header start sz idt) = undoHeaderSize"
  by (simp add: undo_header_def undoMagic_def undoHeaderSize_def)

lemma length_journal_body [simp]: "length (journal_body C start) = undoHeaderSize + (length C - start)"
  by (simp add: journal_body_def)

lemma length_journal_of [simp]: "length (journal_of C start) = undoHeaderSize + (length C - start) + 32"
  by (simp add: journal_of_def)

lemma journal_payload:
  "bslice undoHeaderSize (undoHeaderSize + (length C - start)) (journal_of C start) = drop start C"
  by (simp add: journal_of_def journal_body_def bslice_def)

lemma undo_header_fields:
  assumes "length idt = 32"
  shows "take 8 (undo_header start sz idt) = undoMagic"
    "bslice 8 16 (undo_header start sz idt) = le_put 8 start"
    "bslice 16 24 (undo_header start sz idt) = le_put 8 sz"
    "bslice 24 56 (undo_header start sz idt) = idt"
  using assms by (simp_all add: undo_header_def undoMagic_def bslice_def)

lemma int64_of_le: "n < 2 ^ 63 \<Longrightarrow> int64_of (le_get (le_put 8 n)) = int n"
  by (simp add: int64_of_def le_get_put)

lemma parse_undo_journal_of:
  assumes "length C < 2 ^ 63" "start \<le> length C"
  shows "parse_undo (journal_of C start) =
    Inr \<lparr>identity = sha256 (take (min start SectorSize) C), ur_start = start, ur_size = length C,
         saved = journal_of C start\<rparr>"
proof -
  let ?idt = "sha256 (take (min start SectorSize) C)"
  let ?h = "undo_header start (length C) ?idt"
  have h: "take undoHeaderSize (journal_of C start) = ?h"
    by (simp add: journal_of_def journal_body_def)
  have "take (length (journal_of C start) - 32) (journal_of C start) = journal_body C start"
    "drop (length (journal_of C start) - 32) (journal_of C start) = sha256 (journal_body C start)"
    by (simp_all add: journal_of_def)
  moreover have "int64_of (le_get (le_put 8 start)) = int start"
    "int64_of (le_get (le_put 8 (length C))) = int (length C)"
    using assms by (auto intro!: int64_of_le)
  ultimately show ?thesis
    using assms by (simp add: parse_undo_def h undo_header_fields Let_def of_nat_diff)
qed

lemma journal_of_inject_start:
  assumes "journal_of C a = journal_of C b" "a \<le> length C" "b \<le> length C"
  shows "a = b"
  using arg_cong [OF assms(1), of length] assms(2,3) by simp

section \<open>What a disk state keeps\<close>

text \<open>
  \<open>keeps C f u\<close>: if the machine stops now and \<open>u\<close> is what remains of the journal's directory
  entry, replaying it gives the content \<open>C\<close>. \<open>safe S f\<close>: whatever remains of it, replaying gives
  a content of \<open>S\<close>. \<open>guarded C k f\<close>: whatever remains of it is a journal that keeps \<open>C\<close> from an
  offset of at most \<open>k\<close>, so the file may be changed from \<open>k\<close> on.
\<close>

definition keeps_from :: "bytes \<Rightarrow> pfile \<Rightarrow> nat \<Rightarrow> bool" where
  "keeps_from C f start \<longleftrightarrow>
     start \<le> length C \<and> start \<le> length (content f) \<and> take start (content f) = take start C
     \<and> (\<forall>k. dirty_from f = Some k \<longrightarrow> start \<le> k)"

definition keeps :: "bytes \<Rightarrow> pfile \<Rightarrow> bytes option \<Rightarrow> bool" where
  "keeps C f u \<longleftrightarrow>
     (case u of
        None \<Rightarrow> content f = C \<and> dirty_from f = None
      | Some j \<Rightarrow> \<exists>start. j = journal_of C start \<and> keeps_from C f start)"

text \<open>No file that is the journal, or may be it again after a power failure, has unsynced content.\<close>

definition whole :: "pfile \<Rightarrow> bool" where
  "whole f \<longleftrightarrow> \<not> journal_dirty f \<and> \<not> maybe_dirty f"

definition safe :: "bytes set \<Rightarrow> pfile \<Rightarrow> bool" where
  "safe S f \<longleftrightarrow> whole f \<and> (\<forall>u \<in> set (journal f # journal_maybe f). \<exists>C \<in> S. keeps C f u)"

definition baseline :: "bytes \<Rightarrow> pfile \<Rightarrow> bool" where
  "baseline C f \<longleftrightarrow> keeps C f (journal f)"

definition guarded :: "bytes \<Rightarrow> nat \<Rightarrow> pfile \<Rightarrow> bool" where
  "guarded C k f \<longleftrightarrow> whole f \<and>
     (\<forall>u \<in> set (journal f # journal_maybe f). \<exists>start \<le> k. u = Some (journal_of C start) \<and> keeps_from C f start)"

text \<open>The data file itself is as before.\<close>

definition same_data :: "pfile \<Rightarrow> pfile \<Rightarrow> bool" where
  "same_data f g \<longleftrightarrow> content f = content g \<and> dirty_from f = dirty_from g \<and> unreadable f = unreadable g"

lemma keeps_None [simp]: "keeps C f None \<longleftrightarrow> content f = C \<and> dirty_from f = None"
  by (simp add: keeps_def)

lemma keeps_Some: "keeps C f (Some j) \<longleftrightarrow> (\<exists>start. j = journal_of C start \<and> keeps_from C f start)"
  by (simp add: keeps_def)

lemma keeps_cong: "content f = content g \<Longrightarrow> dirty_from f = dirty_from g \<Longrightarrow> keeps C f u = keeps C g u"
  by (cases u) (simp_all add: keeps_def keeps_from_def)

lemma guarded_imp: "guarded C k f \<Longrightarrow> baseline C f \<and> safe {C} f"
  unfolding guarded_def baseline_def safe_def using keeps_Some by fastforce

lemma guarded_mono: "guarded C k f \<Longrightarrow> k \<le> k' \<Longrightarrow> guarded C k' f"
  unfolding guarded_def by (meson order_trans)

lemma safe_mono: "safe S f \<Longrightarrow> S \<subseteq> T \<Longrightarrow> safe T f"
  by (force simp: safe_def)

lemma safe_alone: "journal_maybe f = [] \<Longrightarrow> whole f \<Longrightarrow> safe {C} f \<longleftrightarrow> baseline C f"
  by (simp add: safe_def baseline_def)

lemma keeps_crash:
  assumes "keeps C f u" "crash_content (dirty_from f) (content f) (content f')" "dirty_from f' = None"
  shows "keeps C f' u"
proof (cases u)
  case None
  with assms show ?thesis by (simp add: crash_content_def)
next
  case (Some j)
  with assms(1) obtain start where start: "j = journal_of C start" "keeps_from C f start"
    by (auto simp: keeps_Some)
  have "keeps_from C f' start"
  proof (cases "dirty_from f")
    case None
    with assms start show ?thesis by (simp add: keeps_from_def crash_content_def)
  next
    case (Some k)
    with assms start have k: "start \<le> k" "take k (content f') = take k (content f)"
      by (auto simp: keeps_from_def crash_content_def)
    then have "take start (content f') = take start (content f)"
      by (metis min.absorb1 take_take)
    moreover from k(2) have "min k (length (content f')) = min k (length (content f))"
      by (metis length_take min.commute)
    with k(1) start have "start \<le> length (content f')"
      by (auto simp: keeps_from_def min_def split: if_splits)
    ultimately show ?thesis using start assms(3) by (simp add: keeps_from_def)
  qed
  with Some start show ?thesis by (auto simp: keeps_Some)
qed

lemma crash_journal:
  "crash f f' \<Longrightarrow> whole f \<Longrightarrow> journal f' \<in> set (journal f # journal_maybe f)"
  unfolding crash_def whole_def by blast

lemma crash_whole: "crash f f' \<Longrightarrow> whole f'"
  by (simp add: crash_def whole_def)

lemma safe_crash:
  assumes "safe S f" "crash f f'"
  shows "\<exists>C \<in> S. baseline C f' \<and> safe {C} f'"
proof -
  from assms obtain C where "C \<in> S" "keeps C f (journal f')"
    using crash_journal [OF assms(2)] unfolding safe_def by blast
  with assms(2) have "keeps C f' (journal f')" by (auto simp: crash_def intro: keeps_crash)
  with \<open>C \<in> S\<close> assms(2) show ?thesis
    by (intro bexI [of _ C]) (auto simp: baseline_def safe_alone crash_whole [OF assms(2)] crash_def)
qed

section \<open>The system calls\<close>

text \<open>The part of the disk state that only the journal's completion changes.\<close>

definition core ::
  "pfile \<Rightarrow> bytes \<times> (nat \<Rightarrow> bool) \<times> nat option \<times> bytes option \<times> bytes option list \<times> bool \<times> bool \<times> bool \<times> bool" where
  "core f = (content f, unreadable f, dirty_from f, journal f, journal_maybe f, journal_dirty f, maybe_dirty f, entry f, entry_dur f)"

lemma core_eq_iff:
  "core f = core g \<longleftrightarrow> content f = content g \<and> unreadable f = unreadable g
     \<and> dirty_from f = dirty_from g \<and> journal f = journal g \<and> journal_maybe f = journal_maybe g
     \<and> journal_dirty f = journal_dirty g \<and> maybe_dirty f = maybe_dirty g \<and> entry f = entry g \<and> entry_dur f = entry_dur g"
  by (auto simp: core_def)

lemma core_next_io [simp]: "core (snd (next_io f)) = core f"
  by (simp add: core_def next_io_def split: list.splits)

lemma next_io_eq: "next_io f = (r, g) \<Longrightarrow> \<exists>rs. g = f\<lparr>faults := rs\<rparr>"
  by (cases "faults f") (auto simp: next_io_def intro: exI [of _ "faults f"])

lemma sys_op_cases:
  assumes "sys_op g f = (f', r)"
  obtains (ok) rs where "f' = g (f\<lparr>faults := rs\<rparr>)" "r = Inr ()"
  | (error) rs where "f' = f\<lparr>faults := rs\<rparr>" "r = Inl ErrIO"
  using assms next_io_eq [of f] unfolding sys_op_def
  by (auto split: prod.splits io_outcome.splits)

lemma triple_sys_op:
  assumes "\<And>f rs. P f \<Longrightarrow> Q () (g (f\<lparr>faults := rs\<rparr>))" "\<And>f rs. P f \<Longrightarrow> E (f\<lparr>faults := rs\<rparr>)"
  shows "triple P (sys_op g) Q E"
  using assms by (auto intro!: tripleI elim!: sys_op_cases)

lemma core_faults [simp]: "core (f\<lparr>faults := rs\<rparr>) = core f"
  by (simp add: core_def)

lemma core_tmp [simp]: "core (f\<lparr>journal_tmp := t\<rparr>) = core f" "core (f\<lparr>tmp_dirty := b\<rparr>) = core f"
  by (simp_all add: core_def)

lemma tmp_write_cases:
  assumes "tmp_write b f = (f', r)"
  obtains (ok) rs d where "f' = f\<lparr>faults := rs, journal_tmp := map_option (\<lambda>t. t @ b) (journal_tmp f), tmp_dirty := d\<rparr>" "r = Inr ()"
  | (error) rs t d where "f' = f\<lparr>faults := rs, journal_tmp := t, tmp_dirty := d\<rparr>" "r = Inl ErrIO"
proof (cases "b = []")
  case True
  with assms have "f' = f\<lparr>faults := faults f, journal_tmp := map_option (\<lambda>t. t @ b) (journal_tmp f), tmp_dirty := tmp_dirty f\<rparr>" "r = Inr ()"
    by (simp_all add: tmp_write_def option.map_ident)
  then show ?thesis by (rule ok)
next
  case False
  obtain o' g where n: "next_io f = (o', g)" by force
  then obtain rs where "g = f\<lparr>faults := rs\<rparr>" using next_io_eq by blast
  with assms n False that show ?thesis
    by (cases o') (auto simp: tmp_write_def Let_def)
qed

lemma triple_tmp_write:
  "triple (\<lambda>f. core f = c \<and> journal_tmp f = Some t) (tmp_write b)
     (\<lambda>_ f. core f = c \<and> journal_tmp f = Some (t @ b)) (\<lambda>f. core f = c)"
  by (auto intro!: tripleI elim!: tmp_write_cases simp: core_def)

lemma keeps_core: "core f = core g \<Longrightarrow> keeps C f u = keeps C g u"
  by (rule keeps_cong) (simp_all add: core_eq_iff)

lemma safe_core: "core f = core g \<Longrightarrow> safe S f = safe S g"
  using keeps_core [of f g] by (auto simp: safe_def whole_def core_eq_iff)

lemma baseline_core: "core f = core g \<Longrightarrow> baseline C f = baseline C g"
  using keeps_core [of f g] by (simp add: baseline_def core_eq_iff)

lemma guarded_core: "core f = core g \<Longrightarrow> guarded C k f = guarded C k g"
  by (simp add: guarded_def whole_def keeps_from_def core_eq_iff)

lemma file_ReadAt_core: "core f = core g \<Longrightarrow> file_ReadAt f = file_ReadAt g"
  by (intro ext) (simp add: file_ReadAt_def core_eq_iff)

lemma undoIdentity_core: "core f = core g \<Longrightarrow> undoIdentity f = undoIdentity g"
  by (intro ext) (drule file_ReadAt_core, simp add: undoIdentity_def)

lemmas core_congs = safe_core baseline_core guarded_core

lemma triple_syncParent:
  assumes "\<And>f f'. P f \<Longrightarrow> core f' = core f \<Longrightarrow> E f'"
    and "\<And>f f'. P f \<Longrightarrow> core f' = core (f\<lparr>journal_maybe := [], maybe_dirty := False, entry_dur := entry f\<rparr>) \<Longrightarrow> Q () f'"
  shows "triple P syncParent Q E"
  unfolding syncParent_def
proof (rule triple_seq [where R = "\<lambda>g. \<exists>f. P f \<and> core g = core f"])
  show "triple P (sys_op id) (\<lambda>_ g. \<exists>f. P f \<and> core g = core f) E"
    using assms(1) by (intro triple_sys_op) auto
  show "triple (\<lambda>g. \<exists>f. P f \<and> core g = core f)
      (sys_op (\<lambda>f. f\<lparr>journal_maybe := [], maybe_dirty := False, entry_dur := entry f\<rparr>)) Q E"
  proof (rule triple_sys_op, goal_cases)
    case (1 g rs)
    then obtain f where "P f" "core g = core f" by blast
    then show ?case by (intro assms(2) [of f]) (simp_all add: core_def)
  next
    case (2 g rs)
    then show ?case using assms(1) by auto
  qed
qed

lemma triple_remove_tmp: "core (fst (remove_tmp f)) = core f"
  by (auto simp: remove_tmp_def sys_op_def split: prod.splits io_outcome.splits dest!: next_io_eq)

section \<open>Saving\<close>

text \<open>The old journal from which a replacement is built, as \<^verbatim>\<open>openUndo\<close> returned it.\<close>

definition old_record :: "bytes \<Rightarrow> pfile \<Rightarrow> undoRecord option \<Rightarrow> nat \<Rightarrow> bool" where
  "old_record C f old start \<longleftrightarrow>
     (case old of
        None \<Rightarrow> journal f = None \<and> keeps C f None
      | Some r \<Rightarrow> journal f = Some (journal_of C (ur_start r)) \<and> keeps_from C f (ur_start r) \<and>
                 start < ur_start r \<and> ur_size r = length C \<and> saved r = journal_of C (ur_start r))"

lemma file_ReadAt_Inr: "file_ReadAt f n off = Inr b \<Longrightarrow>
    b = bslice off (off + n) (content f) \<and> length b = n"
  by (auto simp: file_ReadAt_def split: if_splits)

lemma replacement_body:
  assumes "old_record C f old start" "start \<le> length C"
    and "undoIdentity f start = Inr idt"
    and "file_ReadAt f ((case old of None \<Rightarrow> length C | Some r \<Rightarrow> ur_start r) - start) start = Inr mid"
  shows "undo_header start (length C) idt @ mid @
     (case old of None \<Rightarrow> [] | Some r \<Rightarrow> bslice undoHeaderSize (undoHeaderSize + (ur_size r - ur_start r)) (saved r))
     = journal_body C start"
proof -
  have id_pre: "idt = sha256 (take (min start SectorSize) (content f))"
    using assms(3) by (auto simp: undoIdentity_def bslice_0 split: sum.splits dest!: file_ReadAt_Inr)
  show ?thesis
  proof (cases old)
    case None
    with assms show ?thesis
      by (auto simp: old_record_def journal_body_def id_pre bslice_to_end dest!: file_ReadAt_Inr)
  next
    case (Some r)
    let ?s = "ur_start r"
    have r: "keeps_from C f ?s" "start < ?s" "ur_size r = length C" "saved r = journal_of C ?s"
      using assms(1) Some by (auto simp: old_record_def)
    then have pre: "take ?s (content f) = take ?s C" "?s \<le> length C" by (auto simp: keeps_from_def)
    have "take (min start SectorSize) (content f) = take (min start SectorSize) C"
      using pre(1) r(2) by (metis min.absorb1 min.coboundedI1 nless_le take_take)
    moreover have "mid = bslice start ?s (content f)"
      using assms(4) Some r(2) by (auto dest: file_ReadAt_Inr)
    then have "mid = bslice start ?s C"
      using pre(1) by (metis bslice_take order_refl)
    moreover have "bslice start ?s C @ drop ?s C = drop start C"
      using r(2) pre(2) by (metis bslice_append_adjacent bslice_to_end less_imp_le order_refl)
    ultimately show ?thesis
      using Some r by (simp add: journal_body_def id_pre journal_payload)
  qed
qed


lemma triple_with:
  "(A \<Longrightarrow> triple P m Q E) \<Longrightarrow> triple (\<lambda>s. P s \<and> A) m Q E"
  by (cases A) (simp_all add: triple_def)

lemma triple_write_undo:
  assumes "start \<le> length C" and old: "old_record C g old start" and whole: "whole g"
  defines "fin \<equiv> g\<lparr>journal := Some (journal_of C start), journal_maybe := journal g # journal_maybe g\<rparr>"
  shows "triple (\<lambda>f. core f = core g \<and> journal_tmp f = Some []) (write_undo old start (length C))
     (\<lambda>_ f. core f = core (fin\<lparr>journal_maybe := [], entry_dur := entry g\<rparr>))
     (\<lambda>f. core f = core g \<or> core f = core fin)"
    (is "triple ?P _ ?Q ?E")
proof -
  define stop where "stop = (case old of None \<Rightarrow> length C | Some r \<Rightarrow> ur_start r)"
  define rest where "rest = (case old of None \<Rightarrow> []
      | Some r \<Rightarrow> bslice undoHeaderSize (undoHeaderSize + (ur_size r - ur_start r)) (saved r))"
  define I where "I = (\<lambda>t f. core f = core g \<and> journal_tmp f = Some t)"
  have wr: "triple (I t) (tmp_write b) (\<lambda>_. I (t @ b)) ?E" for t b
    unfolding I_def by (rule triple_weaken [OF triple_tmp_write]) auto
  have sync: "triple (I t) tmp_Sync (\<lambda>_ f. I t f \<and> \<not> tmp_dirty f) ?E" for t
    unfolding I_def tmp_Sync_def by (rule triple_sys_op) auto
  have close: "triple (\<lambda>f. I t f \<and> \<not> tmp_dirty f) tmp_Close (\<lambda>_ f. I t f \<and> \<not> tmp_dirty f) ?E" for t
    unfolding I_def tmp_Close_def by (rule triple_sys_op) auto
  have rename: "triple (\<lambda>f. I (journal_of C start) f \<and> \<not> tmp_dirty f) rename_tmp (\<lambda>_ f. core f = core fin) ?E"
    unfolding I_def rename_tmp_def fin_def using whole by (intro triple_sys_op) (auto simp: core_def whole_def)
  have sp: "triple (\<lambda>f. core f = core fin) syncParent ?Q ?E"
    using whole by (intro triple_syncParent) (auto simp: core_def fin_def whole_def)
  have finish: "triple (I (journal_body C start @ sha256 (journal_body C start)))
      (seq tmp_Sync (seq tmp_Close (seq rename_tmp syncParent))) ?Q ?E"
    unfolding journal_of_def [symmetric] by (intro triple_seq [OF sync] triple_seq [OF close] triple_seq [OF rename] sp)
  have copies: "triple (I ((undo_header start (length C) idt @ mid) @ rest))
      (seq (tmp_write (sha256 (undo_header start (length C) idt @ mid @ rest)))
         (seq tmp_Sync (seq tmp_Close (seq rename_tmp syncParent)))) ?Q ?E"
    if "undoIdentity g start = Inr idt" "file_ReadAt g (stop - start) start = Inr mid" for idt mid
  proof -
    have "undo_header start (length C) idt @ mid @ rest = journal_body C start"
      using replacement_body [OF old assms(1) that(1)] that(2) unfolding stop_def rest_def by blast
    then show ?thesis using triple_seq [OF wr finish] by simp
  qed
  have body: "triple (I [])
      (seq (tmp_write (undo_header start (length C) idt))
        (bind (of_result (\<lambda>f. file_ReadAt f (stop - start) start)) (\<lambda>mid.
           seq (tmp_write mid) (seq (tmp_write rest)
           (seq (tmp_write (sha256 (undo_header start (length C) idt @ mid @ rest)))
           (seq tmp_Sync (seq tmp_Close (seq rename_tmp syncParent)))))))) ?Q ?E"
    if idt: "undoIdentity g start = Inr idt" for idt
  proof (rule triple_seq [OF wr], simp only: append_Nil, rule triple_bind)
    let ?h = "undo_header start (length C) idt"
    show "triple (I ?h) (of_result (\<lambda>f. file_ReadAt f (stop - start) start))
        (\<lambda>mid f. I ?h f \<and> file_ReadAt g (stop - start) start = Inr mid) ?E"
      by (rule triple_of_result) (auto simp: I_def dest: file_ReadAt_core)
    show "triple (\<lambda>f. I ?h f \<and> file_ReadAt g (stop - start) start = Inr mid)
        (seq (tmp_write mid) (seq (tmp_write rest) (seq (tmp_write (sha256 (?h @ mid @ rest)))
           (seq tmp_Sync (seq tmp_Close (seq rename_tmp syncParent)))))) ?Q ?E" for mid
      by (rule triple_with, rule triple_seq [OF wr], rule triple_seq [OF wr], erule copies [OF idt])
  qed
  show ?thesis
    unfolding write_undo_def Let_def stop_def [symmetric] rest_def [symmetric]
  proof (rule triple_bind)
    show "triple ?P (of_result (\<lambda>f. undoIdentity f start)) (\<lambda>idt f. I [] f \<and> undoIdentity g start = Inr idt) ?E"
      by (rule triple_of_result) (auto simp: I_def dest: undoIdentity_core)
    show "triple (\<lambda>f. I [] f \<and> undoIdentity g start = Inr idt)
       (if case old of None \<Rightarrow> False | Some r \<Rightarrow> identity r \<noteq> idt then raise identity_mismatch else
          seq (tmp_write (undo_header start (length C) idt))
        (bind (of_result (\<lambda>f. file_ReadAt f (stop - start) start)) (\<lambda>mid.
           seq (tmp_write mid) (seq (tmp_write rest)
           (seq (tmp_write (sha256 (undo_header start (length C) idt @ mid @ rest)))
           (seq tmp_Sync (seq tmp_Close (seq rename_tmp syncParent)))))))) ?Q ?E" for idt
      by (rule triple_with, rule triple_if, rule triple_raise, simp add: I_def, erule body)
  qed
qed

lemma old_record_core: "core f = core g \<Longrightarrow> old_record C f old start = old_record C g old start"
  by (cases old) (simp_all add: old_record_def keeps_from_def core_eq_iff)

lemma keeps_from_prefix:
  "keeps_from C f s \<Longrightarrow> start \<le> s \<Longrightarrow> keeps_from C f start"
  unfolding keeps_from_def by (metis min.absorb1 order_trans take_take)

text \<open>What the replacement of a journal ends in, when it succeeds and when it fails.\<close>

lemma triple_replace_undo:
  assumes "old_record C g old start" "baseline C g" "safe S g" "C \<in> S"
  shows "triple (\<lambda>f. core f = core g) (replace_undo old start)
     (\<lambda>_ f. guarded C start f \<and> same_data f g)
     (\<lambda>f. baseline C f \<and> safe S f \<and> same_data f g \<and> (\<forall>k. guarded C k g \<longrightarrow> guarded C k f))"
    (is "triple _ _ ?Q ?E")
proof -
  define fin where "fin = g\<lparr>journal := Some (journal_of C start), journal_maybe := journal g # journal_maybe g\<rparr>"
  have err0: "?E f" if "core f = core g" for f
    using that assms(2,3) core_congs [OF that] by (simp add: core_eq_iff same_data_def)
  have size: "(case old of None \<Rightarrow> length (content f) | Some r \<Rightarrow> ur_size r) = length C" if "core f = core g" for f
    using that assms(1) by (cases old) (auto simp: old_record_def core_eq_iff)
  have kf: "keeps_from C g start" if "start \<le> length C"
  proof (cases old)
    case None
    with assms(1) that show ?thesis by (simp add: old_record_def keeps_from_def)
  next
    case (Some r)
    with assms(1) have "keeps_from C g (ur_start r)" "start \<le> ur_start r" by (simp_all add: old_record_def)
    then show ?thesis by (rule keeps_from_prefix)
  qed
  have keep: "keeps D f u = keeps D g u" if "core f = core fin \<or> core f = core (fin\<lparr>journal_maybe := [], entry_dur := entry g\<rparr>)" for f u D
    using that by (intro keeps_cong) (auto simp: core_eq_iff fin_def)
  have whole: "whole g" using assms(3) by (simp add: safe_def)
  have ok: "?Q () f" if "core f = core (fin\<lparr>journal_maybe := [], entry_dur := entry g\<rparr>)" "start \<le> length C" for f
    using that kf whole by (auto simp: guarded_def whole_def core_eq_iff fin_def keeps_from_def same_data_def)
  have err1: "?E f" if "core f = core fin" "start \<le> length C" for f
  proof -
    have "keeps C g (Some (journal_of C start))" using kf that by (auto simp: keeps_Some)
    moreover have "keeps D f u = keeps D g u" for D u using keep that by blast
    moreover have j: "journal f = Some (journal_of C start)" "journal_maybe f = journal g # journal_maybe g"
      and sd: "same_data f g" and wf: "whole f"
      using that whole by (simp_all add: core_eq_iff fin_def same_data_def whole_def)
    moreover have "guarded C k f" if "guarded C k g" for k
    proof -
      have "start \<le> k"
      proof (cases old)
        case None
        with \<open>guarded C k g\<close> assms(1) show ?thesis by (auto simp: guarded_def old_record_def)
      next
        case (Some r)
        with assms(1) have r: "journal g = Some (journal_of C (ur_start r))" "keeps_from C g (ur_start r)" "start < ur_start r"
          by (simp_all add: old_record_def)
        with \<open>guarded C k g\<close> obtain x where "x \<le> k" "journal_of C (ur_start r) = journal_of C x" "keeps_from C g x"
          by (auto simp: guarded_def)
        with r show ?thesis using journal_of_inject_start [of C "ur_start r" x] by (simp add: keeps_from_def)
      qed
      moreover have "keeps_from C f x = keeps_from C g x" for x
        using sd by (simp add: keeps_from_def same_data_def)
      ultimately show ?thesis
        using \<open>guarded C k g\<close> kf [OF \<open>start \<le> length C\<close>] j wf by (auto simp: guarded_def)
    qed
    ultimately show ?thesis
      using assms(3,4) by (auto simp: baseline_def safe_def)
  qed
  show ?thesis
    unfolding replace_undo_def
  proof (rule triple_bind)
    show "triple (\<lambda>f. core f = core g) (gets (\<lambda>f. case old of None \<Rightarrow> length (content f) | Some r \<Rightarrow> ur_size r))
        (\<lambda>sz f. core f = core g \<and> sz = length C) ?E"
      using size by (intro triple_gets) simp
    show "triple (\<lambda>f. core f = core g \<and> sz = length C)
        (if sz < start then raise (Err ''undo start outside baseline size'')
         else seq tmp_create (defer_io (write_undo old start sz) (\<lambda>f. fst (remove_tmp f)))) ?Q ?E" for sz
    proof (rule triple_with, rule triple_if)
      show "triple (\<lambda>f. core f = core g) (raise (Err ''undo start outside baseline size'')) ?Q ?E"
        using err0 by (intro triple_raise)
      assume "sz = length C" "\<not> sz < start"
      then have sz: "sz = length C" "start \<le> length C" by simp_all
      show "triple (\<lambda>f. core f = core g) (seq tmp_create (defer_io (write_undo old start sz) (\<lambda>f. fst (remove_tmp f)))) ?Q ?E"
      proof (rule triple_seq [where R = "\<lambda>f. core f = core g \<and> journal_tmp f = Some []"])
        show "triple (\<lambda>f. core f = core g) tmp_create (\<lambda>_ f. core f = core g \<and> journal_tmp f = Some []) ?E"
          unfolding tmp_create_def by (rule triple_sys_op) (simp, rule err0, simp)
        show "triple (\<lambda>f. core f = core g \<and> journal_tmp f = Some [])
            (defer_io (write_undo old start sz) (\<lambda>f. fst (remove_tmp f))) ?Q ?E"
          unfolding sz(1)
        proof (rule triple_defer, rule triple_weaken [OF triple_write_undo [OF sz(2) assms(1) whole]], goal_cases)
          case (2 x f)
          then show ?case by (intro ok [OF _ sz(2)]) (simp add: triple_remove_tmp fin_def)
        next
          case (3 f)
          then consider "core (fst (remove_tmp f)) = core g" | "core (fst (remove_tmp f)) = core fin"
            by (auto simp: triple_remove_tmp fin_def)
          then show ?case by cases (erule err0, erule err1 [OF _ sz(2)])
        qed
      qed
    qed
  qed
qed

lemma openUndo_baseline:
  assumes "baseline C f" "length C < 2 ^ 63"
  shows "openUndo f = Inl ErrNotExist \<and> journal f = None \<or>
    (\<exists>start. journal f = Some (journal_of C start) \<and> keeps_from C f start \<and>
       openUndo f = Inr \<lparr>identity = sha256 (take (min start SectorSize) C), ur_start = start,
                        ur_size = length C, saved = journal_of C start\<rparr>)"
proof (cases "journal f")
  case None
  then show ?thesis by (simp add: openUndo_def)
next
  case (Some j)
  with assms(1) obtain start where "j = journal_of C start" "keeps_from C f start"
    by (auto simp: baseline_def keeps_Some)
  with Some assms(2) show ?thesis
    by (intro disjI2 exI [of _ start]) (simp add: openUndo_def parse_undo_journal_of keeps_from_def)
qed

lemma triple_saveUndo:
  assumes "baseline C g" "safe S g" "C \<in> S" "length C < 2 ^ 63"
  shows "triple (\<lambda>f. core f = core g) (saveUndo start)
     (\<lambda>_ f. guarded C start f \<and> same_data f g)
     (\<lambda>f. baseline C f \<and> safe S f \<and> same_data f g \<and> (\<forall>k. guarded C k g \<longrightarrow> guarded C k f))"
    (is "triple ?P _ ?Q ?E")
proof -
  have err0: "?E f" if "core f = core g" for f
    using that assms(1,2) core_congs [OF that] by (simp add: core_eq_iff same_data_def)
  have op: "openUndo f = openUndo g" if "core f = core g" for f
    using that by (simp add: openUndo_def core_eq_iff)
  let ?k = "\<lambda>r. case r of
         Inl e \<Rightarrow> if e = ErrNotExist then replace_undo None start else raise e
       | Inr old \<Rightarrow>
           if ur_start old \<le> start
           then bind (of_result (\<lambda>f. undoIdentity f (ur_start old))) (\<lambda>idt.
                  if idt \<noteq> identity old then raise identity_mismatch else syncParent)
           else replace_undo (Some old) start"
  have main: "triple ?P (?k (openUndo g)) ?Q ?E"
    using openUndo_baseline [OF assms(1,4)]
  proof (elim disjE exE conjE)
    assume "openUndo g = Inl ErrNotExist" "journal g = None"
    moreover from this assms have "old_record C g None start" by (simp add: old_record_def baseline_def)
    ultimately show ?thesis using triple_replace_undo [OF _ assms(1-3)] by simp
  next
    fix s
    assume s: "journal g = Some (journal_of C s)" "keeps_from C g s"
      "openUndo g = Inr \<lparr>identity = sha256 (take (min s SectorSize) C), ur_start = s, ur_size = length C, saved = journal_of C s\<rparr>"
    show ?thesis
    proof (cases "s \<le> start")
      case True
      have "triple ?P syncParent ?Q ?E"
      proof (rule triple_syncParent)
        show "?E f'" if "core f = core g" "core f' = core f" for f f'
          using that by (intro err0) simp
        show "?Q () f'" if "core f = core g" "core f' = core (f\<lparr>journal_maybe := [], maybe_dirty := False, entry_dur := entry f\<rparr>)" for f f'
          using True s(1,2) that assms(2) by (auto simp: guarded_def safe_def whole_def core_eq_iff keeps_from_def same_data_def)
      qed
      then have "triple (\<lambda>f. core f = core g)
         (bind (of_result (\<lambda>f. undoIdentity f s)) (\<lambda>idt.
            if idt \<noteq> sha256 (take (min s SectorSize) C) then raise identity_mismatch else syncParent)) ?Q ?E"
        by (intro triple_bind [where R = "\<lambda>_. ?P"] triple_of_result triple_if triple_raise)
           (assumption | erule err0)+
      with True s show ?thesis by simp
    next
      case False
      with s have "old_record C g (Some \<lparr>identity = sha256 (take (min s SectorSize) C), ur_start = s,
          ur_size = length C, saved = journal_of C s\<rparr>) start"
        by (simp add: old_record_def)
      from triple_replace_undo [OF this assms(1-3)] False s show ?thesis by simp
    qed
  qed
  show ?thesis
    unfolding saveUndo_def
  proof (rule triple_bind)
    show "triple ?P (gets openUndo) (\<lambda>r f. ?P f \<and> r = openUndo g) ?E"
      by (rule triple_gets) (blast intro: op)
    show "triple (\<lambda>f. ?P f \<and> r = openUndo g) (?k r) ?Q ?E" for r
      using main by (intro triple_with) (simp only:)
  qed
qed

section \<open>Changing guarded data\<close>

lemma keeps_from_put:
  assumes "keeps_from C f s" "s \<le> off"
  shows "keeps_from C (put_bytes b off f) s"
  using assms
  by (auto simp: keeps_from_def put_bytes_def touch_def take_write_bytes length_write_bytes Let_def split: option.splits)

lemma keeps_from_truncate:
  assumes "keeps_from C f s" "s \<le> n"
  shows "keeps_from C ((touch n f)\<lparr>content := resize (content f) n\<rparr>) s"
  using assms by (auto simp: keeps_from_def touch_def take_resize Let_def split: option.splits)

lemma journal_put [simp]:
  "journal (put_bytes b off f) = journal f" "journal_maybe (put_bytes b off f) = journal_maybe f"
  by (simp_all add: put_bytes_def touch_def Let_def)

lemma whole_put [simp]: "whole (put_bytes b off f) = whole f" "whole ((touch n f)\<lparr>content := d\<rparr>) = whole f"
  by (simp_all add: whole_def put_bytes_def touch_def Let_def)

lemma guarded_put: "guarded C k f \<Longrightarrow> k \<le> off \<Longrightarrow> guarded C k (put_bytes b off f)"
  unfolding guarded_def journal_put whole_put by (meson keeps_from_put order_trans)

lemma guarded_truncate:
  assumes "guarded C k f" "k \<le> n"
  shows "guarded C k ((touch n f)\<lparr>content := resize (content f) n\<rparr>)"
proof -
  have "keeps_from C ((touch n f)\<lparr>content := resize (content f) n\<rparr>) s" if "keeps_from C f s" "s \<le> k" for s
    using that assms(2) by (intro keeps_from_truncate) simp_all
  moreover have "journal ((touch n f)\<lparr>content := resize (content f) n\<rparr>) = journal f"
    "journal_maybe ((touch n f)\<lparr>content := resize (content f) n\<rparr>) = journal_maybe f"
    by (simp_all add: touch_def Let_def)
  ultimately show ?thesis
    using assms(1) unfolding guarded_def whole_put by (metis (no_types, lifting))
qed

lemma file_WriteAt_cases:
  assumes "file_WriteAt b off f = (f', n, e)"
  obtains (full) rs where "f' = put_bytes b off (f\<lparr>faults := rs\<rparr>)" "n = length b" "e = None"
  | (part) rs m where "f' = put_bytes (take m b) off (f\<lparr>faults := rs\<rparr>)" "n = min m (length b)"
      "e = None \<or> e = Some ErrIO"
proof -
  obtain r g where n: "next_io f = (r, g)" by force
  then obtain rs where g: "g = f\<lparr>faults := rs\<rparr>" using next_io_eq by blast
  show ?thesis
  proof (cases r)
    case IoOk
    with assms n g show ?thesis by (intro full [of rs]) (simp_all add: file_WriteAt_def)
  next
    case (IoErr m)
    with assms n g show ?thesis by (intro part [of m rs]) (simp_all add: file_WriteAt_def)
  next
    case (IoShort m)
    with assms n g show ?thesis by (intro part [of m rs]) (simp_all add: file_WriteAt_def)
  qed
qed

lemma guarded_WriteAt:
  assumes "guarded C k f" "k \<le> off" "file_WriteAt b off f = (f', n, e)"
  shows "guarded C k f'"
proof -
  have "guarded C k (f\<lparr>faults := rs\<rparr>)" for rs
    using assms(1) guarded_core [of "f\<lparr>faults := rs\<rparr>" f] by simp
  with assms show ?thesis by (auto elim!: file_WriteAt_cases intro: guarded_put)
qed

lemma triple_file_Truncate:
  assumes "k \<le> n"
  shows "triple (guarded C k) (file_Truncate n) (\<lambda>_. guarded C k) (guarded C k)"
  unfolding file_Truncate_def
proof (rule triple_sys_op)
  fix f rs
  assume "guarded C k f"
  then have g: "guarded C k (f\<lparr>faults := rs\<rparr>)"
    using guarded_core [of "f\<lparr>faults := rs\<rparr>" f] by simp
  then show "guarded C k (f\<lparr>faults := rs\<rparr>)" .
  show "guarded C k (if n = length (content (f\<lparr>faults := rs\<rparr>)) then f\<lparr>faults := rs\<rparr>
      else (touch n (f\<lparr>faults := rs\<rparr>))\<lparr>content := resize (content (f\<lparr>faults := rs\<rparr>)) n\<rparr>)"
    using g guarded_truncate [OF g assms] by simp
qed

lemma content_Truncate:
  "file_Truncate n f = (f', Inr ()) \<Longrightarrow> content f' = resize (content f) n"
  unfolding file_Truncate_def by (auto elim!: sys_op_cases simp: touch_def Let_def)

section \<open>Restoring\<close>

text \<open>The state in which a journal has been replayed and retired.\<close>

definition settled :: "bytes \<Rightarrow> pfile \<Rightarrow> bool" where
  "settled C f \<longleftrightarrow> content f = C \<and> dirty_from f = None \<and> journal f = None \<and> journal_maybe f = []
     \<and> whole f \<and> entry_dur f = entry f"

lemma settled_safe: "settled C f \<Longrightarrow> baseline C f \<and> safe {C} f"
  by (simp add: settled_def baseline_def safe_def)

text \<open>Data replaced but the journal not yet retired.\<close>

definition retiring :: "bytes \<Rightarrow> pfile \<Rightarrow> bool" where
  "retiring C f \<longleftrightarrow> baseline C f \<and> safe {C} f \<and> content f = C \<and> dirty_from f = None"

lemma retiring_core: "core f = core g \<Longrightarrow> retiring C f = retiring C g"
  using core_congs [of f g] by (simp add: retiring_def core_eq_iff)

lemma triple_retire_sync:
  "triple (\<lambda>f. retiring C f \<and> journal f = None) syncParent (\<lambda>_. settled C) (\<lambda>f. baseline C f \<and> safe {C} f)"
proof (rule triple_syncParent)
  fix f f'
  assume f: "retiring C f \<and> journal f = None"
  show "baseline C f' \<and> safe {C} f'" if "core f' = core f"
    using f core_congs [OF that] by (simp add: retiring_def)
  show "settled C f'" if "core f' = core (f\<lparr>journal_maybe := [], maybe_dirty := False, entry_dur := entry f\<rparr>)"
    using f that by (simp add: retiring_def settled_def safe_def whole_def core_eq_iff)
qed

lemma triple_retire:
  "triple (\<lambda>f. retiring C f \<and> journal f \<noteq> None) (seq remove_journal syncParent)
     (\<lambda>_. settled C) (\<lambda>f. baseline C f \<and> safe {C} f)"
proof (rule triple_seq [OF _ triple_retire_sync], rule tripleI)
  fix f f'
  assume f: "retiring C f \<and> journal f \<noteq> None"
  have cong: "keeps D (f\<lparr>faults := rs, journal := u, journal_maybe := us, journal_dirty := a, maybe_dirty := b\<rparr>) v = keeps D f v"
    for rs u us v D a b
    by (rule keeps_cong) simp_all
  show "retiring C f' \<and> journal f' = None" if "remove_journal f = (f', Inr x)" for x
    using that f unfolding remove_journal_def
    by (auto elim!: sys_op_cases simp: retiring_def baseline_def safe_def whole_def cong)
  show "baseline C f' \<and> safe {C} f'" if "remove_journal f = (f', Inl e)" for e
    using that f unfolding remove_journal_def
    by (auto elim!: sys_op_cases simp: retiring_def core_congs [OF core_faults])
qed

lemma copy_back_ok:
  assumes "keeps_from C f s" "ur_start r = s" "ur_size r = length C" "saved r = journal_of C s"
    and "copy_back r f = (f', Inr ())"
  shows "resize (content f') (length C) = C"
proof (cases "length C = s")
  case True
  with assms have "f' = f" "take s (content f) = C" "s \<le> length (content f)"
    by (auto simp: copy_back_def keeps_from_def)
  with True show ?thesis by (simp add: resize_shrink)
next
  case False
  let ?b = "drop s C"
  have s: "s \<le> length C" "s \<le> length (content f)" "take s (content f) = take s C" "?b \<noteq> []"
    using assms(1) False by (auto simp: keeps_from_def)
  have pay: "bslice undoHeaderSize (undoHeaderSize + (ur_size r - ur_start r)) (saved r) = ?b"
    using assms by (simp add: journal_payload)
  obtain g n e where w: "file_WriteAt ?b s f = (g, n, e)" by (metis surj_pair)
  with assms(2-5) False pay have "f' = g" "e = None" "\<not> n < length C - s"
    by (auto simp: copy_back_def split: option.splits if_splits)
  with w have "content f' = write_bytes (content f) s ?b"
    by (elim file_WriteAt_cases) (auto simp: put_bytes_def s(4) min_def split: if_splits)
  with s show ?thesis
    by (simp add: write_bytes_inside resize_def)
qed

lemma guarded_copy_back:
  assumes "guarded C k f" "k \<le> ur_start r" "copy_back r f = (f', x)"
  shows "guarded C k f'"
  using assms guarded_WriteAt [OF assms(1,2)]
  by (auto simp: copy_back_def split: if_splits prod.splits option.splits)

lemma guarded_of_baseline:
  "whole f \<Longrightarrow> journal_maybe f = [] \<Longrightarrow> journal f = Some (journal_of C s) \<Longrightarrow> keeps_from C f s \<Longrightarrow> guarded C s f"
  by (auto simp: guarded_def)

lemma triple_replay:
  assumes "ur_start r = s" "ur_size r = length C" "saved r = journal_of C s" and sC: "s \<le> length C"
  shows "triple (\<lambda>f. guarded C s f \<and> journal f = Some (journal_of C s) \<and> keeps_from C f s)
     (seq (copy_back r) (seq (file_Truncate (ur_size r)) (seq file_Sync (seq remove_journal syncParent))))
     (\<lambda>_. settled C) (\<lambda>f. baseline C f \<and> safe {C} f)"
    (is "triple ?P _ _ ?E")
proof (rule triple_seq)
  let ?R = "\<lambda>f. guarded C s f \<and> resize (content f) (length C) = C"
  show "triple ?P (copy_back r) (\<lambda>_. ?R) ?E"
  proof (rule tripleI)
    show "?R f'" if "?P f" "copy_back r f = (f', Inr x)" for f f' x
      using that assms copy_back_ok [of C f s r f'] guarded_copy_back [of C s f r f'] by simp
    show "?E f'" if "?P f" "copy_back r f = (f', Inl e)" for f f' e
      using that assms guarded_copy_back [of C s f r f'] guarded_imp by simp
  qed
  let ?T = "\<lambda>f. guarded C s f \<and> content f = C"
  have trunc: "triple ?R (file_Truncate (length C)) (\<lambda>_. ?T) ?E"
  proof (rule tripleI)
    show "?T f'" if "?R f" "file_Truncate (length C) f = (f', Inr x)" for f f' x
      using that content_Truncate [of "length C" f f'] tripleD_ok [OF triple_file_Truncate [OF sC, of C], of f f']
      by auto
    show "?E f'" if "?R f" "file_Truncate (length C) f = (f', Inl e)" for f f' e
      using that guarded_imp tripleD_err [OF triple_file_Truncate [OF sC]] by metis
  qed
  have sync: "triple ?T file_Sync (\<lambda>_ f. retiring C f \<and> journal f \<noteq> None) ?E"
    unfolding file_Sync_def
  proof (rule triple_sys_op)
    fix f rs
    assume f: "?T f"
    let ?g = "(f\<lparr>faults := rs\<rparr>)\<lparr>dirty_from := None\<rparr>"
    have "keeps_from C ?g x" if "keeps_from C f x" for x
      using that by (simp add: keeps_from_def)
    moreover have "journal ?g = journal f" "journal_maybe ?g = journal_maybe f" "whole ?g = whole f" by (simp_all add: whole_def)
    ultimately have g: "guarded C s ?g" using f unfolding guarded_def by (metis (no_types, lifting))
    show "retiring C ((f\<lparr>faults := rs\<rparr>)\<lparr>dirty_from := None\<rparr>) \<and>
        journal ((f\<lparr>faults := rs\<rparr>)\<lparr>dirty_from := None\<rparr>) \<noteq> None"
      using f guarded_imp [OF g] g by (auto simp: retiring_def guarded_def)
    show "?E (f\<lparr>faults := rs\<rparr>)"
      using f guarded_imp core_congs [OF core_faults] by blast
  qed
  show "triple ?R (seq (file_Truncate (ur_size r)) (seq file_Sync (seq remove_journal syncParent))) (\<lambda>_. settled C) ?E"
    unfolding assms(2) by (intro triple_seq [OF trunc] triple_seq [OF sync] triple_retire)
qed

lemma triple_restoreUndo:
  assumes "length C < 2 ^ 63"
  shows "triple (\<lambda>f. baseline C f \<and> journal_maybe f = [] \<and> whole f) restoreUndo
     (\<lambda>_. settled C) (\<lambda>f. baseline C f \<and> safe {C} f)"
    (is "triple ?P _ ?Q ?E")
proof -
  have E: "?E f" if "?P f" for f using that by (simp add: safe_alone)
  have none: "triple (\<lambda>f. ?P f \<and> journal f = None) syncParent ?Q ?E"
    by (rule triple_pre [OF triple_retire_sync]) (auto simp: retiring_def safe_alone baseline_def)
  have "(case restoreUndo f of (f', Inr x) \<Rightarrow> ?Q x f' | (f', Inl e) \<Rightarrow> ?E f')" if P: "?P f" for f
    using openUndo_baseline [OF conjunct1 [OF P] assms]
  proof (elim disjE exE conjE)
    assume o: "openUndo f = Inl ErrNotExist" "journal f = None"
    then have "restoreUndo f = syncParent f" by (simp add: restoreUndo_def gets_def bind_def)
    with none P o(2) show ?thesis by (simp add: triple_def)
  next
    fix s
    let ?r = "\<lparr>identity = sha256 (take (min s SectorSize) C), ur_start = s, ur_size = length C, saved = journal_of C s\<rparr>"
    assume s: "journal f = Some (journal_of C s)" "keeps_from C f s" "openUndo f = Inr ?r"
    let ?replay = "seq (copy_back ?r) (seq (file_Truncate (length C)) (seq file_Sync (seq remove_journal syncParent)))"
    have "restoreUndo f = (case undoIdentity f s of Inl e \<Rightarrow> (f, Inl e)
       | Inr idt \<Rightarrow> (if idt \<noteq> sha256 (take (min s SectorSize) C) then (f, Inl identity_mismatch) else ?replay f))"
      using s(3) by (simp add: restoreUndo_def gets_def bind_def of_result_def raise_def split: sum.splits)
    moreover have "case ?replay f of (f', Inr x) \<Rightarrow> ?Q x f' | (f', Inl e) \<Rightarrow> ?E f'"
      using triple_replay [of ?r s C] s P by (simp add: triple_def keeps_from_def guarded_of_baseline)
    ultimately show ?thesis using E [OF P] by (simp split: sum.splits)
  qed
  then show ?thesis by (simp add: triple_def)
qed

text \<open>Replay cannot fail for a reason of its own: it succeeds on a readable file when the calls do.\<close>

lemma sys_op_no_faults: "faults f = [] \<Longrightarrow> sys_op g f = (g f, Inr ())"
  by (simp add: sys_op_def next_io_def)

lemma syncParent_no_faults:
  "faults f = [] \<Longrightarrow> syncParent f = (f\<lparr>journal_maybe := [], maybe_dirty := False, entry_dur := entry f\<rparr>, Inr ())"
  by (simp add: syncParent_def seq_def bind_def sys_op_no_faults)

lemma faults_touch [simp]: "faults (touch n f) = faults f" "journal (touch n f) = journal f"
  by (simp_all add: touch_def Let_def)

lemma faults_put [simp]: "faults (put_bytes b off f) = faults f"
  by (simp add: put_bytes_def)

lemma copy_back_no_faults:
  assumes "faults f = []" "length (saved r) \<ge> undoHeaderSize + (ur_size r - ur_start r)"
  shows "\<exists>g. copy_back r f = (g, Inr ()) \<and> faults g = [] \<and> journal g = journal f"
  using assms by (auto simp: copy_back_def file_WriteAt_def next_io_def bslice_def)

lemma restoreUndo_succeeds:
  assumes "length C < 2 ^ 63" "baseline C f" "journal_maybe f = []" "faults f = []"
    and readable: "\<forall>i < SectorSize. \<not> unreadable f i"
  shows "\<exists>f'. restoreUndo f = (f', Inr ()) \<and> content f' = C \<and> dirty_from f' = None \<and> journal f' = None \<and> journal_maybe f' = []"
  using openUndo_baseline [OF assms(2,1)]
proof (elim disjE exE conjE)
  assume "openUndo f = Inl ErrNotExist" "journal f = None"
  with assms show ?thesis by (simp add: restoreUndo_def gets_def bind_def syncParent_no_faults baseline_def)
next
  fix s
  let ?r = "\<lparr>identity = sha256 (take (min s SectorSize) C), ur_start = s, ur_size = length C, saved = journal_of C s\<rparr>"
  assume s: "journal f = Some (journal_of C s)" "keeps_from C f s" "openUndo f = Inr ?r"
  have "file_ReadAt f (min s SectorSize) 0 = Inr (take (min s SectorSize) C)"
  proof -
    have "\<not> list_ex (unreadable f) [0..<min s SectorSize]"
      using readable by (auto simp: list_ex_iff)
    moreover have "take (min s SectorSize) (content f) = take (min s SectorSize) C"
      using s(2) unfolding keeps_from_def by (metis min.cobounded1 min.absorb1 take_take)
    ultimately show ?thesis
      using s(2) by (auto simp: file_ReadAt_def bslice_0 keeps_from_def)
  qed
  then have idt: "undoIdentity f s = Inr (sha256 (take (min s SectorSize) C))"
    by (simp add: undoIdentity_def)
  obtain g where g: "copy_back ?r f = (g, Inr ())" "faults g = []" "journal g = journal f"
    using copy_back_no_faults [OF assms(4), of ?r] by auto
  have "resize (content g) (length C) = C" using copy_back_ok [OF s(2) _ _ _ g(1)] by simp
  then have "\<exists>h. file_Truncate (length C) g = (h, Inr ()) \<and> content h = C \<and> faults h = [] \<and> journal h = journal f"
    using g(2,3) unfolding file_Truncate_def sys_op_no_faults [OF g(2)] by auto
  then obtain h where h: "file_Truncate (length C) g = (h, Inr ())" "content h = C" "faults h = []" "journal h = journal f"
    by blast
  have "restoreUndo f = seq file_Sync (seq remove_journal syncParent) h"
    using s(3) idt g(1) h(1) by (simp add: restoreUndo_def gets_def bind_def of_result_def seq_def split: prod.split sum.split)
  then show ?thesis using h(2-4) s(1)
    by (simp add: file_Sync_def remove_journal_def seq_def bind_def sys_op_no_faults syncParent_no_faults)
qed

section \<open>Committing and removing\<close>

lemma triple_commitUndo:
  assumes "baseline B g" "safe S g"
  shows "triple (\<lambda>f. core f = core g) commitUndo
     (\<lambda>_. settled (content g))
     (\<lambda>f. safe (insert (content g) S) f \<and> content f = content g \<and> unreadable f = unreadable g \<and>
          (baseline B f \<or> baseline (content g) f \<and> journal f = None))"
    (is "triple ?P _ ?Q ?E")
proof -
  let ?d = "content g"
  define I where "I = (\<lambda>f. content f = ?d \<and> unreadable f = unreadable g \<and> dirty_from f = None \<and>
     safe (insert ?d S) f \<and> (baseline B f \<or> baseline ?d f \<and> journal f = None))"
  have I_core: "I f = I h" if "core f = core h" for f h
    using core_congs [OF that] that by (simp add: I_def core_eq_iff)
  have sync: "triple ?P file_Sync (\<lambda>_. I) ?E"
    unfolding file_Sync_def
  proof (rule triple_sys_op)
    fix f rs
    assume f: "core f = core g"
    have keeps: "keeps C ((f\<lparr>faults := rs\<rparr>)\<lparr>dirty_from := None\<rparr>) u" if "keeps C f u" for C u
      using that by (cases u) (auto simp: keeps_Some keeps_from_def)
    have bs: "baseline B f" "safe S f" using assms core_congs [OF f] by simp_all
    show "I ((f\<lparr>faults := rs\<rparr>)\<lparr>dirty_from := None\<rparr>)"
      using f bs keeps by (fastforce simp: I_def baseline_def safe_def whole_def core_eq_iff)
    show "?E (f\<lparr>faults := rs\<rparr>)"
      using f bs core_congs [OF core_faults [of rs f]] safe_mono [OF bs(2) subset_insertI [of S ?d]]
      by (auto simp: core_eq_iff)
  qed
  have ret: "triple (\<lambda>f. I f \<and> journal f = None) syncParent ?Q ?E"
  proof (rule triple_syncParent)
    fix f f'
    assume f: "I f \<and> journal f = None"
    show "?E f'" if "core f' = core f"
    proof -
      have "I f'" using f I_core [OF that] by simp
      then show ?thesis by (simp add: I_def)
    qed
    show "?Q () f'" if "core f' = core (f\<lparr>journal_maybe := [], maybe_dirty := False, entry_dur := entry f\<rparr>)"
      using f that by (simp add: I_def settled_def safe_def whole_def core_eq_iff)
  qed
  have rm: "I f' \<and> journal f' = None" if "I f" "remove_journal f = (f', Inr x)" for f f' x
  proof -
    have cong: "keeps D (f\<lparr>faults := rs, journal := u, journal_maybe := us, journal_dirty := a, maybe_dirty := b\<rparr>) v = keeps D f v"
    for rs u us v D a b
      by (rule keeps_cong) simp_all
    show ?thesis
      using that unfolding remove_journal_def
      by (auto elim!: sys_op_cases split: if_splits simp: I_def baseline_def safe_def whole_def cong)
  qed
  have rm_err: "I f' \<and> (e = ErrNotExist \<longrightarrow> journal f' = None)" if "I f" "remove_journal f = (f', Inl e)" for f f' e
    using that I_core [OF core_faults] unfolding remove_journal_def
    by (auto elim!: sys_op_cases split: if_splits)
  show ?thesis
    unfolding commitUndo_def
  proof (rule triple_seq [OF sync], unfold triple_def, intro allI impI)
    fix f
    assume "I f"
    obtain f1 r where r: "remove_journal f = (f1, r)" by force
    show "case (case remove_journal f of
         (f, Inl e) \<Rightarrow> if e = ErrNotExist then syncParent f else (f, Inl e)
       | (f, Inr _) \<Rightarrow> syncParent f) of (s', Inr x) \<Rightarrow> ?Q x s' | (s', Inl e) \<Rightarrow> ?E s'"
    proof (cases r)
      case (Inl e)
      with rm_err [OF \<open>I f\<close>] r have "I f1" "e = ErrNotExist \<longrightarrow> journal f1 = None" by auto
      then show ?thesis using r Inl ret by (auto simp: triple_def I_def)
    next
      case (Inr x)
      with rm [OF \<open>I f\<close>] r have "I f1 \<and> journal f1 = None" by auto
      then show ?thesis using r Inr ret by (simp add: triple_def)
    qed
  qed
qed

lemma discardUndoTemp_core:
  assumes "discardUndoTemp f = (f', r)" "settled C f"
  shows "settled C f' \<and> unreadable f' = unreadable f \<and> entry f' = entry f"
proof -
  obtain f1 r1 where rt: "remove_tmp f = (f1, r1)" by force
  then have c: "core f1 = core f" using triple_remove_tmp [of f] by simp
  have "triple (\<lambda>h. core h = core f) syncParent (\<lambda>_ h. settled C h \<and> unreadable h = unreadable f \<and> entry h = entry f)
      (\<lambda>h. settled C h \<and> unreadable h = unreadable f \<and> entry h = entry f)"
    using assms(2) by (intro triple_syncParent) (auto simp: settled_def whole_def core_eq_iff)
  with c have "case syncParent f1 of (h, Inr _) \<Rightarrow> settled C h \<and> unreadable h = unreadable f \<and> entry h = entry f
      | (h, Inl _) \<Rightarrow> settled C h \<and> unreadable h = unreadable f \<and> entry h = entry f"
    by (simp add: triple_def)
  with assms rt c show ?thesis
    by (auto simp: discardUndoTemp_def core_eq_iff settled_def whole_def split: sum.splits if_splits prod.splits)
qed

section \<open>Transactions, crashes and recovery\<close>

text \<open>Changes a client makes to the data file once the journal protects it; errors do not stop them.\<close>

datatype mutation = WriteData bytes nat | TruncateData nat

fun above :: "nat \<Rightarrow> mutation \<Rightarrow> bool" where
  "above k (WriteData b off) = (k \<le> off)"
| "above k (TruncateData n) = (k \<le> n)"

fun mutate :: "mutation \<Rightarrow> pfile \<Rightarrow> pfile" where
  "mutate (WriteData b off) f = fst (file_WriteAt b off f)"
| "mutate (TruncateData n) f = fst (file_Truncate n f)"

text \<open>An attempt to open the file that fails, followed by a power failure.\<close>

inductive failed_attempt :: "pfile \<Rightarrow> pfile \<Rightarrow> bool" where
  "restoreUndo f = (f', Inl e) \<Longrightarrow> crash f' f'' \<Longrightarrow> failed_attempt f f''"

text \<open>\<open>recovered f d\<close>: after a power failure in state \<open>f\<close> and any number of failed attempts, a replay that succeeds gives content \<open>d\<close>.\<close>

definition recovered :: "pfile \<Rightarrow> bytes \<Rightarrow> bool" where
  "recovered f d \<longleftrightarrow>
     (\<exists>f0 g h. crash f f0 \<and> failed_attempt\<^sup>*\<^sup>* f0 g \<and> restoreUndo g = (h, Inr ()) \<and> d = content h)"

lemma guarded_mutate: "guarded C k f \<Longrightarrow> above k m \<Longrightarrow> guarded C k (mutate m f)"
proof (cases m)
  case (WriteData b off)
  assume "guarded C k f" "above k m"
  with WriteData show ?thesis
    using guarded_WriteAt [of C k f off b "fst (file_WriteAt b off f)"] by (cases "file_WriteAt b off f") auto
next
  case (TruncateData n)
  assume "guarded C k f" "above k m"
  with TruncateData triple_file_Truncate [of k n C] show ?thesis
    by (cases "file_Truncate n f") (auto simp: triple_def split: sum.splits)
qed

lemma guarded_fold: "guarded C k f \<Longrightarrow> list_all (above k) ms \<Longrightarrow> guarded C k (fold mutate ms f)"
  by (induction ms arbitrary: f) (auto simp: guarded_mutate)

lemma attempts_keep:
  assumes "failed_attempt\<^sup>*\<^sup>* f g" "baseline C f" "journal_maybe f = [] \<and> whole f" "length C < 2 ^ 63"
  shows "baseline C g \<and> journal_maybe g = [] \<and> whole g"
  using assms(1)
proof (induction rule: rtranclp_induct)
  case base
  with assms show ?case by simp
next
  case (step g h)
  from step(2) obtain f' e where "restoreUndo g = (f', Inl e)" "crash f' h"
    by (auto elim: failed_attempt.cases)
  moreover from this step(3) have "safe {C} f'"
    using tripleD_err [OF triple_restoreUndo [OF assms(4)]] by blast
  ultimately show ?case using safe_crash [of "{C}" f' h] crash_whole [of f' h] by (auto simp: crash_def)
qed

lemma recovered_safe:
  assumes "safe S f" "recovered f d" "\<forall>C \<in> S. length C < 2 ^ 63"
  shows "d \<in> S"
proof -
  from assms(2) obtain f0 g h where c: "crash f f0" "failed_attempt\<^sup>*\<^sup>* f0 g" "restoreUndo g = (h, Inr ())" "d = content h"
    by (auto simp: recovered_def)
  from safe_crash [OF assms(1) c(1)] obtain C where C: "C \<in> S" "baseline C f0" by blast
  with assms(3) c(1,2) have "baseline C g \<and> journal_maybe g = [] \<and> whole g"
    using crash_whole [OF c(1)] by (intro attempts_keep [of f0]) (auto simp: crash_def)
  with c(3) assms(3) C(1) have "settled C h"
    using tripleD_ok [OF triple_restoreUndo [of C]] by blast
  with c(4) C(1) show ?thesis by (simp add: settled_def)
qed

lemma settled_saveUndo:
  assumes "settled C f" "length C < 2 ^ 63" "saveUndo k f = (f', r)"
  shows "if r = Inr () then guarded C k f' else safe {C} f'"
proof -
  have "triple (\<lambda>h. core h = core f) (saveUndo k)
     (\<lambda>_ h. guarded C k h \<and> same_data h f)
     (\<lambda>h. baseline C h \<and> safe {C} h \<and> same_data h f \<and> (\<forall>k. guarded C k f \<longrightarrow> guarded C k h))"
    using settled_safe [OF assms(1)] assms(2) by (intro triple_saveUndo) auto
  with assms(3) show ?thesis
    by (cases r) (auto simp: triple_def dest!: spec [of _ f])
qed

text \<open>Recovery is always possible: a crash that loses nothing on a sound medium can be replayed.\<close>

lemma recovered_exists:
  assumes "safe S f" "\<forall>C \<in> S. length C < 2 ^ 63"
  shows "\<exists>d. recovered f d"
proof -
  define f0 where "f0 = f\<lparr>entry_dur := entry f, dirty_from := None, journal_maybe := [], journal_dirty := False, maybe_dirty := False,
      unreadable := (\<lambda>_. False), faults := []\<rparr>"
  have c: "crash f f0"
    by (cases "dirty_from f") (auto simp: crash_def crash_content_def f0_def)
  with safe_crash [OF assms(1)] obtain C where "C \<in> S" "baseline C f0" by blast
  with assms(2) have "\<exists>h. restoreUndo f0 = (h, Inr ())"
    using restoreUndo_succeeds [of C f0] by (auto simp: f0_def)
  with c show ?thesis by (auto simp: recovered_def)
qed

section \<open>Properties\<close>

text \<open>
  C7. rollback. A client that journals a settled file from offset \<open>k\<close> with \<^verbatim>\<open>saveUndo\<close> and, only
  if that succeeded, writes and truncates at or above \<open>k\<close>, can lose power at any point, with any
  of the calls failing and unsynced data scrambled: whenever a later \<^verbatim>\<open>restoreUndo\<close> succeeds, after
  any number of attempts that failed or were interrupted themselves, the file has its original
  content again.
\<close>

theorem undo_rollback:
  assumes "settled C f" "length C < 2 ^ 63" "saveUndo k f = (f1, r)"
    and "list_all (above k) ms"
    and "recovered (if r = Inr () then fold mutate ms f1 else f1) d"
  shows "d = C"
proof -
  have "safe {C} (if r = Inr () then fold mutate ms f1 else f1)"
    using settled_saveUndo [OF assms(1-3)] guarded_fold [OF _ assms(4), of C f1] guarded_imp
    by (auto split: if_splits)
  from recovered_safe [OF this assms(5)] assms(2) show ?thesis by simp
qed

text \<open>
  C8. commit is atomic. If the same client then retires the journal with \<^verbatim>\<open>commitUndo\<close>, a power
  failure afterwards recovers the original or the new content and nothing else, and only the new
  content once \<^verbatim>\<open>commitUndo\<close> has reported success.
\<close>

theorem undo_commit_atomic:
  assumes "settled C f" "length C < 2 ^ 63" "saveUndo k f = (f1, Inr ())"
    and "list_all (above k) ms" "f2 = fold mutate ms f1" "length (content f2) < 2 ^ 63"
    and "commitUndo f2 = (f3, r)" "recovered f3 d"
  shows "if r = Inr () then d = content f2 else d = C \<or> d = content f2"
proof -
  have g: "guarded C k f2"
    using settled_saveUndo [OF assms(1-3)] guarded_fold [OF _ assms(4), of C f1] assms(5) by simp
  have t: "triple (\<lambda>h. core h = core f2) commitUndo
     (\<lambda>_. settled (content f2))
     (\<lambda>h. safe (insert (content f2) {C}) h \<and> content h = content f2 \<and> unreadable h = unreadable f2 \<and>
          (baseline C h \<or> baseline (content f2) h \<and> journal h = None))"
    using guarded_imp [OF g] by (intro triple_commitUndo) auto
  show ?thesis
  proof (cases "r = Inr ()")
    case True
    with t assms(7) have "settled (content f2) f3" by (auto simp: triple_def dest!: spec [of _ f2])
    then have "safe {content f2} f3" using settled_safe by blast
    from recovered_safe [OF this assms(8)] assms(6) True show ?thesis by simp
  next
    case False
    with t assms(7) have "safe (insert (content f2) {C}) f3"
      by (cases r) (auto simp: triple_def dest!: spec [of _ f2])
    from recovered_safe [OF this assms(8)] assms(2,6) False show ?thesis by auto
  qed
qed

text \<open>
  C11. replay makes progress. From any state a crash can leave in which the baseline \<open>C\<close> is kept,
  \<^verbatim>\<open>restoreUndo\<close> succeeds when its own calls do and the superblock sector is readable, and it
  leaves the baseline content, durable, with the journal gone.
\<close>

theorem restoreUndo_succeeds_on_kept:
  assumes "baseline C f" "journal_maybe f = []" "faults f = []" "length C < 2 ^ 63"
    and "\<forall>i < SectorSize. \<not> unreadable f i"
  shows "\<exists>f'. restoreUndo f = (f', Inr ()) \<and> content f' = C \<and> dirty_from f' = None
     \<and> journal f' = None \<and> journal_maybe f' = []"
  by (rule restoreUndo_succeeds [OF assms(4,1-3,5)])

definition sample_file :: pfile where
  "sample_file =
     \<lparr>entry = True, entry_dur = True, content = [1, 2, 3], unreadable = (\<lambda>_. False), dirty_from = None,
      journal = None, journal_maybe = [], journal_tmp = None, tmp_dirty = False, journal_dirty = False, maybe_dirty = False, faults = []\<rparr>"


lemma sample_file_settled: "settled [1, 2, 3] sample_file"
  by (simp add: settled_def whole_def sample_file_def)

lemma sample_file_saved:
  "\<exists>f1. saveUndo 1 sample_file = (f1, Inr ()) \<and> faults f1 = [] \<and> content f1 = [1, 2, 3]"
  by (simp add: saveUndo_def replace_undo_def write_undo_def gets_def bind_def openUndo_def sample_file_def
      seq_def tmp_create_def defer_io_def of_result_def undoIdentity_def file_ReadAt_def tmp_write_def
      next_io_def sys_op_def tmp_Sync_def tmp_Close_def rename_tmp_def syncParent_def remove_tmp_def SectorSize_def Let_def)

theorem undo_rollback_witness:
  "\<exists>f1 d. saveUndo 1 sample_file = (f1, Inr ()) \<and>
     recovered (fold mutate [WriteData [9, 9, 9] 1, TruncateData 2] f1) d \<and> d = [1, 2, 3]"
proof -
  obtain f1 where f1: "saveUndo 1 sample_file = (f1, Inr ())" using sample_file_saved by blast
  let ?ms = "[WriteData [9, 9, 9] 1, TruncateData 2]"
  have "guarded [1, 2, 3] 1 f1" using settled_saveUndo [OF sample_file_settled _ f1] by simp
  then have "safe {[1, 2, 3]} (fold mutate ?ms f1)"
    using guarded_fold [of _ 1 f1 ?ms] guarded_imp by force
  then obtain d where d: "recovered (fold mutate ?ms f1) d"
    using recovered_exists by force
  have "d = [1, 2, 3]"
    by (rule undo_rollback [OF sample_file_settled _ f1, where ms = ?ms]) (use d in simp_all)
  with f1 d show ?thesis by blast
qed

lemma commitUndo_no_faults: "faults f = [] \<Longrightarrow> \<exists>f'. commitUndo f = (f', Inr ())"
  by (cases "journal f")
     (simp_all add: commitUndo_def seq_def bind_def file_Sync_def remove_journal_def sys_op_no_faults
        syncParent_no_faults)

theorem undo_commit_atomic_witness:
  "\<exists>f1 f3 d. saveUndo 1 sample_file = (f1, Inr ()) \<and>
     commitUndo (fold mutate [TruncateData 2] f1) = (f3, Inr ()) \<and> recovered f3 d \<and> d = [1, 2]"
proof -
  obtain f1 where f1: "saveUndo 1 sample_file = (f1, Inr ())" "faults f1 = []" "content f1 = [1, 2, 3]"
    using sample_file_saved by blast
  let ?f2 = "fold mutate [TruncateData 2] f1"
  have f2: "content ?f2 = [1, 2]" "faults ?f2 = []"
    using f1 by (simp_all add: file_Truncate_def sys_op_no_faults resize_def)
  obtain f3 where f3: "commitUndo ?f2 = (f3, Inr ())" using commitUndo_no_faults [OF f2(2)] by blast
  have "safe {[1, 2, 3]} ?f2"
    using settled_saveUndo [OF sample_file_settled _ f1(1)] guarded_fold [of _ 1 f1 "[TruncateData 2]"] guarded_imp
    by force
  moreover have "baseline [1, 2, 3] ?f2"
    using settled_saveUndo [OF sample_file_settled _ f1(1)] guarded_fold [of _ 1 f1 "[TruncateData 2]"] guarded_imp
    by force
  ultimately have "settled [1, 2] f3"
    using tripleD_ok [OF triple_commitUndo, of _ ?f2 _ ?f2 f3 "()"] f3 f2 by force
  then obtain d where d: "recovered f3 d"
    using recovered_exists [of "{[1, 2]}" f3] settled_safe by force
  have "if (Inr () :: unit result) = Inr () then d = content ?f2 else d = [1, 2, 3] \<or> d = content ?f2"
    by (rule undo_commit_atomic [OF sample_file_settled _ f1(1) _ refl _ f3 d]) (use f2 in simp_all)
  then have "d = [1, 2]" using f2 by simp
  with f1 f3 d show ?thesis by blast
qed

theorem restoreUndo_succeeds_on_kept_witness:
  "let f = sample_file\<lparr>content := [1, 7, 8, 9], journal := Some (journal_of [1, 2, 3] 1)\<rparr>
   in \<exists>f'. restoreUndo f = (f', Inr ()) \<and> content f' = [1, 2, 3] \<and> dirty_from f' = None
     \<and> journal f' = None \<and> journal_maybe f' = []"
  unfolding Let_def
proof (rule restoreUndo_succeeds_on_kept)
  have "keeps_from [1, 2, 3] (sample_file\<lparr>content := [1, 7, 8, 9], journal := Some (journal_of [1, 2, 3] 1)\<rparr>) 1"
    by (simp add: keeps_from_def sample_file_def)
  then show "baseline [1, 2, 3] (sample_file\<lparr>content := [1, 7, 8, 9], journal := Some (journal_of [1, 2, 3] 1)\<rparr>)"
    by (auto simp: baseline_def keeps_Some)
qed (simp_all add: sample_file_def)

section \<open>Removing a plog's files\<close>

definition gone :: "pfile \<Rightarrow> bool" where
  "gone f \<longleftrightarrow> \<not> entry f \<and> \<not> entry_dur f"

lemma gone_next:
  "remove_journal f = (f', r) \<Longrightarrow> gone f \<Longrightarrow> gone f'"
  "remove_tmp f = (f', r) \<Longrightarrow> gone f \<Longrightarrow> gone f'"
  "syncParent f = (f', r) \<Longrightarrow> gone f \<Longrightarrow> gone f'"
  unfolding remove_journal_def remove_tmp_def syncParent_def gone_def
  by (auto elim!: sys_op_cases simp: seq_def bind_def split: if_splits prod.splits sum.splits)

lemma triple_gone:
  "triple gone (ignore_missing remove_journal) (\<lambda>_. gone) gone"
  "triple gone (ignore_missing remove_tmp) (\<lambda>_. gone) gone"
  "triple gone syncParent (\<lambda>_. gone) gone"
  by (auto intro!: tripleI simp: ignore_missing_def split: prod.splits sum.splits if_splits dest: gone_next)

lemma triple_RemovePlogFiles:
  "triple (safe S) RemovePlogFiles (\<lambda>_. gone) (\<lambda>f. safe S f \<or> gone f)"
    (is "triple _ _ _ ?E")
proof -
  let ?R = "\<lambda>f. safe S f \<and> \<not> entry f"
  have keep: "safe S (f\<lparr>faults := rs\<rparr>) = safe S f" "safe S (f\<lparr>faults := rs, entry := b\<rparr>) = safe S f" for f rs b
    using keeps_cong [of "f\<lparr>faults := rs\<rparr>" f] keeps_cong [of "f\<lparr>faults := rs, entry := b\<rparr>" f]
    by (simp_all add: safe_def whole_def)
  have rm: "triple (safe S) (ignore_missing remove_entry) (\<lambda>_. ?R) ?E"
    by (rule tripleI)
       (auto simp: ignore_missing_def remove_entry_def keep split: prod.splits sum.splits if_splits elim!: sys_op_cases)
  have sync: "triple ?R syncParent (\<lambda>_. gone) ?E"
  proof (rule triple_syncParent)
    fix f f'
    assume f: "?R f"
    show "?E f'" if "core f' = core f" using f safe_core [OF that] by simp
    show "gone f'" if "core f' = core (f\<lparr>journal_maybe := [], maybe_dirty := False, entry_dur := entry f\<rparr>)"
      using f that by (simp add: core_eq_iff gone_def)
  qed
  have rest: "triple gone (seq (ignore_missing remove_journal) (seq (ignore_missing remove_tmp) syncParent)) (\<lambda>_. gone) gone"
    by (rule triple_seq [OF triple_gone(1)], rule triple_seq [OF triple_gone(2)], rule triple_gone(3))
  show ?thesis
    unfolding RemovePlogFiles_def
    by (rule triple_seq [OF rm], rule triple_seq [OF sync], rule triple_weaken [OF rest]) auto
qed

text \<open>
  C12. removal never strands a plog without its journal. If \<^verbatim>\<open>RemovePlogFiles\<close> succeeds the file is
  gone for good, and however far it got before failing, a data file that a power failure brings
  back still has a content of \<open>S\<close> to recover.
\<close>

theorem RemovePlogFiles_order:
  assumes "safe S f" "RemovePlogFiles f = (f', r)" "crash f' f''"
  shows "(r = Inr () \<longrightarrow> \<not> entry f'') \<and> (entry f'' \<longrightarrow> (\<exists>C \<in> S. baseline C f''))"
proof -
  have "if r = Inr () then gone f' else safe S f' \<or> gone f'"
    using triple_RemovePlogFiles [of S] assms(1,2) by (cases r) (auto simp: triple_def dest!: spec [of _ f])
  with assms(3) show ?thesis
    using safe_crash [of S f' f''] by (auto simp: crash_def gone_def split: if_splits)
qed

theorem RemovePlogFiles_order_witness:
  "\<exists>f'. RemovePlogFiles (sample_file\<lparr>faults := [IoOk, IoOk, IoErr 0]\<rparr>) = (f', Inl ErrIO) \<and>
     (\<exists>C \<in> {[1, 2, 3]}. baseline C (f'\<lparr>entry := True, entry_dur := True\<rparr>))"
proof -
  let ?f = "sample_file\<lparr>faults := [IoOk, IoOk, IoErr 0]\<rparr>"
  let ?g = "?f\<lparr>entry := False, faults := []\<rparr>"
  have r: "RemovePlogFiles ?f = (?g, Inl ErrIO)"
    by (simp add: RemovePlogFiles_def seq_def bind_def ignore_missing_def remove_entry_def syncParent_def
        sys_op_def next_io_def sample_file_def)
  have s: "safe {[1, 2, 3]} ?f" by (simp add: safe_def whole_def sample_file_def)
  have c: "crash ?g (?g\<lparr>entry := True, entry_dur := True\<rparr>)"
    by (simp add: crash_def crash_content_def sample_file_def)
  have "\<exists>C \<in> {[1, 2, 3]}. baseline C (?g\<lparr>entry := True, entry_dur := True\<rparr>)"
    using RemovePlogFiles_order [OF s r c] by simp
  with r show ?thesis by blast
qed

end
