(* ===== verification/Rose_Plog.thy ===== *)
theory Rose_Plog
  imports Rose_Undo
begin

text \<open>
  The physical log of \<^verbatim>\<open>src/storage/plog.go\<close> and \<^verbatim>\<open>inspect.go\<close>: a superblock sector, then blocks
  of 255 data sectors and one hash sector, then an open block whose sealed sectors are on disk, whose
  ragged tail is buffered, and which \<^verbatim>\<open>Commit\<close> closes with an authenticated trailer. This theory
  holds the code; \<open>Rose_Plog_Inv\<close> and the theories after it prove what it does.
  Offsets that the code only ever computes from lengths are natural numbers; those a caller
  passes are integers, checked as the code checks them. Protocol-buffer marshalling of the
  superblock header is an argument.
\<close>

section \<open>Geometry\<close>

definition HashesPerBlock :: nat where "HashesPerBlock = 255"
definition HashSize :: nat where "HashSize = 16"
definition BlockPhysical :: nat where "BlockPhysical = (HashesPerBlock + 1) * SectorSize"
definition DataPerBlock :: nat where "DataPerBlock = HashesPerBlock * SectorSize"
definition plogHeaderSize :: nat where "plogHeaderSize = SectorSize"
definition plogHeaderPrefix :: nat where "plogHeaderPrefix = 14"
definition plogHeaderHMACOffset :: nat where "plogHeaderHMACOffset = SectorSize - HashSize"
definition plogHeaderMaxPayload :: nat where "plogHeaderMaxPayload = plogHeaderHMACOffset - plogHeaderPrefix"
definition plogFormatVersion :: nat where "plogFormatVersion = 4"
definition plogMagic :: bytes where "plogMagic = str_bytes ''ROSEPLG1''"
definition openTrailerMagic :: bytes where "openTrailerMagic = str_bytes ''ROSEOPB1''"
definition openTrailerHeader :: nat where "openTrailerHeader = 12"

lemmas geometry = SectorSize_def HashesPerBlock_def HashSize_def BlockPhysical_def DataPerBlock_def
  plogHeaderSize_def plogHeaderPrefix_def plogHeaderHMACOffset_def plogHeaderMaxPayload_def openTrailerHeader_def

definition CalcLogical :: "nat \<Rightarrow> nat" where
  "CalcLogical phys =
     (if phys < plogHeaderSize then 0
      else
        let phys = phys - plogHeaderSize;
            chunks = phys div BlockPhysical;
            rem = phys mod BlockPhysical
        in chunks * DataPerBlock + (if DataPerBlock < rem then DataPerBlock else rem))"

definition CalcPhysical :: "nat \<Rightarrow> nat" where
  "CalcPhysical logical =
     plogHeaderSize + (logical div DataPerBlock) * BlockPhysical + logical mod DataPerBlock"

definition hashSectorPhys :: "nat \<Rightarrow> nat" where
  "hashSectorPhys blockIdx = plogHeaderSize + blockIdx * BlockPhysical + DataPerBlock"

section \<open>Hashes\<close>

definition bitrotKey :: bytes where "bitrotKey = str_bytes ''rose-bitrot-key-todo''"

definition sectorHash :: "bytes \<Rightarrow> bytes" where
  "sectorHash d = take HashSize (sha256 d)"

definition completedBlockMAC :: "nat \<Rightarrow> bytes \<Rightarrow> bytes" where
  "completedBlockMAC blockIdx hs = take HashSize (hmac_sha256 bitrotKey (le_put 8 blockIdx @ hs))"

definition openBlockMAC :: "nat \<Rightarrow> bytes \<Rightarrow> bytes \<Rightarrow> bytes" where
  "openBlockMAC blockIdx trailerPrefix ragged =
     take HashSize (hmac_sha256 bitrotKey (le_put 8 blockIdx @ trailerPrefix @ ragged))"

section \<open>State\<close>

text \<open>The fields of the protocol message \<^verbatim>\<open>PlogHeader\<close>.\<close>

record PlogHeader =
  cluster_uid :: bytes
  plog_uid :: bytes
  plog_id :: uint32
  disk_uid :: bytes
  created_at_nanos :: int
  writer_version :: string
  vlog_uid :: bytes
  vlog_id :: uint32
  shard_index :: uint32
  protection_scheme :: string
  data_shards :: uint32
  parity_shards :: uint32
  sibling_plog_uids :: "bytes list"
  dedup_domain :: string

definition empty_header :: "uint32 \<Rightarrow> PlogHeader" where
  "empty_header pid =
     \<lparr>cluster_uid = [], plog_uid = [], plog_id = pid, disk_uid = [], created_at_nanos = 0, writer_version = [],
      vlog_uid = [], vlog_id = 0, shard_index = 0, protection_scheme = [], data_shards = 0, parity_shards = 0,
      sibling_plog_uids = [], dedup_domain = []\<rparr>"

record Plog =
  undoActive :: bool
  undoStart :: nat
  pid :: uint32
  datafile :: pfile
  logicalLength :: nat
  loadedFromTrailer :: bool
  openUnverified :: bool
  buf :: bytes
  bufCorrupt :: bool
  hashes :: bytes
  header :: PlogHeader

definition on_file :: "(pfile, 'a) io \<Rightarrow> (Plog, 'a) io" where
  "on_file = focus datafile (\<lambda>f p. p\<lparr>datafile := f\<rparr>)"

section \<open>Superblock\<close>

definition superblock :: "bytes \<Rightarrow> bytes" where
  "superblock payload =
     (let sec = replicate plogHeaderSize 0;
          sec = copy_at sec 0 plogMagic;
          sec = copy_at sec 8 (le_put 2 plogFormatVersion);
          sec = copy_at sec 10 (le_put 4 (length payload));
          sec = copy_at sec plogHeaderPrefix payload
      in copy_at sec plogHeaderHMACOffset (take HashSize (hmac_sha256 bitrotKey (take plogHeaderHMACOffset sec))))"

definition writeSuperblock :: "(PlogHeader \<Rightarrow> bytes result) \<Rightarrow> PlogHeader \<Rightarrow> (pfile, unit) io" where
  "writeSuperblock Marshal hdr f =
     (case Marshal hdr of
        Inl e \<Rightarrow> (f, Inl e)
      | Inr payload \<Rightarrow>
          if plogHeaderMaxPayload < length payload then (f, Inl (Err ''plog header too large''))
          else case file_WriteAt (superblock payload) 0 f of
                 (f, n, Some e) \<Rightarrow> (f, Inl e)
               | (f, n, None) \<Rightarrow> (f, Inr ()))"

definition readSuperblock :: "(bytes \<Rightarrow> PlogHeader result) \<Rightarrow> pfile \<Rightarrow> PlogHeader result" where
  "readSuperblock Unmarshal f =
     (case file_ReadAt f plogHeaderSize 0 of
        Inl e \<Rightarrow> Inl ErrUnrecognizedPlogFormat
      | Inr sec \<Rightarrow>
          if take 8 sec \<noteq> plogMagic then Inl ErrUnrecognizedPlogFormat
          else if le_get (bslice 8 10 sec) \<noteq> plogFormatVersion then Inl (Err ''plog format version unsupported'')
          else if take HashSize (hmac_sha256 bitrotKey (take plogHeaderHMACOffset sec))
                    \<noteq> bslice plogHeaderHMACOffset (plogHeaderHMACOffset + HashSize) sec
          then Inl ErrPlogHeaderCorrupt
          else let n = le_get (bslice 10 14 sec)
               in if plogHeaderMaxPayload < n then Inl ErrPlogHeaderCorrupt
                  else Unmarshal (bslice plogHeaderPrefix (plogHeaderPrefix + n) sec))"

section \<open>Reading\<close>

definition bitrot :: "'a result" where "bitrot = Inl ErrBitrot"

text \<open>
  The recorded hash of a sealed sector, with the cache of authenticated hash sectors that one
  read keeps. \<open>Inr None\<close> is the code's \<^verbatim>\<open>ok == false\<close>.
\<close>

definition sectorHashFor ::
  "Plog \<Rightarrow> nat \<Rightarrow> nat \<Rightarrow> (nat \<rightharpoonup> bytes) \<Rightarrow> (nat \<rightharpoonup> bytes) \<times> bytes option result" where
  "sectorHashFor p sectorIdx sealed hashSectors =
     (let blockIdx = sectorIdx div HashesPerBlock;
          start = (sectorIdx mod HashesPerBlock) * HashSize
      in if (blockIdx + 1) * DataPerBlock \<le> sealed
         then case hashSectors blockIdx of
                Some recorded \<Rightarrow> (hashSectors, Inr (Some (bslice start (start + HashSize) recorded)))
              | None \<Rightarrow>
                  (case file_ReadAt (datafile p) SectorSize (hashSectorPhys blockIdx) of
                     Inl e \<Rightarrow> (hashSectors, Inl e)
                   | Inr hashSector \<Rightarrow>
                       let recorded = take (HashesPerBlock * HashSize) hashSector
                       in if completedBlockMAC blockIdx recorded \<noteq> drop (HashesPerBlock * HashSize) hashSector
                          then (hashSectors, bitrot)
                          else (hashSectors(blockIdx \<mapsto> recorded),
                                Inr (Some (bslice start (start + HashSize) recorded))))
         else if length (hashes p) < start + HashSize then (hashSectors, Inr None)
         else (hashSectors, Inr (Some (bslice start (start + HashSize) (hashes p)))))"

definition readDataSector ::
  "Plog \<Rightarrow> nat \<Rightarrow> nat \<Rightarrow> (nat \<rightharpoonup> bytes) \<Rightarrow> (nat \<rightharpoonup> bytes) \<times> bytes result" where
  "readDataSector p sectorIdx sealed hashSectors =
     (let sectorStart = sectorIdx * SectorSize;
          size = (if sealed < sectorStart + SectorSize then sealed - sectorStart else SectorSize)
      in case file_ReadAt (datafile p) size (CalcPhysical sectorStart) of
           Inl e \<Rightarrow> (hashSectors, Inl e)
         | Inr sector \<Rightarrow>
             (case sectorHashFor p sectorIdx sealed hashSectors of
                (hashSectors, Inl e) \<Rightarrow> (hashSectors, Inl e)
              | (hashSectors, Inr None) \<Rightarrow> (hashSectors, Inr sector)
              | (hashSectors, Inr (Some expected)) \<Rightarrow>
                  (hashSectors, if sectorHash sector \<noteq> expected then bitrot else Inr sector)))"

text \<open>
  One pass of the read loop, and the loop. A pass that would make no progress is a slice panic
  in the source; \<open>Rose_Plog_Inv\<close> shows that it does not happen.
\<close>

definition slice_panic :: err where "slice_panic = Err ''slice bounds out of range''"

definition read_piece ::
  "Plog \<Rightarrow> nat \<Rightarrow> nat \<Rightarrow> (nat \<rightharpoonup> bytes) \<Rightarrow> (nat \<rightharpoonup> bytes) \<times> (bytes \<times> nat) result" where
  "read_piece p cur stop hashSectors =
     (let sealed = logicalLength p - length (buf p);
          sectorIdx = cur div SectorSize;
          sectorStart = sectorIdx * SectorSize
      in case (if sealed \<le> sectorStart
               then (hashSectors, if bufCorrupt p then bitrot else Inr (buf p))
               else readDataSector p sectorIdx sealed hashSectors) of
           (hashSectors, Inl e) \<Rightarrow> (hashSectors, Inl e)
         | (hashSectors, Inr sector) \<Rightarrow>
             let inner = cur - sectorStart;
                 innerEnd = min SectorSize (length sector);
                 innerEnd = (if stop < sectorStart + innerEnd then stop - sectorStart else innerEnd)
             in if innerEnd \<le> inner then (hashSectors, Inl slice_panic)
                else (hashSectors, Inr (bslice inner innerEnd sector, sectorStart + innerEnd)))"

lemma read_piece_progress:
  assumes "read_piece p cur stop hs = (hs', Inr (piece, cur'))"
  shows "cur < cur'"
proof -
  have "cur div SectorSize * SectorSize \<le> cur" by simp
  with assms show ?thesis
    by (auto simp: read_piece_def Let_def split: prod.splits sum.splits if_splits)
qed

function read_loop :: "Plog \<Rightarrow> nat \<Rightarrow> nat \<Rightarrow> (nat \<rightharpoonup> bytes) \<Rightarrow> bytes \<Rightarrow> bytes result" where
  "read_loop p cur stop hashSectors out =
     (if stop \<le> cur then Inr out
      else case read_piece p cur stop hashSectors of
             (hashSectors, Inl e) \<Rightarrow> Inl e
           | (hashSectors, Inr (piece, cur')) \<Rightarrow> read_loop p cur' stop hashSectors (out @ piece))"
  by pat_completeness auto
termination
  by (relation "measure (\<lambda>(p, cur, stop, hs, out). stop - cur)") (auto dest!: read_piece_progress [OF sym])

declare read_loop.simps [simp del]

definition readLocked :: "Plog \<Rightarrow> int \<Rightarrow> int \<Rightarrow> bytes result" where
  "readLocked p offset len =
     (if offset < 0 \<or> len < 0 then Inl (Err ''invalid offset or length'')
      else if MaxInt64 - offset < len then Inl (Err ''range overflows int64'')
      else if int (logicalLength p) < offset + len then Inl (Err ''read past end'')
      else read_loop p (nat offset) (nat (offset + len)) Map.empty [])"

definition Plog_Read :: "Plog \<Rightarrow> int \<Rightarrow> int \<Rightarrow> bytes result" where
  "Plog_Read = readLocked"

definition LogicalLength :: "Plog \<Rightarrow> nat" where
  "LogicalLength p = logicalLength p"

function verify_loop :: "Plog \<Rightarrow> nat \<Rightarrow> unit result" where
  "verify_loop p offset =
     (let batch = 2 ^ 20 in
      if logicalLength p \<le> offset then Inr ()
      else case Plog_Read p (int offset) (int (min batch (logicalLength p - offset))) of
             Inl e \<Rightarrow> Inl e
           | Inr _ \<Rightarrow> verify_loop p (offset + batch))"
  by pat_completeness auto
termination
  by (relation "measure (\<lambda>(p, offset). logicalLength p - offset)") auto

declare verify_loop.simps [simp del]

definition Plog_Verify :: "Plog \<Rightarrow> unit result" where
  "Plog_Verify p = verify_loop p 0"

section \<open>Scrubbing\<close>

record ScrubResult =
  SectorsChecked :: nat
  CorruptSectors :: "nat list"
  BadHMACBlocks :: "nat list"

definition Healthy :: "ScrubResult \<Rightarrow> bool" where
  "Healthy r \<longleftrightarrow> CorruptSectors r = [] \<and> BadHMACBlocks r = []"

definition empty_scrub :: ScrubResult where
  "empty_scrub = \<lparr>SectorsChecked = 0, CorruptSectors = [], BadHMACBlocks = []\<rparr>"

text \<open>Checking the \<open>n\<close> sectors from logical offset \<open>start\<close> on against the hashes \<open>recorded\<close>.\<close>

fun scrub_sectors :: "pfile \<Rightarrow> bytes \<Rightarrow> nat \<Rightarrow> nat list \<Rightarrow> (ScrubResult, unit) io" where
  "scrub_sectors f recorded start [] res = (res, Inr ())"
| "scrub_sectors f recorded start (pos # rest) res =
     (let sectorStart = start + pos * SectorSize
      in case file_ReadAt f SectorSize (CalcPhysical sectorStart) of
           Inl e \<Rightarrow> (res, Inl e)
         | Inr sector \<Rightarrow>
             let res = res\<lparr>SectorsChecked := SectorsChecked res + 1\<rparr>;
                 expected = bslice (pos * HashSize) (pos * HashSize + HashSize) recorded;
                 res = (if sectorHash sector \<noteq> expected
                        then res\<lparr>CorruptSectors := CorruptSectors res @ [sectorStart]\<rparr> else res)
             in scrub_sectors f recorded start rest res)"

fun scrub_blocks :: "pfile \<Rightarrow> nat list \<Rightarrow> (ScrubResult, unit) io" where
  "scrub_blocks f [] res = (res, Inr ())"
| "scrub_blocks f (blockIdx # rest) res =
     (case file_ReadAt f SectorSize (hashSectorPhys blockIdx) of
        Inl e \<Rightarrow> (res, Inl e)
      | Inr hashSector \<Rightarrow>
          let recorded = take (HashesPerBlock * HashSize) hashSector;
              res = (if completedBlockMAC blockIdx recorded
                          \<noteq> bslice (HashesPerBlock * HashSize) (HashesPerBlock * HashSize + HashSize) hashSector
                     then res\<lparr>BadHMACBlocks := BadHMACBlocks res @ [blockIdx]\<rparr> else res)
          in case scrub_sectors f recorded (blockIdx * DataPerBlock) [0..<HashesPerBlock] res of
               (res, Inl e) \<Rightarrow> (res, Inl e)
             | (res, Inr _) \<Rightarrow> scrub_blocks f rest res)"

definition Plog_Scrub :: "Plog \<Rightarrow> ScrubResult \<times> unit result" where
  "Plog_Scrub p =
     (let sealed = logicalLength p - length (buf p);
          completeBlocks = sealed div DataPerBlock
      in case scrub_blocks (datafile p) [0..<completeBlocks] empty_scrub of
           (res, Inl e) \<Rightarrow> (res, Inl e)
         | (res, Inr _) \<Rightarrow>
             scrub_sectors (datafile p) (hashes p) (completeBlocks * DataPerBlock)
               [0..<length (hashes p) div HashSize] res)"

section \<open>Opening\<close>

definition rebuildOpenBlock :: "(Plog, unit) io" where
  "rebuildOpenBlock p =
     (let partial = logicalLength p mod SectorSize;
          sealed = logicalLength p - partial;
          blockStart = (sealed div DataPerBlock) * DataPerBlock;
          p = p\<lparr>buf := [], bufCorrupt := (0 < partial)\<rparr>
      in case (if 0 < partial then file_ReadAt (datafile p) partial (CalcPhysical sealed) else Inr []) of
           Inl e \<Rightarrow> (p\<lparr>buf := replicate partial 0\<rparr>, Inl e)
         | Inr b \<Rightarrow>
             (p\<lparr>buf := b,
                hashes := replicate ((sealed - blockStart) div SectorSize * HashSize) 0,
                openUnverified := (blockStart < logicalLength p)\<rparr>, Inr ()))"

definition recoverFromTrailer :: "nat \<Rightarrow> Plog \<Rightarrow> Plog \<times> bool" where
  "recoverFromTrailer sz p =
     (if sz < plogHeaderSize + 2 * SectorSize then (p, False)
      else case file_ReadAt (datafile p) SectorSize (sz - SectorSize) of
        Inl e \<Rightarrow> (p, False)
      | Inr trailer \<Rightarrow>
          if take 8 trailer \<noteq> openTrailerMagic then (p, False)
          else
            let c = le_get (bslice 8 10 trailer);
                raggedField = le_get (bslice 10 12 trailer);
                authenticatesRagged = (2 ^ 15 \<le> raggedField);
                raggedLen = raggedField mod 2 ^ 15
            in if HashesPerBlock \<le> c \<or> SectorSize \<le> raggedLen \<or> (c = 0 \<and> raggedLen = 0) then (p, False)
               else
                 let hashesEnd = openTrailerHeader + c * HashSize;
                     dataRelStart = int sz - int SectorSize - int ((c + 1) * SectorSize) - int plogHeaderSize
                 in if dataRelStart < 0 \<or> dataRelStart mod int BlockPhysical \<noteq> 0 then (p, False)
                    else
                      let blockStartLogical = nat dataRelStart div BlockPhysical * DataPerBlock;
                          sealed = blockStartLogical + c * SectorSize
                      in case (if 0 < raggedLen then file_ReadAt (datafile p) raggedLen (CalcPhysical sealed)
                               else Inr (buf p)) of
                           Inl e \<Rightarrow> (p\<lparr>buf := []\<rparr>, False)
                         | Inr b \<Rightarrow>
                             let p = p\<lparr>buf := b, logicalLength := sealed + raggedLen,
                                       hashes := bslice openTrailerHeader hashesEnd trailer\<rparr>;
                                 ragged = (if authenticatesRagged then buf p else []);
                                 want = openBlockMAC (blockStartLogical div DataPerBlock) (take hashesEnd trailer) ragged
                             in if want \<noteq> bslice hashesEnd (hashesEnd + HashSize) trailer
                                then if authenticatesRagged
                                     then (p\<lparr>bufCorrupt := True, hashes := replicate (length (hashes p)) 0\<rparr>, True)
                                     else (p, False)
                                else (p, True))"

definition reload :: "(Plog, unit) io" where
  "reload p =
     (case recoverFromTrailer (length (content (datafile p))) p of
        (p, True) \<Rightarrow> (p\<lparr>loadedFromTrailer := True\<rparr>, Inr ())
      | (p, False) \<Rightarrow> rebuildOpenBlock (p\<lparr>loadedFromTrailer := False\<rparr>))"

datatype open_mode = O_RDWR_CREATE | O_RDWR | O_RDONLY

definition openFile :: "open_mode \<Rightarrow> (pfile, unit) io" where
  "openFile mode f =
     (if entry f then (f, Inr ())
      else if mode = O_RDWR_CREATE then sys_op (\<lambda>f. f\<lparr>entry := True, content := [], dirty_from := None\<rparr>) f
      else (f, Inl ErrNotExist))"

definition new_Plog :: "uint32 \<Rightarrow> PlogHeader \<Rightarrow> nat \<Rightarrow> pfile \<Rightarrow> Plog" where
  "new_Plog i hdr len f =
     \<lparr>undoActive = False, undoStart = 0, pid = i, datafile = f, logicalLength = len,
      loadedFromTrailer = False, openUnverified = False, buf = [], bufCorrupt = False, hashes = [],
      header = hdr\<rparr>"

text \<open>
  \<^verbatim>\<open>openPlogFile\<close> up to the reload: the header of a fresh file, which it stamps, or of an existing
  one, which it reads, with the logical length the file's size implies.
\<close>

definition prepare_file ::
  "(PlogHeader \<Rightarrow> bytes result) \<Rightarrow> (bytes \<Rightarrow> PlogHeader result) \<Rightarrow> open_mode \<Rightarrow> PlogHeader option
     \<Rightarrow> (pfile, PlogHeader \<times> nat) io" where
  "prepare_file Marshal Unmarshal mode hdr =
     seq (openFile mode)
     (seq (when_io (mode \<noteq> O_RDONLY) (seq restoreUndo discardUndoTemp))
     (bind (gets (\<lambda>f. length (content f))) (\<lambda>sz.
        if sz = 0
        then case hdr of
               None \<Rightarrow> raise (Err ''new file requires a header'')
             | Some h \<Rightarrow>
                 seq (writeSuperblock Marshal h)
                 (seq file_Sync
                 (seq syncParent
                 (seq (sys_op id) (ret (h, 0)))))
        else bind (of_result (readSuperblock Unmarshal)) (\<lambda>h. ret (h, CalcLogical sz)))))"

definition openPlogFile ::
  "(PlogHeader \<Rightarrow> bytes result) \<Rightarrow> (bytes \<Rightarrow> PlogHeader result) \<Rightarrow> uint32 \<Rightarrow> open_mode
     \<Rightarrow> PlogHeader option \<Rightarrow> pfile \<Rightarrow> pfile \<times> Plog result" where
  "openPlogFile Marshal Unmarshal i mode hdr f =
     (case prepare_file Marshal Unmarshal mode hdr f of
        (f, Inl e) \<Rightarrow> (f, Inl e)
      | (f, Inr (h, len)) \<Rightarrow>
          (case reload (new_Plog i h len f) of
             (p, Inl e) \<Rightarrow> (datafile p, Inl e)
           | (p, Inr _) \<Rightarrow> (datafile p, Inr p)))"

text \<open>
  \<^verbatim>\<open>os.MkdirAll\<close> of the directory may fail; the directories above the plog's own are not part of the
  disk state, so it has no other effect.
\<close>

definition mkdirAll :: "(pfile, unit) io" where
  "mkdirAll = sys_op id"

definition OpenPlog ::
  "(PlogHeader \<Rightarrow> bytes result) \<Rightarrow> (bytes \<Rightarrow> PlogHeader result) \<Rightarrow> uint32 \<Rightarrow> PlogHeader option
     \<Rightarrow> pfile \<Rightarrow> pfile \<times> Plog result" where
  "OpenPlog Marshal Unmarshal i hdr =
     seq mkdirAll
       (openPlogFile Marshal Unmarshal i O_RDWR_CREATE
         (Some (case hdr of None \<Rightarrow> empty_header i | Some h \<Rightarrow> h)))"

definition OpenExistingPlog ::
  "(PlogHeader \<Rightarrow> bytes result) \<Rightarrow> (bytes \<Rightarrow> PlogHeader result) \<Rightarrow> uint32 \<Rightarrow> pfile \<Rightarrow> pfile \<times> Plog result" where
  "OpenExistingPlog Marshal Unmarshal i = openPlogFile Marshal Unmarshal i O_RDWR None"

definition OpenInspectionReader ::
  "(PlogHeader \<Rightarrow> bytes result) \<Rightarrow> (bytes \<Rightarrow> PlogHeader result) \<Rightarrow> uint32 \<Rightarrow> pfile \<Rightarrow> pfile \<times> Plog result" where
  "OpenInspectionReader Marshal Unmarshal i = openPlogFile Marshal Unmarshal i O_RDONLY None"

record PlogInspection =
  insp_Header :: PlogHeader
  insp_LogicalLength :: nat
  VerificationError :: "err option"

definition InspectPlog ::
  "(PlogHeader \<Rightarrow> bytes result) \<Rightarrow> (bytes \<Rightarrow> PlogHeader result) \<Rightarrow> uint32 \<Rightarrow> pfile
     \<Rightarrow> pfile \<times> PlogInspection result" where
  "InspectPlog Marshal Unmarshal i f =
     (case openPlogFile Marshal Unmarshal i O_RDONLY None f of
        (f, Inl e) \<Rightarrow> (f, Inl e)
      | (f, Inr p) \<Rightarrow>
          (f, Inr \<lparr>insp_Header = header p, insp_LogicalLength = LogicalLength p,
                   VerificationError = (case Plog_Verify p of Inl e \<Rightarrow> Some e | Inr _ \<Rightarrow> None)\<rparr>))"

section \<open>Writing\<close>

text \<open>
  The write function of a plog: the file's own, or an injected one, which unlike
  \<^verbatim>\<open>os.File\<close> may write short without an error.
\<close>

definition injected_WriteAt :: "bytes \<Rightarrow> nat \<Rightarrow> pfile \<Rightarrow> pfile \<times> nat \<times> err option" where
  "injected_WriteAt b off f =
     (case next_io f of
        (IoShort n, f') \<Rightarrow> (put_bytes (take n b) off f', min n (length b), None)
      | _ \<Rightarrow> file_WriteAt b off f)"

definition writePhysical :: "bytes \<Rightarrow> nat \<Rightarrow> (Plog, unit) io" where
  "writePhysical d offset p =
     (case injected_WriteAt d offset (datafile p) of
        (f, n, Some e) \<Rightarrow> (p\<lparr>datafile := f\<rparr>, Inl e)
      | (f, n, None) \<Rightarrow> (p\<lparr>datafile := f\<rparr>, if n \<noteq> length d then Inl ErrShortWrite else Inr ()))"

definition protectPrefixLocked :: "nat \<Rightarrow> (Plog, unit) io" where
  "protectPrefixLocked start p =
     (if undoActive p \<and> undoStart p \<le> start then (p, Inr ())
      else case saveUndo start (datafile p) of
             (f, Inl e) \<Rightarrow> (p\<lparr>datafile := f\<rparr>, Inl e)
           | (f, Inr _) \<Rightarrow> (p\<lparr>datafile := f, undoActive := True, undoStart := start\<rparr>, Inr ()))"

text \<open>
  Sealing one sector: the running hashes of the open block, the logical length and the
  batched output. The 255th hash completes the block and emits its hash sector.
\<close>

type_synonym seal_state = "bytes \<times> nat \<times> bytes"

definition hash_sector :: "nat \<Rightarrow> bytes \<Rightarrow> bytes" where
  "hash_sector blockIdx hs =
     copy_at (copy_at (replicate SectorSize 0) 0 hs) (HashesPerBlock * HashSize) (completedBlockMAC blockIdx hs)"

definition seal_sector :: "bytes \<Rightarrow> nat \<Rightarrow> seal_state \<Rightarrow> seal_state" where
  "seal_sector sector n st =
     (case st of (hs, len, out) \<Rightarrow>
        let len = len + n;
            out = out @ sector;
            hs = hs @ sectorHash sector
        in if length hs = HashesPerBlock * HashSize
           then ([], len, out @ hash_sector (len div DataPerBlock - 1) hs)
           else (hs, len, out))"

function seal_sectors :: "bytes \<Rightarrow> seal_state \<Rightarrow> bytes \<times> seal_state" where
  "seal_sectors d st =
     (if SectorSize \<le> length d
      then seal_sectors (drop SectorSize d) (seal_sector (take SectorSize d) SectorSize st)
      else (d, st))"
  by pat_completeness auto
termination
  by (relation "measure (\<lambda>(d, st). length d)") (auto simp: SectorSize_def)

declare seal_sectors.simps [simp del]

definition writeLocked :: "bytes \<Rightarrow> (Plog, nat) io" where
  "writeLocked d p =
     (if bufCorrupt p \<or> openUnverified p then (p, bitrot)
      else if length (buf p) + length d < SectorSize
      then (p\<lparr>buf := buf p @ d, logicalLength := logicalLength p + length d\<rparr>, Inr (logicalLength p))
      else bind (protectPrefixLocked (CalcPhysical (logicalLength p div DataPerBlock * DataPerBlock))) (\<lambda>_ p.
        let offset = logicalLength p;
            firstSectorPhysicalStart = CalcPhysical (logicalLength p - length (buf p));
            space = SectorSize - length (buf p);
            st = seal_sector (buf p @ take space d) space (hashes p, logicalLength p, [])
        in case seal_sectors (drop space d) st of
             (rest, hs, len, out) \<Rightarrow>
               let p' = p\<lparr>buf := rest, hashes := hs, logicalLength := len + length rest\<rparr>
               in case writePhysical out firstSectorPhysicalStart p' of
                    (q, Inl e) \<Rightarrow>
                      (q\<lparr>logicalLength := logicalLength p, buf := buf p, hashes := hashes p\<rparr>, Inl e)
                  | (q, Inr _) \<Rightarrow> (q, Inr offset)) p)"

definition Plog_Write :: "bytes \<Rightarrow> (Plog, nat) io" where
  "Plog_Write = writeLocked"

definition EnsureAppend :: "int \<Rightarrow> bytes \<Rightarrow> (Plog, unit) io" where
  "EnsureAppend offset d p =
     (if offset < 0 \<or> int (logicalLength p) < offset then (p, Inl (Err ''offset beyond length''))
      else
        let overlap = min (logicalLength p - nat offset) (length d)
        in case (if 0 < overlap then readLocked p offset (int overlap) else Inr []) of
             Inl e \<Rightarrow> (p, Inl e)
           | Inr existing \<Rightarrow>
               if 0 < overlap \<and> existing \<noteq> take overlap d then (p, Inl (Err ''existing bytes differ''))
               else if overlap = length d then (p, Inr ())
               else case writeLocked (drop overlap d) p of
                      (p, Inl e) \<Rightarrow> (p, Inl e)
                    | (p, Inr _) \<Rightarrow> (p, Inr ()))"

section \<open>Committing and truncating\<close>

definition buildOpenTrailer :: "Plog \<Rightarrow> nat \<Rightarrow> bytes" where
  "buildOpenTrailer p raggedLen =
     (let trailer = copy_at (replicate SectorSize 0) 0 openTrailerMagic;
          trailer = copy_at trailer 8 (le_put 2 (length (hashes p) div HashSize));
          raggedField = raggedLen + (if 0 < raggedLen then 2 ^ 15 else 0);
          trailer = copy_at trailer 10 (le_put 2 raggedField);
          trailer = copy_at trailer openTrailerHeader (hashes p);
          hashesEnd = openTrailerHeader + length (hashes p);
          ragged = (if 0 < raggedLen then buf p else []);
          sealed = logicalLength p - raggedLen
      in copy_at trailer hashesEnd (openBlockMAC (sealed div DataPerBlock) (take hashesEnd trailer) ragged))"

definition commit_undo :: "(Plog, unit) io" where
  "commit_undo p =
     (case commitUndo (datafile p) of
        (f, Inl e) \<Rightarrow> (p\<lparr>datafile := f, undoActive := False\<rparr>, Inl e)
      | (f, Inr _) \<Rightarrow> (p\<lparr>datafile := f, undoActive := False\<rparr>, Inr ()))"

definition Plog_Commit :: "(Plog, unit) io" where
  "Plog_Commit p =
     (if bufCorrupt p \<or> openUnverified p then (p, bitrot)
      else
        let raggedLen = length (buf p);
            sealed = logicalLength p - raggedLen;
            wroteTrailer = (hashes p \<noteq> [] \<or> 0 < raggedLen);
            stop = (if wroteTrailer then CalcPhysical sealed + 2 * SectorSize else CalcPhysical (logicalLength p))
        in seq (when_io wroteTrailer (protectPrefixLocked (CalcPhysical (sealed div DataPerBlock * DataPerBlock))))
           (seq (when_io (0 < raggedLen) (writePhysical (buf p) (CalcPhysical sealed)))
           (seq (when_io wroteTrailer (writePhysical (buildOpenTrailer p raggedLen) (CalcPhysical sealed + SectorSize)))
           (seq (on_file (file_Truncate stop))
           (seq commit_undo
           (when_io wroteTrailer (modify (\<lambda>p. p\<lparr>loadedFromTrailer := True\<rparr>))))))) p)"

definition Plog_Sync :: "(Plog, unit) io" where
  "Plog_Sync = Plog_Commit"

text \<open>The hashes of the sectors of an authenticated prefix, in order.\<close>

definition sector_hashes :: "bytes \<Rightarrow> bytes" where
  "sector_hashes d =
     concat (map (\<lambda>i. sectorHash (bslice (i * SectorSize) ((i + 1) * SectorSize) d)) [0..<length d div SectorSize])"

definition TruncateTo :: "int \<Rightarrow> (Plog, unit) io" where
  "TruncateTo logical p =
     (if logical < 0 then (p, Inl (Err ''negative target''))
      else if int (logicalLength p) < logical then (p, Inl (Err ''target beyond length''))
      else if logical = int (logicalLength p) then (p, Inr ())
      else
        let target = nat logical;
            blockStart = target div DataPerBlock * DataPerBlock;
            verified = readLocked p (int blockStart) (int (target - blockStart))
        in seq (protectPrefixLocked (CalcPhysical blockStart))
           (seq (on_file (file_Truncate (CalcPhysical target)))
           (seq (modify (\<lambda>p. p\<lparr>logicalLength := target\<rparr>))
           (seq rebuildOpenBlock
           (modify (\<lambda>p.
              case verified of
                Inl e \<Rightarrow> p\<lparr>loadedFromTrailer := False\<rparr>
              | Inr d \<Rightarrow>
                  let sealedLen = length d div SectorSize * SectorSize
                  in p\<lparr>hashes := copy_at (hashes p) 0 (sector_hashes d),
                       buf := copy_at (buf p) 0 (drop sealedLen d),
                       bufCorrupt := False, openUnverified := False, loadedFromTrailer := True\<rparr>))))) p)"

definition RebindDiskUID :: "(PlogHeader \<Rightarrow> bytes result) \<Rightarrow> bytes \<Rightarrow> (Plog, unit) io" where
  "RebindDiskUID Marshal diskUID p =
     (if journal (datafile p) \<noteq> None then (p, Inl (Err ''uncommitted prefix journal''))
      else
        let h = (header p)\<lparr>disk_uid := diskUID\<rparr>
        in seq (on_file (writeSuperblock Marshal h))
           (seq (on_file file_Sync) (modify (\<lambda>p. p\<lparr>header := h\<rparr>))) p)"

section \<open>Authenticating an open block from the catalog\<close>

record RecoveredChunk =
  Hash :: bytes
  LogicalStart :: int
  Length :: int
  PayloadOffset :: int
  Validate :: "(bytes \<Rightarrow> bool) option"

function read_unverified :: "pfile \<Rightarrow> nat \<Rightarrow> nat \<Rightarrow> bytes \<Rightarrow> bytes result" where
  "read_unverified f cur stop out =
     (if stop \<le> cur then Inr out
      else
        let sectorStart = cur div SectorSize * SectorSize;
            posInSector = cur - sectorStart;
            n = min (SectorSize - posInSector) (stop - cur)
        in case file_ReadAt f n (CalcPhysical sectorStart + posInSector) of
             Inl e \<Rightarrow> Inl e
           | Inr b \<Rightarrow> read_unverified f (cur + n) stop (out @ b))"
  by pat_completeness auto
termination
proof (relation "measure (\<lambda>(f, cur, stop, out). stop - cur)", goal_cases)
  case (2 f cur stop out sectorStart posInSector n b)
  have "cur - cur div SectorSize * SectorSize = cur mod SectorSize"
    by (simp add: minus_div_mult_eq_mod)
  moreover have "cur mod SectorSize < SectorSize" by (simp add: SectorSize_def)
  ultimately have "0 < n" using 2 by simp
  with 2 show ?case by simp
qed simp

declare read_unverified.simps [simp del]

definition ReadLogicalUnverified :: "Plog \<Rightarrow> int \<Rightarrow> int \<Rightarrow> bytes result" where
  "ReadLogicalUnverified p offset len = read_unverified (datafile p) (nat offset) (nat (offset + len)) []"

definition verify_chunk :: "Plog \<Rightarrow> RecoveredChunk \<Rightarrow> bytes option" where
  "verify_chunk p c =
     (if LogicalStart c < 0 \<or> Length c \<le> 0 \<or> int (logicalLength p) - LogicalStart c < Length c then None
      else case ReadLogicalUnverified p (LogicalStart c) (Length c) of
        Inl e \<Rightarrow> None
      | Inr d \<Rightarrow>
          (case Validate c of
             Some valid \<Rightarrow> if valid d then Some d else None
           | None \<Rightarrow>
               if PayloadOffset c < 0 \<or> int (length d) < PayloadOffset c then None
               else if take 15 (sha256 (drop (nat (PayloadOffset c)) d)) \<noteq> Hash c then None
               else Some d))"

text \<open>Assembling the sector \<open>[start, stop)\<close> from the verified records; \<open>None\<close> is the invalid case.\<close>

fun cover_sector ::
  "nat \<Rightarrow> nat \<Rightarrow> (RecoveredChunk \<times> bytes option) list \<Rightarrow> bytes \<times> bool list \<Rightarrow> (bytes \<times> bool list) option" where
  "cover_sector start stop [] acc = Some acc"
| "cover_sector start stop ((c, v) # cvs) (sector, covered) =
     (if int stop \<le> LogicalStart c \<or> LogicalStart c + Length c \<le> int start
      then cover_sector start stop cvs (sector, covered)
      else case v of
             None \<Rightarrow> None
           | Some d \<Rightarrow>
               let lo = nat (max (int start) (LogicalStart c));
                   hi = nat (min (int stop) (LogicalStart c + Length c));
                   ls = nat (LogicalStart c)
               in cover_sector start stop cvs
                    (copy_at sector (lo - start) (bslice (lo - ls) (hi - ls) d),
                     copy_at covered (lo - start) (replicate (hi - lo) True)))"

text \<open>One sector of the block: \<open>False\<close> when it could not be verified.\<close>

definition recover_sector ::
  "(RecoveredChunk \<times> bytes option) list \<Rightarrow> nat \<Rightarrow> nat \<Rightarrow> nat \<Rightarrow> Plog \<Rightarrow> Plog \<times> bool" where
  "recover_sector cvs blockStart sealed start p =
     (let stop = min (start + SectorSize) (logicalLength p);
          n = stop - start
      in case cover_sector start stop cvs (replicate n 0, replicate n False) of
           None \<Rightarrow> (p, False)
         | Some (sector, covered) \<Rightarrow>
             if \<not> list_all id covered then (p, False)
             else if start = sealed then (p\<lparr>buf := copy_at (buf p) 0 sector, bufCorrupt := False\<rparr>, True)
             else (p\<lparr>hashes := copy_at (hashes p) ((start - blockStart) div SectorSize * HashSize) (sectorHash sector)\<rparr>, True))"

fun recover_sectors ::
  "(RecoveredChunk \<times> bytes option) list \<Rightarrow> nat \<Rightarrow> nat \<Rightarrow> nat list \<Rightarrow> bool \<Rightarrow> Plog \<Rightarrow> Plog \<times> bool" where
  "recover_sectors cvs blockStart sealed [] allVerified p = (p, allVerified)"
| "recover_sectors cvs blockStart sealed (start # starts) allVerified p =
     (case recover_sector cvs blockStart sealed start p of
        (p, ok) \<Rightarrow> recover_sectors cvs blockStart sealed starts (allVerified \<and> ok) p)"

definition sector_starts :: "nat \<Rightarrow> nat \<Rightarrow> nat list" where
  "sector_starts lo hi = map (\<lambda>i. lo + i * SectorSize) [0..<(hi - lo + SectorSize - 1) div SectorSize]"

definition RecoverHashes ::
  "(uint32 \<Rightarrow> nat \<Rightarrow> nat \<Rightarrow> RecoveredChunk list result) \<Rightarrow> (Plog, unit) io" where
  "RecoverHashes RecoverChunks p =
     (if loadedFromTrailer p then (p, Inr ())
      else
        let partial = logicalLength p mod SectorSize;
            sealed = logicalLength p - partial;
            blockStart = (sealed div DataPerBlock) * DataPerBlock;
            sealedCount = (sealed - blockStart) div SectorSize;
            p = p\<lparr>hashes := replicate (sealedCount * HashSize) 0, bufCorrupt := (0 < partial),
                  openUnverified := (blockStart < logicalLength p)\<rparr>
        in if blockStart = logicalLength p then (p, Inr ())
           else case RecoverChunks (pid p) (CalcPhysical blockStart) (CalcPhysical (logicalLength p)) of
             Inl e \<Rightarrow> (p, Inl e)
           | Inr chunks \<Rightarrow>
               (case recover_sectors (map (\<lambda>c. (c, verify_chunk p c)) chunks) blockStart sealed
                       (sector_starts blockStart (logicalLength p)) True p of
                  (p, allVerified) \<Rightarrow> (p\<lparr>openUnverified := \<not> allVerified\<rparr>, Inr ())))"

end
