(* ===== verification/Rose_Plog_Inv.thy ===== *)
theory Rose_Plog_Inv
  imports Rose_Plog
begin

text \<open>
  What a plog's memory and file look like when they hold a byte stream: the geometry of
  \<^verbatim>\<open>CalcPhysical\<close> and \<^verbatim>\<open>CalcLogical\<close>, the image of a stream on disk, the representation predicates
  \<open>mem_ok\<close> and \<open>disk_ok\<close>, and the proof that reading a represented stream returns its bytes.
\<close>

section \<open>Geometry\<close>

lemma SectorSize_pos [simp]: "0 < SectorSize" by (simp add: SectorSize_def)
lemma HashesPerBlock_pos [simp]: "0 < HashesPerBlock" by (simp add: HashesPerBlock_def)
lemma HashSize_pos [simp]: "0 < HashSize" by (simp add: HashSize_def)
lemma DataPerBlock_pos [simp]: "0 < DataPerBlock" by (simp add: geometry)
lemma BlockPhysical_pos [simp]: "0 < BlockPhysical" by (simp add: geometry)
lemma DataPerBlock_lt: "DataPerBlock < BlockPhysical" by (simp add: geometry)

lemma CalcLogical_CalcPhysical_inv: "CalcLogical (CalcPhysical n) = n"
proof -
  have "n mod DataPerBlock < BlockPhysical" "\<not> DataPerBlock < n mod DataPerBlock"
    using mod_less_divisor [OF DataPerBlock_pos, of n] DataPerBlock_lt by linarith+
  then show ?thesis by (simp add: CalcLogical_def CalcPhysical_def Let_def)
qed

lemma CalcPhysical_split: "CalcPhysical (b * DataPerBlock + r) = CalcPhysical r + b * BlockPhysical"
  by (simp add: CalcPhysical_def algebra_simps)

lemma CalcPhysical_small: "r < DataPerBlock \<Longrightarrow> CalcPhysical r = plogHeaderSize + r"
  by (simp add: CalcPhysical_def)

lemma CalcPhysical_block: "CalcPhysical (b * DataPerBlock) = plogHeaderSize + b * BlockPhysical"
  by (simp add: CalcPhysical_def)

lemma CalcPhysical_less:
  assumes "m < n" shows "CalcPhysical m < CalcPhysical n"
proof (cases "m div DataPerBlock = n div DataPerBlock")
  case True
  with assms have "m mod DataPerBlock < n mod DataPerBlock"
    by (metis div_mult_mod_eq nat_add_left_cancel_less)
  with True show ?thesis by (simp add: CalcPhysical_def)
next
  case False
  with assms have "m div DataPerBlock + 1 \<le> n div DataPerBlock"
    using div_le_mono [of m n DataPerBlock] by simp
  then have "(m div DataPerBlock + 1) * BlockPhysical \<le> n div DataPerBlock * BlockPhysical"
    by (rule mult_le_mono1)
  moreover have "m mod DataPerBlock < BlockPhysical"
    using mod_less_divisor [OF DataPerBlock_pos, of m] DataPerBlock_lt by linarith
  ultimately show ?thesis by (simp add: CalcPhysical_def)
qed

lemma CalcPhysical_mono: "m \<le> n \<Longrightarrow> CalcPhysical m \<le> CalcPhysical n"
  using CalcPhysical_less [of m n] by (cases "m = n") auto

lemma CalcPhysical_header: "plogHeaderSize \<le> CalcPhysical n"
  by (simp add: CalcPhysical_def)

lemma CalcPhysical_sector:
  "CalcPhysical (i * SectorSize) = (1 + i + i div HashesPerBlock) * SectorSize"
proof -
  have d: "i * SectorSize div DataPerBlock = i div HashesPerBlock"
    by (simp add: DataPerBlock_def)
  have m: "i * SectorSize mod DataPerBlock = (i mod HashesPerBlock) * SectorSize"
    by (simp add: DataPerBlock_def mult_mod_left)
  have e: "i div HashesPerBlock * (HashesPerBlock + 1) + i mod HashesPerBlock = i + i div HashesPerBlock"
    using div_mult_mod_eq [of i HashesPerBlock] by (simp add: algebra_simps)
  have "CalcPhysical (i * SectorSize) =
      SectorSize + (i div HashesPerBlock * (HashesPerBlock + 1) + i mod HashesPerBlock) * SectorSize"
    unfolding CalcPhysical_def d m BlockPhysical_def plogHeaderSize_def by (simp only: add_mult_distrib mult.assoc add.assoc)
  then show ?thesis
    unfolding e by (simp add: add_mult_distrib)
qed

lemma hashSectorPhys_sector:
  "hashSectorPhys b = (1 + b * (HashesPerBlock + 1) + HashesPerBlock) * SectorSize"
  by (simp add: hashSectorPhys_def BlockPhysical_def DataPerBlock_def plogHeaderSize_def algebra_simps)

section \<open>The sectors of a stream\<close>

definition nsec :: "bytes \<Rightarrow> nat" where
  "nsec s = length s div SectorSize"

definition sector :: "bytes \<Rightarrow> nat \<Rightarrow> bytes" where
  "sector s i = bslice (i * SectorSize) ((i + 1) * SectorSize) s"

definition sectors_of :: "bytes \<Rightarrow> bytes list" where
  "sectors_of s = map (sector s) [0..<nsec s]"

definition tail_of :: "bytes \<Rightarrow> bytes" where
  "tail_of s = drop (nsec s * SectorSize) s"

lemma nsec_le: "nsec s * SectorSize \<le> length s"
  by (simp add: nsec_def)

lemma length_tail_of: "length (tail_of s) = length s mod SectorSize"
  by (simp add: tail_of_def nsec_def minus_div_mult_eq_mod)

lemma length_tail_of_lt: "length (tail_of s) < SectorSize"
  by (simp add: length_tail_of)

lemma length_sectors_of [simp]: "length (sectors_of s) = nsec s"
  by (simp add: sectors_of_def)

lemma sector_in: "i < nsec s \<Longrightarrow> (i + 1) * SectorSize \<le> length s"
  using nsec_le [of s] mult_le_mono1 [of "i + 1" "nsec s" SectorSize] by linarith

lemma length_sector: "i < nsec s \<Longrightarrow> length (sector s i) = SectorSize"
  using sector_in [of i s] by (simp add: sector_def algebra_simps)

lemma sealed_len: "length s - length (tail_of s) = nsec s * SectorSize"
  by (simp add: tail_of_def nsec_le)

lemma nsec_append_exact:
  "length a = n * SectorSize \<Longrightarrow> nsec (a @ b) = n + nsec b"
  by (simp add: nsec_def)

lemma sectors_of_append_exact:
  assumes "length a = n * SectorSize"
  shows "sectors_of (a @ b) = sectors_of a @ sectors_of b" "tail_of (a @ b) = tail_of b"
proof -
  have na: "nsec a = n" using assms by (simp add: nsec_def)
  show "tail_of (a @ b) = tail_of b"
    using assms by (simp add: tail_of_def nsec_append_exact [OF assms] add_mult_distrib)
  show "sectors_of (a @ b) = sectors_of a @ sectors_of b"
  proof (rule nth_equalityI)
    show "length (sectors_of (a @ b)) = length (sectors_of a @ sectors_of b)"
      by (simp add: na nsec_append_exact [OF assms])
    fix i
    assume "i < length (sectors_of (a @ b))"
    then have i: "i < n + nsec b" by (simp add: nsec_append_exact [OF assms])
    show "sectors_of (a @ b) ! i = (sectors_of a @ sectors_of b) ! i"
    proof (cases "i < n")
      case True
      then have "(i + 1) * SectorSize \<le> length a" using assms mult_le_mono1 [of "i + 1" n SectorSize] by simp
      with True i show ?thesis
        by (simp add: nth_append na sectors_of_def nsec_append_exact [OF assms] sector_def)
    next
      case False
      then have "length a \<le> i * SectorSize" using assms by simp
      moreover have "i * SectorSize - length a = (i - n) * SectorSize"
        "(i + 1) * SectorSize - length a = (i - n + 1) * SectorSize"
        using assms False by (simp_all add: diff_mult_distrib)
      ultimately show ?thesis
        using False i
        by (simp add: nth_append na sectors_of_def nsec_append_exact [OF assms] sector_def bslice_append_right)
    qed
  qed
qed

lemma stream_split: "s = take (nsec s * SectorSize) s @ tail_of s"
  by (simp add: tail_of_def)

lemma sectors_of_append: "sectors_of (s @ d) = sectors_of s @ sectors_of (tail_of s @ d)"
  and tail_of_append: "tail_of (s @ d) = tail_of (tail_of s @ d)"
proof -
  let ?a = "take (nsec s * SectorSize) s"
  have a: "length ?a = nsec s * SectorSize" using nsec_le [of s] by simp
  have sd: "s @ d = ?a @ (tail_of s @ d)" using stream_split [of s] by simp
  have "sectors_of ?a @ sectors_of (tail_of s) = sectors_of s"
    using sectors_of_append_exact(1) [OF a, of "tail_of s"] stream_split [of s] by simp
  moreover have "sectors_of (tail_of s) = []"
    using length_tail_of_lt [of s] by (simp add: sectors_of_def nsec_def)
  ultimately have "sectors_of ?a = sectors_of s" by simp
  with sectors_of_append_exact [OF a, of "tail_of s @ d"]
  show "sectors_of (s @ d) = sectors_of s @ sectors_of (tail_of s @ d)" "tail_of (s @ d) = tail_of (tail_of s @ d)"
    unfolding sd by (simp_all only:)
qed

lemma sectors_of_short: "length d < SectorSize \<Longrightarrow> sectors_of d = [] \<and> tail_of d = d"
  by (simp add: sectors_of_def tail_of_def nsec_def)

lemma sectors_of_Cons:
  assumes "SectorSize \<le> length d"
  shows "sectors_of d = take SectorSize d # sectors_of (drop SectorSize d)" "tail_of d = tail_of (drop SectorSize d)"
proof -
  have l: "length (take SectorSize d) = 1 * SectorSize" using assms by simp
  have "sectors_of (take SectorSize d) = [take SectorSize d]"
    using assms by (simp add: sectors_of_def nsec_def sector_def)
  with sectors_of_append_exact [OF l, of "drop SectorSize d"]
  show "sectors_of d = take SectorSize d # sectors_of (drop SectorSize d)" "tail_of d = tail_of (drop SectorSize d)"
    by simp_all
qed

section \<open>The image of a stream\<close>

text \<open>
  Sealing the sectors of a stream one after the other gives the running hashes of its open
  block and the bytes that follow the superblock on disk: every sealed sector, and after each
  255th the hash sector of its block.
\<close>

definition seal_all :: "bytes list \<Rightarrow> seal_state \<Rightarrow> seal_state" where
  "seal_all secs st = fold (\<lambda>sec. seal_sector sec SectorSize) secs st"

definition open_hashes :: "bytes \<Rightarrow> bytes" where
  "open_hashes s = fst (seal_all (sectors_of s) ([], 0, []))"

definition disk_image :: "bytes \<Rightarrow> bytes" where
  "disk_image s = snd (snd (seal_all (sectors_of s) ([], 0, [])))"

lemma seal_all_Nil [simp]: "seal_all [] st = st"
  by (simp add: seal_all_def)

lemma seal_all_Cons [simp]: "seal_all (x # xs) st = seal_all xs (seal_sector x SectorSize st)"
  by (simp add: seal_all_def)

lemma seal_all_append: "seal_all (xs @ ys) st = seal_all ys (seal_all xs st)"
  by (simp add: seal_all_def)

lemma seal_sectors_eq: "seal_sectors d st = (tail_of d, seal_all (sectors_of d) st)"
proof (induction d st rule: seal_sectors.induct)
  case (1 d st)
  show ?case
  proof (cases "SectorSize \<le> length d")
    case True
    with 1 show ?thesis by (subst seal_sectors.simps) (simp add: sectors_of_Cons [OF True])
  next
    case False
    then show ?thesis using sectors_of_short [of d] by (subst seal_sectors.simps) simp
  qed
qed

text \<open>The output of sealing does not depend on what was sealed before it.\<close>

lemma seal_all_out:
  "seal_all xs (hs, len, out @ out') =
     (case seal_all xs (hs, len, out') of (hs', len', o') \<Rightarrow> (hs', len', out @ o'))"
proof (induction xs arbitrary: hs len out')
  case (Cons x xs)
  have "seal_sector x SectorSize (hs, len, out @ out') =
      (case seal_sector x SectorSize (hs, len, out') of (hs', len', o') \<Rightarrow> (hs', len', out @ o'))"
    by (simp add: seal_sector_def Let_def)
  then show ?case using Cons by (cases "seal_sector x SectorSize (hs, len, out')") simp
qed simp

lemma seal_all_len: "fst (snd (seal_all xs (hs, len, out))) = len + length xs * SectorSize"
proof (induction xs arbitrary: hs len out)
  case (Cons x xs)
  have "fst (snd (seal_sector x SectorSize (hs, len, out))) = len + SectorSize"
    by (simp add: seal_sector_def Let_def)
  then show ?case using Cons by (cases "seal_sector x SectorSize (hs, len, out)") simp
qed simp

lemma seal_all_stream:
  "seal_all (sectors_of s) ([], 0, []) = (open_hashes s, nsec s * SectorSize, disk_image s)"
  using seal_all_len [of "sectors_of s" "[]" 0 "[]"]
  by (simp add: open_hashes_def disk_image_def prod_eq_iff)
lemma length_sectorHash [simp]: "length (sectorHash d) = HashSize"
  by (simp add: sectorHash_def HashSize_def)

lemma length_completedBlockMAC [simp]: "length (completedBlockMAC b hs) = HashSize"
  by (simp add: completedBlockMAC_def HashSize_def)

lemma length_openBlockMAC [simp]: "length (openBlockMAC b x y) = HashSize"
  by (simp add: openBlockMAC_def HashSize_def)

lemma length_hash_sector [simp]: "length (hash_sector b hs) = SectorSize"
  by (simp add: hash_sector_def)

lemma hash_sector_parts:
  assumes "length hs = HashesPerBlock * HashSize"
  shows "take (HashesPerBlock * HashSize) (hash_sector b hs) = hs"
    "drop (HashesPerBlock * HashSize) (hash_sector b hs) = completedBlockMAC b hs"
  using assms by (simp_all add: hash_sector_def copy_at_def geometry)

text \<open>The concatenated hashes of a list of sectors.\<close>

definition hashes_of :: "bytes list \<Rightarrow> bytes" where
  "hashes_of secs = concat (map sectorHash secs)"

lemma length_hashes_of [simp]: "length (hashes_of secs) = length secs * HashSize"
  by (induction secs) (simp_all add: hashes_of_def)

lemma hashes_of_append: "hashes_of (xs @ ys) = hashes_of xs @ hashes_of ys"
  by (simp add: hashes_of_def)

lemma bslice_hashes_of:
  "j < length secs \<Longrightarrow> bslice (j * HashSize) (j * HashSize + HashSize) (hashes_of secs) = sectorHash (secs ! j)"
proof (induction secs arbitrary: j)
  case (Cons x xs)
  show ?case
  proof (cases j)
    case 0
    then show ?thesis by (simp add: hashes_of_def bslice_def)
  next
    case (Suc k)
    have "bslice (Suc k * HashSize) (Suc k * HashSize + HashSize) (sectorHash x @ hashes_of xs)
        = bslice (k * HashSize) (k * HashSize + HashSize) (hashes_of xs)"
      by (subst bslice_append_right) (simp_all add: add.commute)
    with Suc Cons show ?thesis by (simp add: hashes_of_def)
  qed
qed simp

text \<open>What the first \<open>n\<close> sealed sectors leave behind.\<close>

definition sealed_ok :: "bytes list \<Rightarrow> seal_state \<Rightarrow> bool" where
  "sealed_ok secs st \<longleftrightarrow>
     (case st of (hs, len, out) \<Rightarrow>
        len = length secs * SectorSize \<and>
        hs = hashes_of (drop (length secs div HashesPerBlock * HashesPerBlock) secs) \<and>
        length out = (length secs + length secs div HashesPerBlock) * SectorSize \<and>
        (\<forall>i < length secs. bslice ((i + i div HashesPerBlock) * SectorSize)
            ((i + i div HashesPerBlock + 1) * SectorSize) out = secs ! i) \<and>
        (\<forall>b < length secs div HashesPerBlock.
           bslice ((b * (HashesPerBlock + 1) + HashesPerBlock) * SectorSize)
             ((b * (HashesPerBlock + 1) + HashesPerBlock + 1) * SectorSize) out
           = hash_sector b (hashes_of (take HashesPerBlock (drop (b * HashesPerBlock) secs)))))"

lemma sealed_okI:
  assumes "len = length secs * SectorSize"
    and "hs = hashes_of (drop (length secs div HashesPerBlock * HashesPerBlock) secs)"
    and "length out = (length secs + length secs div HashesPerBlock) * SectorSize"
    and "\<And>i. i < length secs \<Longrightarrow> bslice ((i + i div HashesPerBlock) * SectorSize)
            ((i + i div HashesPerBlock + 1) * SectorSize) out = secs ! i"
    and "\<And>b. b < length secs div HashesPerBlock \<Longrightarrow>
           bslice ((b * (HashesPerBlock + 1) + HashesPerBlock) * SectorSize)
             ((b * (HashesPerBlock + 1) + HashesPerBlock + 1) * SectorSize) out
           = hash_sector b (hashes_of (take HashesPerBlock (drop (b * HashesPerBlock) secs)))"
  shows "sealed_ok secs (hs, len, out)"
  using assms unfolding sealed_ok_def by blast

lemma div_le_bound: "i < n \<Longrightarrow> i + i div k + 1 \<le> n + n div (k :: nat)"
  using div_le_mono [of i n k] by linarith

lemma block_le_bound:
  assumes "b < n div k" shows "b * (k + 1) + k + 1 \<le> n + n div (k :: nat)"
proof -
  from assms have "(b + 1) * (k + 1) \<le> n div k * (k + 1)" by (intro mult_le_mono1) simp
  also have "\<dots> = n div k * k + n div k" by simp
  also have "\<dots> \<le> n + n div k" by simp
  finally show ?thesis by simp
qed

lemma Suc_div_full: "n mod k = k - 1 \<Longrightarrow> 0 < k \<Longrightarrow> Suc n div k = Suc (n div k)"
  by (simp add: div_Suc mod_Suc)

lemma Suc_div_part: "n mod k \<noteq> k - 1 \<Longrightarrow> 0 < k \<Longrightarrow> Suc n div k = n div (k::nat)"
  by (auto simp: div_Suc mod_Suc)

lemma sealed_ok_step:
  assumes ok: "sealed_ok secs st" and x: "length x = SectorSize"
  shows "sealed_ok (secs @ [x]) (seal_sector x SectorSize st)"
proof -
  obtain hs len out where st: "st = (hs, len, out)" by (metis surj_pair)
  let ?n = "length secs" and ?H = HashesPerBlock and ?S = SectorSize
  let ?B = "?n div ?H"
  have len: "len = ?n * ?S" and hs: "hs = hashes_of (drop (?B * ?H) secs)"
    and lo: "length out = (?n + ?B) * ?S"
    and sec: "\<And>i. i < ?n \<Longrightarrow> bslice ((i + i div ?H) * ?S) ((i + i div ?H + 1) * ?S) out = secs ! i"
    and blk: "\<And>b. b < ?B \<Longrightarrow> bslice ((b * (?H + 1) + ?H) * ?S) ((b * (?H + 1) + ?H + 1) * ?S) out
        = hash_sector b (hashes_of (take ?H (drop (b * ?H) secs)))"
    using ok st by (auto simp: sealed_ok_def)
  have n: "?n = ?B * ?H + ?n mod ?H" by simp
  have lh: "length (hs @ sectorHash x) = (?n mod ?H + 1) * HashSize"
  proof -
    have "length hs = (?n - ?B * ?H) * HashSize" using hs by simp
    then show ?thesis by (simp add: minus_div_mult_eq_mod add_mult_distrib)
  qed
  have full: "length (hs @ sectorHash x) = ?H * HashSize \<longleftrightarrow> ?n mod ?H = ?H - 1"
    unfolding lh by (subst mult_cancel2) (auto simp: HashSize_def HashesPerBlock_def)
  have drp: "drop (?B * ?H) (secs @ [x]) = drop (?B * ?H) secs @ [x]"
    using n by (simp del: div_mult_mod_eq)
  have hsx: "hs @ sectorHash x = hashes_of (drop (?B * ?H) secs @ [x])"
    using hs by (simp add: hashes_of_def)
  have old_sec: "bslice ((i + i div ?H) * ?S) ((i + i div ?H + 1) * ?S) (out @ more) = (secs @ [x]) ! i"
    if "i < ?n" for i more
  proof -
    have le: "(i + i div ?H + 1) * ?S \<le> length out"
      unfolding lo using div_le_bound [OF that, of ?H] by (rule mult_le_mono1)
    have "(secs @ [x]) ! i = secs ! i" using that by (simp add: nth_append)
    with sec [OF that] show ?thesis by (simp only: bslice_append_left [OF le])
  qed
  have new_sec: "bslice ((?n + ?B) * ?S) ((?n + ?B + 1) * ?S) (out @ x @ more) = (secs @ [x]) ! ?n" for more
    using lo x by (simp add: bslice_append_right algebra_simps)
  have old_blk: "bslice ((b * (?H + 1) + ?H) * ?S) ((b * (?H + 1) + ?H + 1) * ?S) (out @ more)
      = hash_sector b (hashes_of (take ?H (drop (b * ?H) (secs @ [x]))))" if "b < ?B" for b more
  proof -
    have le: "(b * (?H + 1) + ?H + 1) * ?S \<le> length out"
      unfolding lo using block_le_bound [OF that] by (rule mult_le_mono1)
    have "(b + 1) * ?H \<le> ?B * ?H" using that by (intro mult_le_mono1) simp
    then have "b * ?H + ?H \<le> ?B * ?H" by (simp add: add.commute)
    then have "b * ?H + ?H \<le> ?n" using div_times_less_eq_dividend [of ?n ?H] by (rule order_trans)
    then have tk: "take ?H (drop (b * ?H) (secs @ [x])) = take ?H (drop (b * ?H) secs)" by simp
    show ?thesis using blk [OF that] by (simp only: tk bslice_append_left [OF le])
  qed
  show ?thesis
  proof (cases "?n mod ?H = ?H - 1")
    case True
    have B: "Suc ?n div ?H = Suc ?B" using True by (simp add: Suc_div_full)
    have nn: "Suc ?n = Suc ?B * ?H" unfolding mult_Suc using n True HashesPerBlock_pos by linarith
    have idx: "(len + ?S) div DataPerBlock - 1 = ?B"
    proof -
      have "len + ?S = Suc ?n * ?S" using len by simp
      then have "len + ?S = Suc ?B * DataPerBlock" by (simp only: nn DataPerBlock_def mult.assoc)
      then show ?thesis by simp
    qed
    have st': "seal_sector x ?S st = ([], Suc ?n * ?S, out @ x @ hash_sector ?B (hs @ sectorHash x))"
      using True full idx len st by (simp add: seal_sector_def Let_def)
    have tk: "take ?H (drop (?B * ?H) (secs @ [x])) = drop (?B * ?H) secs @ [x]"
      using nn drp by simp
    have new_blk: "bslice ((?B * (?H + 1) + ?H) * ?S) ((?B * (?H + 1) + ?H + 1) * ?S)
        (out @ x @ hash_sector ?B (hs @ sectorHash x)) = hash_sector ?B (hashes_of (take ?H (drop (?B * ?H) (secs @ [x]))))"
    proof -
      have e: "length (out @ x) = (?B * (?H + 1) + ?H) * ?S"
      proof -
        have "?n + ?B + 1 = ?B * (?H + 1) + ?H" using nn by simp
        then show ?thesis using lo x by (metis add_mult_distrib length_append mult_1)
      qed
      then have e2: "(?B * (?H + 1) + ?H + 1) * ?S = length (out @ x) + ?S" by simp
      have "bslice (length (out @ x)) (length (out @ x) + ?S) ((out @ x) @ hash_sector ?B (hs @ sectorHash x))
          = hash_sector ?B (hs @ sectorHash x)"
        by (subst bslice_append_right) simp_all
      then show ?thesis unfolding tk hsx [symmetric] e2 e [symmetric] by (simp only: append_assoc)
    qed
    have B': "length (secs @ [x]) div ?H = Suc ?B" using B by simp
    show ?thesis
      unfolding st'
    proof (rule sealed_okI, unfold B')
      show "[] = hashes_of (drop (Suc ?B * ?H) (secs @ [x]))" using nn by (simp add: hashes_of_def)
      show "length (out @ x @ hash_sector ?B (hs @ sectorHash x)) = (length (secs @ [x]) + Suc ?B) * ?S"
        using lo x by (simp add: algebra_simps)
      show "bslice ((i + i div ?H) * ?S) ((i + i div ?H + 1) * ?S) (out @ x @ hash_sector ?B (hs @ sectorHash x)) = (secs @ [x]) ! i"
        if "i < length (secs @ [x])" for i
        using that old_sec new_sec by (cases "i = ?n") auto
      show "bslice ((b * (?H + 1) + ?H) * ?S) ((b * (?H + 1) + ?H + 1) * ?S) (out @ x @ hash_sector ?B (hs @ sectorHash x))
          = hash_sector b (hashes_of (take ?H (drop (b * ?H) (secs @ [x]))))" if "b < Suc ?B" for b
        using that by (cases "b = ?B") (simp only: new_blk, rule old_blk, simp)
    qed simp
  next
    case False
    have B: "Suc ?n div ?H = ?B" using False by (simp add: Suc_div_part)
    have st': "seal_sector x ?S st = (hs @ sectorHash x, Suc ?n * ?S, out @ x)"
      using False full len st by (simp add: seal_sector_def Let_def)
    have B': "length (secs @ [x]) div ?H = ?B" using B by simp
    show ?thesis
      unfolding st'
    proof (rule sealed_okI, unfold B')
      show "hs @ sectorHash x = hashes_of (drop (?B * ?H) (secs @ [x]))" by (simp only: hsx drp)
      show "length (out @ x) = (length (secs @ [x]) + ?B) * ?S" using lo x by (simp add: algebra_simps)
      show "bslice ((i + i div ?H) * ?S) ((i + i div ?H + 1) * ?S) (out @ x) = (secs @ [x]) ! i"
        if "i < length (secs @ [x])" for i
        using that old_sec new_sec [of "[]"] by (cases "i = ?n") auto
      show "bslice ((b * (?H + 1) + ?H) * ?S) ((b * (?H + 1) + ?H + 1) * ?S) (out @ x)
          = hash_sector b (hashes_of (take ?H (drop (b * ?H) (secs @ [x]))))" if "b < ?B" for b
        by (rule old_blk [OF that])
    qed simp
  qed
qed

lemma sealed_ok_all: "list_all (\<lambda>x. length x = SectorSize) secs \<Longrightarrow> sealed_ok secs (seal_all secs ([], 0, []))"
proof (induction secs rule: rev_induct)
  case Nil
  then show ?case by (simp add: sealed_ok_def hashes_of_def)
next
  case (snoc x xs)
  then show ?case by (simp add: seal_all_append sealed_ok_step)
qed

lemma list_all_sectors_of: "list_all (\<lambda>x. length x = SectorSize) (sectors_of s)"
  by (auto simp: list_all_iff sectors_of_def length_sector)

lemma stream_sealed_ok: "sealed_ok (sectors_of s) (open_hashes s, nsec s * SectorSize, disk_image s)"
  using sealed_ok_all [OF list_all_sectors_of, of s] by (simp add: seal_all_stream)

lemma nth_sectors_of [simp]: "i < nsec s \<Longrightarrow> sectors_of s ! i = sector s i"
  by (simp add: sectors_of_def)

text \<open>The hashes a completed block records.\<close>

definition block_hashes :: "bytes \<Rightarrow> nat \<Rightarrow> bytes" where
  "block_hashes s b = hashes_of (take HashesPerBlock (drop (b * HashesPerBlock) (sectors_of s)))"

lemma length_image: "SectorSize + length (disk_image s) = CalcPhysical (nsec s * SectorSize)"
  using stream_sealed_ok [of s] by (simp add: sealed_ok_def CalcPhysical_sector add_mult_distrib)

lemma image_sector:
  assumes "i < nsec s"
  shows "bslice (CalcPhysical (i * SectorSize) - SectorSize) (CalcPhysical (i * SectorSize)) (disk_image s) = sector s i"
    "CalcPhysical (i * SectorSize) + SectorSize \<le> SectorSize + length (disk_image s)"
proof -
  have sec: "bslice ((i + i div HashesPerBlock) * SectorSize) ((i + i div HashesPerBlock + 1) * SectorSize) (disk_image s)
      = sector s i"
    using stream_sealed_ok [of s] assms by (simp add: sealed_ok_def)
  have e: "CalcPhysical (i * SectorSize) - SectorSize = (i + i div HashesPerBlock) * SectorSize"
    "CalcPhysical (i * SectorSize) = (i + i div HashesPerBlock + 1) * SectorSize"
    by (simp_all add: CalcPhysical_sector add_mult_distrib)
  show "bslice (CalcPhysical (i * SectorSize) - SectorSize) (CalcPhysical (i * SectorSize)) (disk_image s) = sector s i"
    unfolding e(1) unfolding e(2) by (rule sec)
  have "(1 + i + i div HashesPerBlock + 1) * SectorSize \<le> (1 + (nsec s + nsec s div HashesPerBlock)) * SectorSize"
    using div_le_bound [OF assms, of HashesPerBlock] by (intro mult_le_mono1) simp
  then show "CalcPhysical (i * SectorSize) + SectorSize \<le> SectorSize + length (disk_image s)"
    unfolding length_image CalcPhysical_sector by (simp add: algebra_simps)
qed

lemma image_hash_sector:
  assumes "b < nsec s div HashesPerBlock"
  shows "bslice (hashSectorPhys b - SectorSize) (hashSectorPhys b) (disk_image s) = hash_sector b (block_hashes s b)"
    "hashSectorPhys b + SectorSize \<le> SectorSize + length (disk_image s)"
proof -
  have blk: "bslice ((b * (HashesPerBlock + 1) + HashesPerBlock) * SectorSize)
      ((b * (HashesPerBlock + 1) + HashesPerBlock + 1) * SectorSize) (disk_image s) = hash_sector b (block_hashes s b)"
    using stream_sealed_ok [of s] assms by (simp add: sealed_ok_def block_hashes_def)
  have e: "hashSectorPhys b - SectorSize = (b * (HashesPerBlock + 1) + HashesPerBlock) * SectorSize"
    "hashSectorPhys b = (b * (HashesPerBlock + 1) + HashesPerBlock + 1) * SectorSize"
    by (simp_all add: hashSectorPhys_sector add_mult_distrib)
  show "bslice (hashSectorPhys b - SectorSize) (hashSectorPhys b) (disk_image s) = hash_sector b (block_hashes s b)"
    unfolding e(1) unfolding e(2) by (rule blk)
  have "(b * (HashesPerBlock + 1) + HashesPerBlock + 1 + 1) * SectorSize \<le> (1 + (nsec s + nsec s div HashesPerBlock)) * SectorSize"
    using block_le_bound [OF assms] by (intro mult_le_mono1) simp
  then show "hashSectorPhys b + SectorSize \<le> SectorSize + length (disk_image s)"
    unfolding length_image CalcPhysical_sector e(2) by (simp add: algebra_simps)
qed

lemma length_block_hashes:
  assumes "b < nsec s div HashesPerBlock"
  shows "length (block_hashes s b) = HashesPerBlock * HashSize"
proof -
  have "(b + 1) * HashesPerBlock \<le> nsec s div HashesPerBlock * HashesPerBlock"
    using assms by (intro mult_le_mono1) simp
  also have "\<dots> \<le> nsec s" by simp
  finally have "HashesPerBlock \<le> nsec s - b * HashesPerBlock" by simp
  then show ?thesis by (simp add: block_hashes_def min_def)
qed

lemma block_hashes_sector:
  assumes "i < nsec s" "i div HashesPerBlock < nsec s div HashesPerBlock"
  shows "bslice (i mod HashesPerBlock * HashSize) (i mod HashesPerBlock * HashSize + HashSize)
     (block_hashes s (i div HashesPerBlock)) = sectorHash (sector s i)"
proof -
  have "i mod HashesPerBlock + i div HashesPerBlock * HashesPerBlock < nsec s" using assms(1) by simp
  then have "i mod HashesPerBlock < nsec s - i div HashesPerBlock * HashesPerBlock" by (simp only: less_diff_conv)
  then have "i mod HashesPerBlock < length (take HashesPerBlock (drop (i div HashesPerBlock * HashesPerBlock) (sectors_of s)))"
    by simp
  from bslice_hashes_of [OF this] show ?thesis
    using assms(1) order_trans [OF div_times_less_eq_dividend [of i HashesPerBlock] less_imp_le [OF assms(1)]]
    by (simp add: block_hashes_def)
qed

lemma open_hashes_sector:
  assumes "i < nsec s" "\<not> i div HashesPerBlock < nsec s div HashesPerBlock"
  shows "bslice (i mod HashesPerBlock * HashSize) (i mod HashesPerBlock * HashSize + HashSize) (open_hashes s)
      = sectorHash (sector s i)" (is ?T)
    and "i mod HashesPerBlock * HashSize + HashSize \<le> length (open_hashes s)" (is ?L)
proof -
  have d: "i div HashesPerBlock = nsec s div HashesPerBlock"
    using assms div_le_mono [of i "nsec s" HashesPerBlock] by simp
  have i: "nsec s div HashesPerBlock * HashesPerBlock + i mod HashesPerBlock = i"
    using d by (metis div_mult_mod_eq)
  have oh: "open_hashes s = hashes_of (drop (nsec s div HashesPerBlock * HashesPerBlock) (sectors_of s))"
    using stream_sealed_ok [of s] by (simp add: sealed_ok_def)
  have j: "i mod HashesPerBlock < length (drop (nsec s div HashesPerBlock * HashesPerBlock) (sectors_of s))"
    using assms(1) i by simp
  from bslice_hashes_of [OF this] show ?T
    unfolding oh using assms(1) i by simp
  have "(i mod HashesPerBlock + 1) * HashSize \<le> length (open_hashes s)"
    unfolding oh length_hashes_of using j by (intro mult_le_mono1) simp
  then show ?L by simp
qed

section \<open>The representation of a stream\<close>

text \<open>
  \<open>mem_ok p s\<close>: the cursor, buffered tail and running hashes in memory are those of the stream
  \<open>s\<close>, and nothing is marked unverified. \<open>disk_ok d s\<close>: the file content \<open>d\<close> holds the sealed part of
  \<open>s\<close> after the superblock; what follows it is free.
\<close>

definition mem_ok :: "Plog \<Rightarrow> bytes \<Rightarrow> bool" where
  "mem_ok p s \<longleftrightarrow> logicalLength p = length s \<and> buf p = tail_of s \<and> hashes p = open_hashes s
     \<and> \<not> bufCorrupt p \<and> \<not> openUnverified p"

definition disk_ok :: "bytes \<Rightarrow> bytes \<Rightarrow> bool" where
  "disk_ok d s \<longleftrightarrow> SectorSize + length (disk_image s) \<le> length d
     \<and> bslice SectorSize (SectorSize + length (disk_image s)) d = disk_image s"

definition readable :: "pfile \<Rightarrow> bool" where
  "readable f \<longleftrightarrow> (\<forall>i < length (content f). \<not> unreadable f i)"

lemma disk_ok_slice:
  assumes "disk_ok d s" "SectorSize \<le> i" "j \<le> SectorSize + length (disk_image s)"
  shows "bslice i j d = bslice (i - SectorSize) (j - SectorSize) (disk_image s)"
proof -
  have "bslice (i - SectorSize) (j - SectorSize) (bslice SectorSize (SectorSize + length (disk_image s)) d)
      = bslice (SectorSize + (i - SectorSize)) (SectorSize + (j - SectorSize)) d"
    using assms(3) by (intro bslice_slice) simp
  then show ?thesis
    using assms unfolding disk_ok_def by (cases "SectorSize \<le> j") simp_all
qed

lemma disk_ok_sector:
  assumes "disk_ok d s" "i < nsec s"
  shows "bslice (CalcPhysical (i * SectorSize)) (CalcPhysical (i * SectorSize) + SectorSize) d = sector s i"
    "CalcPhysical (i * SectorSize) + SectorSize \<le> length d"
  using disk_ok_slice [OF assms(1), of "CalcPhysical (i * SectorSize)" "CalcPhysical (i * SectorSize) + SectorSize"]
    image_sector [OF assms(2)] CalcPhysical_header [of "i * SectorSize"] assms(1)
  by (auto simp: disk_ok_def plogHeaderSize_def)

lemma disk_ok_hash_sector:
  assumes "disk_ok d s" "b < nsec s div HashesPerBlock"
  shows "bslice (hashSectorPhys b) (hashSectorPhys b + SectorSize) d = hash_sector b (block_hashes s b)"
    "hashSectorPhys b + SectorSize \<le> length d"
  using disk_ok_slice [OF assms(1), of "hashSectorPhys b" "hashSectorPhys b + SectorSize"]
    image_hash_sector [OF assms(2)] assms(1)
  by (auto simp: disk_ok_def hashSectorPhys_def plogHeaderSize_def)

lemma file_ReadAt_ok:
  assumes "readable f" "off + n \<le> length (content f)"
  shows "file_ReadAt f n off = Inr (bslice off (off + n) (content f))"
  using assms by (auto simp: file_ReadAt_def readable_def list_ex_iff)

text \<open>A file that reads at all reads its content or an error of the medium.\<close>

lemma file_ReadAt_cases:
  "off + n \<le> length (content f) \<Longrightarrow>
   file_ReadAt f n off = Inr (bslice off (off + n) (content f)) \<or> file_ReadAt f n off = Inl ErrIO"
  by (auto simp: file_ReadAt_def)

section \<open>Reading a represented stream\<close>

definition cache_ok :: "bytes \<Rightarrow> (nat \<rightharpoonup> bytes) \<Rightarrow> bool" where
  "cache_ok s hs \<longleftrightarrow> (\<forall>b h. hs b = Some h \<longrightarrow> b < nsec s div HashesPerBlock \<and> h = block_hashes s b)"

lemma complete_block_iff:
  "(b + 1) * DataPerBlock \<le> nsec s * SectorSize \<longleftrightarrow> b < nsec s div HashesPerBlock"
  "DataPerBlock + b * DataPerBlock \<le> nsec s * SectorSize \<longleftrightarrow> b < nsec s div HashesPerBlock"
proof -
  have "(b + 1) * DataPerBlock \<le> nsec s * SectorSize \<longleftrightarrow> (b + 1) * HashesPerBlock \<le> nsec s"
    unfolding DataPerBlock_def mult.assoc [symmetric] by (simp only: mult_le_cancel2) simp
  also have "\<dots> \<longleftrightarrow> b + 1 \<le> nsec s div HashesPerBlock"
    by (rule less_eq_div_iff_mult_less_eq [symmetric]) simp
  finally show "(b + 1) * DataPerBlock \<le> nsec s * SectorSize \<longleftrightarrow> b < nsec s div HashesPerBlock"
    by (simp only: Suc_eq_plus1 [symmetric] Suc_le_eq)
  then show "DataPerBlock + b * DataPerBlock \<le> nsec s * SectorSize \<longleftrightarrow> b < nsec s div HashesPerBlock"
    by simp
qed

lemma sectorHashFor_ok:
  assumes "mem_ok p s" "disk_ok (content (datafile p)) s" "readable (datafile p)" "cache_ok s hs" "i < nsec s"
  shows "\<exists>hs'. sectorHashFor p i (nsec s * SectorSize) hs = (hs', Inr (Some (sectorHash (sector s i)))) \<and> cache_ok s hs'"
proof (cases "i div HashesPerBlock < nsec s div HashesPerBlock")
  case True
  let ?b = "i div HashesPerBlock"
  have rd: "file_ReadAt (datafile p) SectorSize (hashSectorPhys ?b) = Inr (hash_sector ?b (block_hashes s ?b))"
    using file_ReadAt_ok [OF assms(3)] disk_ok_hash_sector [OF assms(2) True] by simp
  note parts = hash_sector_parts [OF length_block_hashes [OF True]] block_hashes_sector [OF assms(5) True]
  show ?thesis
  proof (cases "hs ?b")
    case None
    then show ?thesis
      using True assms(4) rd parts
      by (auto simp: sectorHashFor_def Let_def complete_block_iff cache_ok_def)
  next
    case (Some h)
    then show ?thesis
      using True assms(4) parts
      by (auto simp: sectorHashFor_def Let_def complete_block_iff cache_ok_def)
  qed
next
  case False
  with assms open_hashes_sector [OF assms(5) False] show ?thesis
    by (auto simp: sectorHashFor_def Let_def complete_block_iff mem_ok_def)
qed

lemma readDataSector_ok:
  assumes "mem_ok p s" "disk_ok (content (datafile p)) s" "readable (datafile p)" "cache_ok s hs" "i < nsec s"
  shows "\<exists>hs'. readDataSector p i (nsec s * SectorSize) hs = (hs', Inr (sector s i)) \<and> cache_ok s hs'"
proof -
  have "\<not> nsec s * SectorSize < i * SectorSize + SectorSize"
    using mult_le_mono1 [of "i + 1" "nsec s" SectorSize] assms(5) by simp
  moreover have "file_ReadAt (datafile p) SectorSize (CalcPhysical (i * SectorSize)) = Inr (sector s i)"
    using file_ReadAt_ok [OF assms(3)] disk_ok_sector [OF assms(2,5)] by simp
  ultimately show ?thesis
    using sectorHashFor_ok [OF assms] by (auto simp: readDataSector_def Let_def)
qed

lemma read_piece_ok:
  assumes "mem_ok p s" "disk_ok (content (datafile p)) s" "readable (datafile p)" "cache_ok s hs"
    and "cur < stop" "stop \<le> length s"
  defines "cur' \<equiv> min stop ((cur div SectorSize + 1) * SectorSize)"
  shows "\<exists>hs'. read_piece p cur stop hs = (hs', Inr (bslice cur cur' s, cur')) \<and> cache_ok s hs'"
proof -
  let ?i = "cur div SectorSize" and ?S = SectorSize
  have sealed: "logicalLength p - length (buf p) = nsec s * ?S"
    using assms(1) by (simp add: mem_ok_def sealed_len)
  have cur: "?i * ?S \<le> cur" "cur < ?i * ?S + ?S"
    using div_mult_mod_eq [of cur ?S] mod_less_divisor [OF SectorSize_pos, of cur] by linarith+
  have lt: "cur < cur'" using cur assms(5) by (simp add: cur'_def)
  show ?thesis
  proof (cases "?i < nsec s")
    case True
    from readDataSector_ok [OF assms(1-4) True] obtain hs' where
      hs': "readDataSector p ?i (nsec s * ?S) hs = (hs', Inr (sector s ?i))" "cache_ok s hs'" by blast
    define q where "q = ?i * ?S"
    have q: "q \<le> cur" "cur < q + ?S" "\<not> nsec s * ?S \<le> q" "cur' \<le> q + ?S"
      using cur True by (auto simp: q_def cur'_def)
    have ie: "if stop < q + ?S then cur' = stop else cur' = q + ?S"
      by (auto simp: cur'_def q_def min_def)
    have np: "\<not> cur' - q \<le> cur - q" "q + (cur' - q) = cur'" using q(1) lt by linarith+
    have "bslice (cur - q) (cur' - q) (sector s ?i) = bslice cur cur' s"
      unfolding sector_def using q(1,4) np by (subst bslice_slice) (simp_all add: q_def)
    then show ?thesis
      using hs' np q ie length_sector [OF True]
      by (cases "stop < q + ?S") (simp_all add: read_piece_def Let_def sealed q_def [symmetric])
  next
    case False
    then have i: "?i = nsec s" using assms(5,6) div_le_mono [of cur "length s" ?S] by (simp add: nsec_def)
    define q where "q = ?i * ?S"
    have q: "q \<le> cur" "q = nsec s * ?S" "q \<le> length s"
      using cur i assms(5,6) by (auto simp: q_def nsec_le)
    have tl: "tail_of s = drop q s" by (simp add: tail_of_def q(2))
    have "length s < q + ?S" using length_tail_of_lt [of s] q(3) by (simp add: tl)
    then have c: "cur' = stop" using assms(6) by (simp add: cur'_def q_def)
    have np: "\<not> stop - q \<le> cur - q" "q + (stop - q) = stop" "min ?S (length (drop q s)) = length s - q"
      "length s - q + q = length s"
      using q(1,3) assms(5,6) \<open>length s < q + ?S\<close> by simp_all
    have "bslice (cur - q) (stop - q) (drop q s) = bslice cur stop s"
      using q np by (simp add: bslice_drop)
    then show ?thesis
      using assms(1,4,6) np q
      by (cases "stop = length s")
         (simp_all add: read_piece_def Let_def sealed mem_ok_def tl c q_def [symmetric])
  qed
qed

lemma read_loop_ok:
  assumes "mem_ok p s" "disk_ok (content (datafile p)) s" "readable (datafile p)" "stop \<le> length s"
  shows "cache_ok s hs \<Longrightarrow> cur \<le> stop \<Longrightarrow> read_loop p cur stop hs out = Inr (out @ bslice cur stop s)"
proof (induction "stop - cur" arbitrary: cur hs out rule: less_induct)
  case less
  show ?case
  proof (cases "cur < stop")
    case False
    with less show ?thesis by (subst read_loop.simps) simp
  next
    case True
    let ?c = "min stop ((cur div SectorSize + 1) * SectorSize)"
    from read_piece_ok [OF assms(1-3) less.prems(1) True assms(4)] obtain hs' where
      hs': "read_piece p cur stop hs = (hs', Inr (bslice cur ?c s, ?c))" "cache_ok s hs'" by blast
    have c: "cur < ?c" using read_piece_progress [OF hs'(1)] .
    with True have "read_loop p ?c stop hs' (out @ bslice cur ?c s) = Inr ((out @ bslice cur ?c s) @ bslice ?c stop s)"
      by (intro less.hyps hs') auto
    moreover have "bslice cur ?c s @ bslice ?c stop s = bslice cur stop s"
      using c by (intro bslice_append_adjacent) auto
    ultimately show ?thesis using True hs'(1) by (subst read_loop.simps) simp
  qed
qed

lemma readLocked_ok:
  assumes "mem_ok p s" "disk_ok (content (datafile p)) s" "readable (datafile p)"
    and "0 \<le> off" "0 \<le> len" "off + len \<le> int (length s)" "length s < 2 ^ 63"
  shows "readLocked p off len = Inr (bslice (nat off) (nat (off + len)) s)"
proof -
  have "\<not> MaxInt64 - off < len" using assms(6,7) by (simp add: MaxInt64_def)
  then show ?thesis
    using assms read_loop_ok [OF assms(1-3), of "nat (off + len)" Map.empty "nat off" "[]"]
    by (simp add: readLocked_def mem_ok_def cache_ok_def nat_le_iff nat_mono)
qed

end
