(* ===== verification/Rose_Plog_Write.thy ===== *)
theory Rose_Plog_Write
  imports Rose_Plog_Inv
begin

text \<open>
  The operations of a plog that change it keep its invariant: an append, an idempotent append,
  a commit and a truncation either succeed with the stream they promise or fail with the stream
  they found, whatever the system calls do, and at every moment the rollback journal keeps a
  committed content.
\<close>

section \<open>Invariant\<close>

text \<open>
  \<open>jinv S C p\<close>: the rollback journal of \<open>p\<close> keeps the baseline \<open>C\<close>, and whatever a power failure
  leaves of it recovers a content of \<open>S\<close>. \<open>pinv sb S C p s\<close>: besides, \<open>p\<close> holds the stream \<open>s\<close> and its
  file starts with the superblock sector \<open>sb\<close>; an active journal starts below the free part of the
  file, and without one a block-aligned stream ends the file.
\<close>

definition jinv :: "bytes set \<Rightarrow> bytes \<Rightarrow> Plog \<Rightarrow> bool" where
  "jinv S C p \<longleftrightarrow> C \<in> S \<and> (\<forall>D \<in> S. length D < 2 ^ 63) \<and> baseline C (datafile p) \<and> safe S (datafile p)
     \<and> (undoActive p \<longrightarrow> guarded C (undoStart p) (datafile p))"

definition pinv :: "bytes \<Rightarrow> bytes set \<Rightarrow> bytes \<Rightarrow> Plog \<Rightarrow> bytes \<Rightarrow> bool" where
  "pinv sb S C p s \<longleftrightarrow> mem_ok p s \<and> disk_ok (content (datafile p)) s \<and> jinv S C p
     \<and> take SectorSize (content (datafile p)) = sb
     \<and> (undoActive p \<longrightarrow> undoStart p \<le> CalcPhysical (nsec s * SectorSize))
     \<and> (\<not> undoActive p \<and> tail_of s = [] \<and> open_hashes s = [] \<longrightarrow>
          length (content (datafile p)) = CalcPhysical (length s))"

lemma jinv_guarded:
  assumes "guarded C (undoStart q) (datafile q)" "C \<in> S" "\<forall>D \<in> S. length D < 2 ^ 63"
  shows "jinv S C q"
proof -
  from guarded_imp [OF assms(1)] have "baseline C (datafile q)" "safe {C} (datafile q)" by simp_all
  with assms safe_mono [of "{C}" "datafile q" S] show ?thesis by (auto simp: jinv_def)
qed

section \<open>Protecting and writing\<close>

lemma injected_WriteAt_cases:
  assumes "injected_WriteAt b off f = (f', n, e)"
  obtains (full) rs where "f' = put_bytes b off (f\<lparr>faults := rs\<rparr>)" "n = length b" "e = None"
  | (part) rs m where "f' = put_bytes (take m b) off (f\<lparr>faults := rs\<rparr>)" "n = min m (length b)"
      "e = None \<or> e = Some ErrIO"
proof -
  obtain r g where n: "next_io f = (r, g)" by force
  then obtain rs where g: "g = f\<lparr>faults := rs\<rparr>" using next_io_eq by blast
  show ?thesis
  proof (cases "\<exists>m. r = IoShort m")
    case True
    then obtain m where "r = IoShort m" by blast
    with assms n g show ?thesis by (intro part [of m rs]) (simp_all add: injected_WriteAt_def)
  next
    case False
    with assms n have "file_WriteAt b off f = (f', n, e)"
      by (cases r) (simp_all add: injected_WriteAt_def)
    then show ?thesis by (rule file_WriteAt_cases) (rule that; assumption)+
  qed
qed

text \<open>The effect of \<^verbatim>\<open>writePhysical\<close> on the file: all of the bytes, or a prefix and an error.\<close>

lemma writePhysical_cases:
  assumes "writePhysical b off p = (q, r)"
  obtains (ok) f' where "q = p\<lparr>datafile := f'\<rparr>" "r = Inr ()" "content f' = write_bytes (content (datafile p)) off b"
  | (error) f' m e where "q = p\<lparr>datafile := f'\<rparr>" "r = Inl e"
      "content f' = write_bytes (content (datafile p)) off (take m b)"
proof -
  obtain f' n e where w: "injected_WriteAt b off (datafile p) = (f', n, e)" by (metis surj_pair)
  have c: "content (put_bytes x off (datafile p\<lparr>faults := rs\<rparr>)) = write_bytes (content (datafile p)) off x" for x rs
    by (simp add: put_bytes_def)
  show ?thesis
    using w
  proof (cases rule: injected_WriteAt_cases)
    case (full rs)
    with w assms c show ?thesis by (intro ok [of f']) (simp_all add: writePhysical_def)
  next
    case (part rs m)
    show ?thesis
    proof (cases "e = None \<and> n = length b")
      case True
      with part have "take m b = b" by simp
      with True part w assms c show ?thesis by (intro ok [of f']) (simp_all add: writePhysical_def)
    next
      case False
      with part w assms have "\<exists>er. r = Inl er" "q = p\<lparr>datafile := f'\<rparr>"
        by (auto simp: writePhysical_def split: option.splits)
      with part c show ?thesis by (elim exE, intro error [of f' _ m]) simp_all
    qed
  qed
qed

lemma guarded_writePhysical:
  assumes "guarded C k (datafile p)" "k \<le> off" "writePhysical b off p = (q, r)"
  shows "guarded C k (datafile q)"
proof -
  obtain f' n e where w: "injected_WriteAt b off (datafile p) = (f', n, e)" by (metis surj_pair)
  have g: "guarded C k ((datafile p)\<lparr>faults := rs\<rparr>)" for rs
    using assms(1) guarded_core [of "(datafile p)\<lparr>faults := rs\<rparr>" "datafile p"] by simp
  from w have "guarded C k f'"
    by (cases rule: injected_WriteAt_cases) (use g assms(2) in \<open>simp_all add: guarded_put\<close>)
  with assms(3) w show ?thesis by (auto simp: writePhysical_def split: option.splits)
qed

lemma protectPrefix_cases:
  assumes "jinv S C p" "protectPrefixLocked start p = (q, r)"
  obtains (ok) f u where "r = Inr ()" "q = p\<lparr>datafile := f, undoActive := True, undoStart := u\<rparr>"
      "same_data f (datafile p)" "guarded C u f" "u \<le> start"
  | (error) f e where "r = Inl e" "q = p\<lparr>datafile := f\<rparr>" "same_data f (datafile p)" "jinv S C q"
proof (cases "undoActive p \<and> undoStart p \<le> start")
  case True
  with assms have "r = Inr ()" "q = p" "guarded C (undoStart p) (datafile p)"
    by (auto simp: protectPrefixLocked_def jinv_def)
  with True show ?thesis
    by (intro ok [where f = "datafile p" and u = "undoStart p"]) (simp_all add: same_data_def)
next
  case False
  obtain f x where sv: "saveUndo start (datafile p) = (f, x)" by force
  have t: "triple (\<lambda>h. core h = core (datafile p)) (saveUndo start)
     (\<lambda>_ h. guarded C start h \<and> same_data h (datafile p))
     (\<lambda>h. baseline C h \<and> safe S h \<and> same_data h (datafile p) \<and>
        (\<forall>k. guarded C k (datafile p) \<longrightarrow> guarded C k h))"
    using assms(1) by (intro triple_saveUndo) (auto simp: jinv_def)
  show ?thesis
  proof (cases x)
    case (Inl e)
    with sv have "baseline C f" "safe S f" "same_data f (datafile p)" "\<forall>k. guarded C k (datafile p) \<longrightarrow> guarded C k f"
      using tripleD_err [OF t, of "datafile p" f e] by simp_all
    with Inl sv False assms show ?thesis
      by (intro error [where e = e and f = f]) (auto simp: protectPrefixLocked_def jinv_def)
  next
    case (Inr u)
    with sv have "guarded C start f" "same_data f (datafile p)"
      using tripleD_ok [OF t, of "datafile p" f u] by simp_all
    with Inr sv False assms(2) show ?thesis
      by (intro ok [where f = f and u = start]) (auto simp: protectPrefixLocked_def split: if_splits)
  qed
qed

section \<open>Appending\<close>

lemma block_floor_le:
  "length s div DataPerBlock * DataPerBlock \<le> nsec s * SectorSize"
proof -
  have "length s div DataPerBlock = nsec s div HashesPerBlock"
    by (simp add: nsec_def DataPerBlock_def div_mult2_eq [symmetric] mult.commute)
  then have "length s div DataPerBlock * DataPerBlock = nsec s div HashesPerBlock * HashesPerBlock * SectorSize"
    by (simp add: DataPerBlock_def)
  also have "\<dots> \<le> nsec s * SectorSize" by (intro mult_le_mono1) simp
  finally show ?thesis .
qed

text \<open>Sealing the buffered tail with new data extends the image by exactly the batched output.\<close>

lemma seal_append:
  assumes "SectorSize \<le> length (tail_of s) + length d"
  defines "space \<equiv> SectorSize - length (tail_of s)"
  shows "\<exists>out. seal_sectors (drop space d)
      (seal_sector (tail_of s @ take space d) space (open_hashes s, length s, []))
    = (tail_of (s @ d), open_hashes (s @ d), nsec (s @ d) * SectorSize, out)
    \<and> disk_image (s @ d) = disk_image s @ out"
proof -
  let ?t = "tail_of s"
  have lt: "length ?t < SectorSize" by (rule length_tail_of_lt)
  have l: "SectorSize \<le> length (?t @ d)" using assms by simp
  have tk: "take SectorSize (?t @ d) = ?t @ take space d" "drop SectorSize (?t @ d) = drop space d"
    using lt by (simp_all add: space_def)
  have "length s + space = nsec s * SectorSize + SectorSize"
  proof -
    have "length ?t \<le> length s" by (simp add: tail_of_def)
    then show ?thesis unfolding space_def using lt sealed_len [of s] by linarith
  qed
  then have first: "seal_sector (?t @ take space d) space (open_hashes s, length s, [])
      = seal_sector (?t @ take space d) SectorSize (open_hashes s, nsec s * SectorSize, [])"
    by (simp add: seal_sector_def)
  have sec: "sectors_of (s @ d) = sectors_of s @ (?t @ take space d) # sectors_of (drop space d)"
    using sectors_of_append [of s d] sectors_of_Cons(1) [OF l] tk by simp
  obtain hs len out where o: "seal_all (sectors_of (drop space d))
      (seal_sector (?t @ take space d) SectorSize (open_hashes s, nsec s * SectorSize, [])) = (hs, len, out)"
    by (metis surj_pair)
  have "seal_all (sectors_of (s @ d)) ([], 0, []) =
      seal_all ((?t @ take space d) # sectors_of (drop space d)) (open_hashes s, nsec s * SectorSize, disk_image s @ [])"
    unfolding sec seal_all_append by (simp add: seal_all_stream)
  also have "\<dots> = (hs, len, disk_image s @ out)"
    unfolding seal_all_out using o by simp
  finally have "hs = open_hashes (s @ d)" "len = nsec (s @ d) * SectorSize" "disk_image (s @ d) = disk_image s @ out"
    by (simp_all add: seal_all_stream)
  moreover have "tail_of (drop space d) = tail_of (s @ d)"
    using tail_of_append [of s d] sectors_of_Cons(2) [OF l] tk by simp
  ultimately show ?thesis
    using o by (simp add: seal_sectors_eq first)
qed

lemma disk_ok_write:
  assumes "disk_ok d s" "SectorSize + length (disk_image s) \<le> off"
  shows "disk_ok (write_bytes d off b) s"
proof -
  have "SectorSize + length (disk_image s) \<le> length (write_bytes d off b)"
    using assms by (auto simp: disk_ok_def length_write_bytes le_max_iff_disj)
  then show ?thesis
    using assms by (simp add: disk_ok_def bslice_write_bytes_before)
qed

lemma disk_ok_extend:
  assumes "disk_ok d s" "disk_image s' = disk_image s @ out"
  shows "disk_ok (write_bytes d (SectorSize + length (disk_image s)) out) s'"
proof -
  let ?off = "SectorSize + length (disk_image s)"
  have le: "?off \<le> length d" using assms(1) by (simp add: disk_ok_def)
  have "bslice SectorSize ?off (write_bytes d ?off out) @ bslice ?off (?off + length out) (write_bytes d ?off out)
      = disk_image s @ out"
    using assms(1) le by (simp add: bslice_write_bytes_before bslice_write_bytes_at disk_ok_def)
  then have "bslice SectorSize (?off + length out) (write_bytes d ?off out) = disk_image s'"
    using assms(2) by (simp add: bslice_append_adjacent)
  then show ?thesis
    using assms(2) le by (auto simp: disk_ok_def length_write_bytes add.assoc)
qed

lemma pinv_same_data:
  assumes "pinv sb S C p s" "same_data f (datafile p)" "jinv S C (p\<lparr>datafile := f\<rparr>)"
  shows "pinv sb S C (p\<lparr>datafile := f\<rparr>) s"
  using assms by (simp add: pinv_def mem_ok_def same_data_def)

lemma writeLocked_pinv:
  assumes "pinv sb S C p s" "writeLocked d p = (q, r)"
  shows "case r of Inr off \<Rightarrow> off = length s \<and> pinv sb S C q (s @ d) | Inl e \<Rightarrow> pinv sb S C q s"
proof -
  have m: "mem_ok p s" and dk: "disk_ok (content (datafile p)) s" and j: "jinv S C p"
    and sb: "take SectorSize (content (datafile p)) = sb"
    using assms(1) by (simp_all add: pinv_def)
  have f: "\<not> bufCorrupt p" "\<not> openUnverified p" "buf p = tail_of s" "logicalLength p = length s" "hashes p = open_hashes s"
    using m by (simp_all add: mem_ok_def)
  show ?thesis
  proof (cases "length (tail_of s) + length d < SectorSize")
    case True
    then have sd: "sectors_of (s @ d) = sectors_of s" "tail_of (s @ d) = tail_of s @ d"
      using sectors_of_short [of "tail_of s @ d"] sectors_of_append [of s d] tail_of_append [of s d] by simp_all
    then have ns: "nsec (s @ d) = nsec s" by (metis length_sectors_of)
    have im: "disk_image (s @ d) = disk_image s" "open_hashes (s @ d) = open_hashes s"
      using sd by (simp_all add: open_hashes_def disk_image_def)
    have q: "q = p\<lparr>buf := tail_of s @ d, logicalLength := length s + length d\<rparr>" "r = Inr (length s)"
      using assms(2) True f by (simp_all add: writeLocked_def)
    have "mem_ok q (s @ d)" using f sd im by (simp add: q mem_ok_def)
    moreover have "jinv S C q" using j by (simp add: q jinv_def)
    moreover have "pinv sb S C q (s @ d)" if "d = []" using assms(1) that by (simp add: q pinv_def jinv_def mem_ok_def)
    ultimately show ?thesis
      using assms(1) sd im ns q by (cases "d = []") (simp_all add: pinv_def disk_ok_def)
  next
    case False
    let ?start = "CalcPhysical (length s div DataPerBlock * DataPerBlock)"
    let ?off = "CalcPhysical (length s - length (tail_of s))"
    let ?space = "SectorSize - length (tail_of s)"
    obtain p1 r1 where pp: "protectPrefixLocked ?start p = (p1, r1)" by force
    have off: "?off = SectorSize + length (disk_image s)" by (simp add: sealed_len length_image)
    have start_off: "?start \<le> ?off"
      using CalcPhysical_mono [OF block_floor_le [of s]] by (simp add: sealed_len)
    have W: "writeLocked d p = bind (protectPrefixLocked ?start) (\<lambda>_ p.
        case seal_sectors (drop (SectorSize - length (buf p)) d)
           (seal_sector (buf p @ take (SectorSize - length (buf p)) d) (SectorSize - length (buf p)) (hashes p, logicalLength p, [])) of
          (rest, hs, len, out) \<Rightarrow>
            case writePhysical out (CalcPhysical (logicalLength p - length (buf p)))
                   (p\<lparr>buf := rest, hashes := hs, logicalLength := len + length rest\<rparr>) of
              (q, Inl e) \<Rightarrow> (q\<lparr>logicalLength := logicalLength p, buf := buf p, hashes := hashes p\<rparr>, Inl e)
            | (q, Inr _) \<Rightarrow> (q, Inr (logicalLength p))) p"
      using f False by (simp add: writeLocked_def Let_def)
    show ?thesis
      using j pp
    proof (cases rule: protectPrefix_cases)
      case (error f' e)
      with W pp assms(2) have "q = p\<lparr>datafile := f'\<rparr>" "r = Inl e" by simp_all
      with pinv_same_data [OF assms(1)] error show ?thesis by simp
    next
      case (ok f' u)
      define c where "c = content f'"
      have c: "c = content (datafile p)" using ok(3) by (simp add: c_def same_data_def)
      from seal_append [of s d] False obtain out where
        so: "seal_sectors (drop ?space d) (seal_sector (tail_of s @ take ?space d) ?space (open_hashes s, length s, []))
          = (tail_of (s @ d), open_hashes (s @ d), nsec (s @ d) * SectorSize, out)"
        and im: "disk_image (s @ d) = disk_image s @ out" by auto
      define p2 where "p2 = p1\<lparr>buf := tail_of (s @ d), hashes := open_hashes (s @ d),
          logicalLength := nsec (s @ d) * SectorSize + length (tail_of (s @ d))\<rparr>"
      obtain q2 r2 where w: "writePhysical out ?off p2 = (q2, r2)" by force
      have p1: "buf p1 = tail_of s" "hashes p1 = open_hashes s" "logicalLength p1 = length s"
        using ok(2) f by simp_all
      have q: "(q, r) = (case r2 of Inl e \<Rightarrow> (q2\<lparr>logicalLength := length s, buf := tail_of s, hashes := open_hashes s\<rparr>, Inl e)
          | Inr _ \<Rightarrow> (q2, Inr (length s)))"
        using assms(2) pp ok(1) w so p1 unfolding W p2_def [symmetric]
        by (simp add: p2_def [symmetric] split: sum.splits)
      have g2: "guarded C u (datafile q2)"
        using guarded_writePhysical [OF _ _ w, of C u] ok start_off by (simp add: p2_def)
      have u2: "undoStart q2 = u" "undoActive q2" using w ok(2) by (auto elim!: writePhysical_cases simp: p2_def)
      have jq: "jinv S C x" if "datafile x = datafile q2" "undoStart x = undoStart q2" for x
        using g2 that u2 j by (intro jinv_guarded) (simp_all add: jinv_def)
      have us: "u \<le> CalcPhysical (nsec s * SectorSize)" "u \<le> CalcPhysical (nsec (s @ d) * SectorSize)"
      proof -
        show "u \<le> CalcPhysical (nsec s * SectorSize)" using ok(5) start_off by (simp add: sealed_len)
        moreover have "nsec s * SectorSize \<le> nsec (s @ d) * SectorSize"
          by (intro mult_le_mono1) (simp add: nsec_def div_le_mono)
        ultimately show "u \<le> CalcPhysical (nsec (s @ d) * SectorSize)"
          using CalcPhysical_mono order_trans by blast
      qed
      have sbw: "take SectorSize (write_bytes c ?off x) = sb" for x
        using sb c dk by (simp add: off take_write_bytes disk_ok_def)
      have len: "nsec (s @ d) * SectorSize + length (tail_of (s @ d)) = length (s @ d)"
        using nsec_le [of "s @ d"] by (simp add: tail_of_def)
      show ?thesis
        using w
      proof (cases rule: writePhysical_cases)
        case (ok f3)
        then have "content (datafile q2) = write_bytes c ?off out"
          by (simp add: p2_def c_def \<open>p1 = _\<close>)
        moreover have "disk_ok (write_bytes c ?off out) (s @ d)"
          using disk_ok_extend [OF dk im] by (simp add: off c)
        moreover have "mem_ok q2 (s @ d)"
          using ok(1) len f \<open>p1 = _\<close> by (simp add: mem_ok_def p2_def)
        ultimately have "pinv sb S C q2 (s @ d)" using jq sbw us u2 by (simp add: pinv_def)
        with q ok(2) show ?thesis by simp
      next
        case (error f3 m e)
        define q3 where "q3 = q2\<lparr>logicalLength := length s, buf := tail_of s, hashes := open_hashes s\<rparr>"
        have "content (datafile q3) = write_bytes c ?off (take m out)"
          using error by (simp add: q3_def p2_def c_def \<open>p1 = _\<close>)
        moreover have "disk_ok (write_bytes c ?off (take m out)) s"
          using disk_ok_write [OF dk] by (simp add: off c)
        moreover have "mem_ok q3 s"
          using error(1) f \<open>p1 = _\<close> by (simp add: mem_ok_def q3_def p2_def)
        ultimately have "pinv sb S C q3 s" using jq [of q3] sbw us u2 by (simp add: pinv_def q3_def)
        with q error(2) show ?thesis by (simp add: q3_def)
      qed
    qed
  qed
qed

section \<open>Reading a medium that may fail\<close>

text \<open>Reads that succeed do not depend on what cannot be read.\<close>

definition sound_medium :: "Plog \<Rightarrow> Plog" where
  "sound_medium p = p\<lparr>datafile := (datafile p)\<lparr>unreadable := (\<lambda>_. False)\<rparr>\<rparr>"

lemma sound_medium_simps [simp]:
  "logicalLength (sound_medium p) = logicalLength p" "buf (sound_medium p) = buf p"
  "hashes (sound_medium p) = hashes p" "bufCorrupt (sound_medium p) = bufCorrupt p"
  "openUnverified (sound_medium p) = openUnverified p"
  "content (datafile (sound_medium p)) = content (datafile p)" "readable (datafile (sound_medium p))"
  by (simp_all add: sound_medium_def readable_def)

lemma file_ReadAt_sound:
  "file_ReadAt (datafile p) n off = Inr b \<Longrightarrow> file_ReadAt (datafile (sound_medium p)) n off = Inr b"
  by (auto simp: file_ReadAt_def sound_medium_def list_ex_iff split: if_splits)

lemma sectorHashFor_sound:
  "sectorHashFor p i sealed hs = (hs', Inr x) \<Longrightarrow> sectorHashFor (sound_medium p) i sealed hs = (hs', Inr x)"
  by (auto simp: sectorHashFor_def Let_def bitrot_def split: if_splits option.splits sum.splits dest: file_ReadAt_sound)

lemma readDataSector_sound:
  assumes "readDataSector p i sealed hs = (hs', Inr x)"
  shows "readDataSector (sound_medium p) i sealed hs = (hs', Inr x)"
proof -
  let ?n = "if sealed < i * SectorSize + SectorSize then sealed - i * SectorSize else SectorSize"
  obtain sec where sec: "file_ReadAt (datafile p) ?n (CalcPhysical (i * SectorSize)) = Inr sec"
    using assms by (auto simp: readDataSector_def Let_def split: sum.splits)
  obtain h1 e where h: "sectorHashFor p i sealed hs = (h1, Inr e)"
    using assms sec by (auto simp: readDataSector_def Let_def split: prod.splits sum.splits)
  show ?thesis
    using assms sec h file_ReadAt_sound [OF sec] sectorHashFor_sound [OF h]
    by (simp add: readDataSector_def Let_def)
qed

lemma read_piece_sound:
  assumes "read_piece p cur stop hs = (hs', Inr x)"
  shows "read_piece (sound_medium p) cur stop hs = (hs', Inr x)"
proof (cases "logicalLength p - length (buf p) \<le> cur div SectorSize * SectorSize")
  case True
  with assms show ?thesis by (simp only: read_piece_def Let_def sound_medium_simps if_True)
next
  case False
  then obtain h1 sec where h: "readDataSector p (cur div SectorSize) (logicalLength p - length (buf p)) hs = (h1, Inr sec)"
    using assms by (auto simp: read_piece_def Let_def split: prod.splits sum.splits)
  with assms False readDataSector_sound [OF h] show ?thesis by (simp add: read_piece_def Let_def)
qed

lemma read_loop_sound:
  "read_loop p cur stop hs out = Inr b \<Longrightarrow> read_loop (sound_medium p) cur stop hs out = Inr b"
proof (induction p cur stop hs out rule: read_loop.induct)
  case (1 p cur stop hs out)
  show ?case
  proof (cases "stop \<le> cur")
    case True
    with 1 show ?thesis by (simp add: read_loop.simps)
  next
    case False
    then obtain hs' piece cur' where pc: "read_piece p cur stop hs = (hs', Inr (piece, cur'))"
      "read_loop p cur' stop hs' (out @ piece) = Inr b"
      using 1(2) by (subst (asm) read_loop.simps) (auto split: prod.splits sum.splits)
    have "read_loop (sound_medium p) cur' stop hs' (out @ piece) = Inr b"
      using 1(1) [OF False pc(1) [symmetric] refl refl] pc(2) by simp
    with False read_piece_sound [OF pc(1)] show ?thesis by (subst read_loop.simps) simp
  qed
qed

lemma readLocked_sound:
  assumes "mem_ok p s" "disk_ok (content (datafile p)) s" "readLocked p off len = Inr b"
  shows "0 \<le> off \<and> 0 \<le> len \<and> off + len \<le> int (length s) \<and> b = bslice (nat off) (nat (off + len)) s"
proof -
  have args: "0 \<le> off" "0 \<le> len" "off + len \<le> int (length s)"
    and loop: "read_loop p (nat off) (nat (off + len)) Map.empty [] = Inr b"
    using assms by (auto simp: readLocked_def mem_ok_def split: if_splits)
  have "read_loop (sound_medium p) (nat off) (nat (off + len)) Map.empty [] = Inr (bslice (nat off) (nat (off + len)) s)"
    using read_loop_ok [of "sound_medium p" s "nat (off + len)" Map.empty "nat off" "[]"] assms(1,2) args
    by (simp add: mem_ok_def cache_ok_def nat_le_iff nat_mono)
  with read_loop_sound [OF loop] args show ?thesis by simp
qed

section \<open>Idempotent appends\<close>

lemma EnsureAppend_pinv:
  assumes "pinv sb S C p s" "EnsureAppend off d p = (q, r)"
  shows "case r of
      Inr _ \<Rightarrow> 0 \<le> off \<and> nat off \<le> length s \<and>
        take (length s - nat off) d = bslice (nat off) (nat off + length d) s \<and>
        pinv sb S C q (take (nat off) s @ d @ drop (nat off + length d) s)
    | Inl e \<Rightarrow> pinv sb S C q s"
proof (cases "off < 0 \<or> int (length s) < off")
  case True
  with assms show ?thesis by (auto simp: EnsureAppend_def pinv_def mem_ok_def)
next
  case False
  let ?o = "nat off"
  define v where "v = min (length s - nat off) (length d)"
  have l: "logicalLength p = length s" and m: "mem_ok p s" "disk_ok (content (datafile p)) s"
    using assms(1) by (simp_all add: pinv_def mem_ok_def)
  have o: "0 \<le> off" "?o \<le> length s" using False by auto
  have sl: "bslice ?o (?o + length d) s = bslice ?o (?o + v) s" by (auto simp: bslice_def min_def v_def)
  have vd: "v \<le> length d" "take (length s - ?o) d = take v d" by (auto simp: v_def min_def)
  define rd where "rd = (if 0 < v then readLocked p off (int v) else Inr [])"
  have E: "(q, r) = (case rd of Inl e \<Rightarrow> (p, Inl e)
       | Inr existing \<Rightarrow>
           if 0 < v \<and> existing \<noteq> take v d then (p, Inl (Err ''existing bytes differ''))
           else if v = length d then (p, Inr ())
           else case writeLocked (drop v d) p of (p, Inl e) \<Rightarrow> (p, Inl e) | (p, Inr _) \<Rightarrow> (p, Inr ()))"
    using False unfolding assms(2) [symmetric] EnsureAppend_def Let_def l v_def [symmetric] rd_def [symmetric] by simp
  show ?thesis
  proof (cases rd)
    case (Inl e)
    with E assms(1) show ?thesis by simp
  next
    case (Inr ex)
    show ?thesis
    proof (cases "0 < v \<and> ex \<noteq> take v d")
      case True
      with Inr E assms(1) show ?thesis by simp
    next
      case F2: False
      have eq: "take v d = bslice ?o (?o + length d) s"
      proof (cases "0 < v")
        case True
        with Inr readLocked_sound [OF m, of off "int v" ex] have "ex = bslice ?o (?o + v) s"
          using o by (simp add: nat_add_distrib rd_def)
        with F2 True sl show ?thesis by simp
      next
        case False
        with sl show ?thesis by simp
      qed
      show ?thesis
      proof (cases "v = length d")
        case True
        then have "d = bslice ?o (?o + length d) s" using eq by simp
        then have "take ?o s @ d @ drop (?o + length d) s = s"
          by (metis append_take_drop_id bslice_def drop_drop add_diff_cancel_left' add.commute)
        moreover have "q = p" "r = Inr ()" using Inr F2 True E by auto
        ultimately show ?thesis using assms(1) o eq vd by simp
      next
        case F3: False
        obtain q' r' where w: "writeLocked (drop v d) p = (q', r')" by force
        have res: "q = q'" "r = (case r' of Inl e \<Rightarrow> Inl e | Inr _ \<Rightarrow> Inr ())"
          using Inr F2 F3 E w by (auto split: sum.splits)
        have v: "v = length s - ?o" and big: "length s \<le> ?o + length d"
          using F3 by (auto simp: v_def min_def split: if_splits)
        have "take v d = drop ?o s" using eq big by (simp add: bslice_to_end)
        then have "s @ drop v d = take ?o s @ d @ drop (?o + length d) s"
          using big by (metis append.assoc append.right_neutral append_take_drop_id drop_all)
        with writeLocked_pinv [OF assms(1) w] res o eq vd show ?thesis by (cases r') simp_all
      qed
    qed
  qed
qed

end
