(* ===== verification/Rose_Plog_Commit.thy ===== *)
theory Rose_Plog_Commit
  imports Rose_Plog_Write
begin

text \<open>
  Committing and truncating a plog: what \<^verbatim>\<open>Plog.Commit\<close> leaves on disk, that a failed commit loses
  nothing, and that \<^verbatim>\<open>Plog.TruncateTo\<close> keeps exactly the requested prefix.
\<close>

section \<open>Committed files\<close>

text \<open>The trailer of the open block of a stream, as \<^verbatim>\<open>buildOpenTrailer\<close> assembles it.\<close>

definition trailer_prefix :: "bytes \<Rightarrow> bytes" where
  "trailer_prefix s =
     openTrailerMagic @ le_put 2 (nsec s mod HashesPerBlock)
     @ le_put 2 (length (tail_of s) + (if tail_of s = [] then 0 else 2 ^ 15)) @ open_hashes s"

definition trailer_of :: "bytes \<Rightarrow> bytes" where
  "trailer_of s =
     trailer_prefix s @ openBlockMAC (nsec s div HashesPerBlock) (trailer_prefix s) (tail_of s)
     @ replicate (SectorSize - (length (trailer_prefix s) + HashSize)) 0"

lemma length_open_hashes: "length (open_hashes s) = nsec s mod HashesPerBlock * HashSize"
proof -
  have "open_hashes s = hashes_of (drop (nsec s div HashesPerBlock * HashesPerBlock) (sectors_of s))"
    using stream_sealed_ok [of s] by (simp add: sealed_ok_def)
  then show ?thesis by (simp add: minus_div_mult_eq_mod)
qed

lemma length_trailer_prefix: "length (trailer_prefix s) = openTrailerHeader + nsec s mod HashesPerBlock * HashSize"
  by (simp add: trailer_prefix_def openTrailerMagic_def openTrailerHeader_def length_open_hashes)

lemma trailer_fits: "length (trailer_prefix s) + HashSize \<le> SectorSize"
proof -
  have "nsec s mod HashesPerBlock \<le> 254"
    using mod_less_divisor [OF HashesPerBlock_pos, of "nsec s"] by (simp add: HashesPerBlock_def)
  then show ?thesis by (simp add: length_trailer_prefix openTrailerHeader_def HashSize_def SectorSize_def)
qed

lemma length_trailer_of [simp]: "length (trailer_of s) = SectorSize"
  using trailer_fits [of s] by (simp add: trailer_of_def)

lemma sealed_div_DataPerBlock: "nsec s * SectorSize div DataPerBlock = nsec s div HashesPerBlock"
  by (simp add: DataPerBlock_def)

lemma copy_at_mid: "length b = length x \<Longrightarrow> n = length a \<Longrightarrow> copy_at (a @ b @ c) n x = a @ x @ c"
  by (simp add: copy_at_def)

lemma buildOpenTrailer_eq:
  assumes "mem_ok p s"
  shows "buildOpenTrailer p (length (tail_of s)) = trailer_of s"
proof -
  let ?H = "nsec s mod HashesPerBlock"
  have h: "hashes p = open_hashes s" "buf p = tail_of s" "logicalLength p = length s"
    using assms by (simp_all add: mem_ok_def)
  have n: "length (open_hashes s) div HashSize = ?H" by (simp add: length_open_hashes)
  let ?rf = "length (tail_of s) + (if 0 < length (tail_of s) then 2 ^ 15 else 0)"
  have rf: "?rf = length (tail_of s) + (if tail_of s = [] then 0 else 2 ^ 15)" by simp
  have t12: "copy_at (copy_at (copy_at (replicate SectorSize 0) 0 openTrailerMagic) 8 (le_put 2 ?H)) 10 (le_put 2 ?rf)
      = openTrailerMagic @ le_put 2 ?H @ le_put 2 ?rf @ replicate (SectorSize - 12) 0"
  proof -
    let ?R = "replicate (SectorSize - 12) (0::byte)"
    have "replicate (8 + (2 + (2 + (SectorSize - 12)))) (0::byte) = replicate 8 0 @ replicate 2 0 @ replicate 2 0 @ ?R"
      by (simp only: replicate_add)
    then have z: "replicate SectorSize (0::byte) = [] @ replicate 8 0 @ replicate 2 0 @ replicate 2 0 @ ?R"
      by (simp add: SectorSize_def)
    have m: "length openTrailerMagic = 8" by (simp add: openTrailerMagic_def)
    have "copy_at (replicate SectorSize 0) 0 openTrailerMagic = openTrailerMagic @ replicate 2 0 @ replicate 2 0 @ ?R"
      unfolding z by (subst copy_at_mid) (simp_all add: m)
    moreover have "copy_at (openTrailerMagic @ replicate 2 0 @ replicate 2 0 @ ?R) 8 (le_put 2 ?H)
        = (openTrailerMagic @ le_put 2 ?H) @ replicate 2 0 @ ?R"
      by (subst copy_at_mid) (simp_all add: m)
    moreover have "copy_at ((openTrailerMagic @ le_put 2 ?H) @ replicate 2 0 @ ?R) 10 (le_put 2 ?rf)
        = (openTrailerMagic @ le_put 2 ?H) @ le_put 2 ?rf @ ?R"
      by (subst copy_at_mid) (simp_all add: m)
    ultimately show ?thesis by (simp only: append_assoc)
  qed
  have fits: "12 + length (open_hashes s) + HashSize \<le> SectorSize"
    using trailer_fits [of s] by (simp add: length_trailer_prefix length_open_hashes openTrailerHeader_def)
  have l12: "length (openTrailerMagic @ le_put 2 ?H @ le_put 2 ?rf) = 12" by (simp add: openTrailerMagic_def)
  have t2: "copy_at (openTrailerMagic @ le_put 2 ?H @ le_put 2 ?rf @ replicate (SectorSize - 12) 0) 12 (open_hashes s)
      = trailer_prefix s @ replicate (SectorSize - 12 - length (open_hashes s)) 0"
    using l12 fits by (simp add: copy_at_fit trailer_prefix_def rf)
  have lp: "length (trailer_prefix s) = 12 + length (open_hashes s)"
    by (simp add: length_trailer_prefix length_open_hashes openTrailerHeader_def)
  have rg: "(if 0 < length (tail_of s) then tail_of s else []) = tail_of s" by simp
  show ?thesis
    unfolding buildOpenTrailer_def Let_def h n openTrailerHeader_def t12 t2 sealed_len sealed_div_DataPerBlock rg
    using lp fits by (simp add: copy_at_fit trailer_of_def)
qed

text \<open>The file content after a commit of the stream \<open>s\<close> under the superblock \<open>sb\<close>.\<close>

definition has_trailer :: "bytes \<Rightarrow> bool" where
  "has_trailer s \<longleftrightarrow> open_hashes s \<noteq> [] \<or> tail_of s \<noteq> []"

definition committed :: "bytes \<Rightarrow> bytes \<Rightarrow> bytes \<Rightarrow> bool" where
  "committed sb s d \<longleftrightarrow>
     take SectorSize d = sb \<and> disk_ok d s \<and>
     (let e = CalcPhysical (nsec s * SectorSize)
      in if has_trailer s
         then length d = e + 2 * SectorSize \<and>
              bslice e (e + length (tail_of s)) d = tail_of s \<and>
              bslice (e + SectorSize) (e + 2 * SectorSize) d = trailer_of s
         else length d = e)"

lemma bslice_write_bytes_own: "b \<noteq> [] \<Longrightarrow> bslice off (off + length b) (write_bytes d off b) = b"
proof -
  assume "b \<noteq> []"
  then have "write_bytes d off b = take off (d @ replicate (off - length d) 0) @ b @ drop (off + length b) d"
    by (simp add: write_bytes_def)
  moreover have "length (take off (d @ replicate (off - length d) 0)) = off" by simp
  ultimately show ?thesis by (simp add: bslice_append_right bslice_def)
qed

lemma committed_image:
  assumes "disk_ok c s" "take SectorSize c = sb" "has_trailer s"
  defines "e \<equiv> CalcPhysical (nsec s * SectorSize)"
  shows "committed sb s (resize (write_bytes (write_bytes c e (tail_of s)) (e + SectorSize) (trailer_of s)) (e + 2 * SectorSize))"
    (is "committed sb s (resize ?w2 ?n)")
proof -
  let ?w1 = "write_bytes c e (tail_of s)"
  have e: "e = SectorSize + length (disk_image s)" by (simp add: e_def length_image)
  have lt: "length (tail_of s) < SectorSize" by (rule length_tail_of_lt)
  have lc: "e \<le> length c" using assms(1) by (simp add: disk_ok_def e)
  have d1: "disk_ok ?w1 s" using assms(1) by (simp add: disk_ok_write e)
  then have d2: "disk_ok ?w2 s" by (rule disk_ok_write) (simp add: e)
  have tne: "trailer_of s \<noteq> []" using length_trailer_of [of s] by (metis SectorSize_pos length_0_conv less_irrefl)
  have l2: "?n \<le> length ?w2" using tne by (simp add: length_write_bytes)
  have dr: "disk_ok (resize ?w2 ?n) s"
    using d2 by (simp add: disk_ok_def e bslice_resize)
  have tl: "bslice e (e + length (tail_of s)) ?w1 = tail_of s"
    using lc by (rule bslice_write_bytes_at)
  have "e + length (tail_of s) \<le> length ?w1"
    using lc by (auto simp: length_write_bytes)
  with tl lt have tl2: "bslice e (e + length (tail_of s)) ?w2 = tail_of s"
    by (simp add: bslice_write_bytes_before)
  have tr: "bslice (e + SectorSize) (e + 2 * SectorSize) ?w2 = trailer_of s"
    using bslice_write_bytes_own [OF tne, of "e + SectorSize" ?w1] by (simp add: mult_2 add.assoc)
  have sb1: "take SectorSize ?w1 = sb"
    using assms(2) lc by (subst take_write_bytes) (simp_all add: e)
  have "SectorSize \<le> length ?w1" using d1 by (simp add: disk_ok_def)
  with sb1 have "take SectorSize ?w2 = sb" by (subst take_write_bytes) (simp_all add: e)
  with l2 have "take SectorSize (resize ?w2 ?n) = sb" by (subst take_resize) (simp_all add: e)
  moreover have "bslice e (e + length (tail_of s)) (resize ?w2 ?n) = tail_of s"
    using tl2 l2 lt by (subst bslice_resize) simp_all
  moreover have "bslice (e + SectorSize) (e + 2 * SectorSize) (resize ?w2 ?n) = trailer_of s"
    using tr l2 by (subst bslice_resize) simp_all
  ultimately show ?thesis
    using dr assms(3) by (simp add: committed_def Let_def e_def [symmetric])
qed

lemma committed_aligned:
  assumes "disk_ok c s" "take SectorSize c = sb" "\<not> has_trailer s"
  shows "committed sb s (resize c (CalcPhysical (nsec s * SectorSize)))"
proof -
  have le: "SectorSize + length (disk_image s) \<le> length c" using assms(1) by (simp add: disk_ok_def)
  then have "disk_ok (resize c (SectorSize + length (disk_image s))) s"
    using assms(1) by (simp add: disk_ok_def bslice_resize)
  moreover have "take SectorSize (resize c (SectorSize + length (disk_image s))) = sb"
    using le assms(2) by (subst take_resize) simp_all
  ultimately show ?thesis
    using assms(3) by (simp add: committed_def Let_def length_image [symmetric])
qed
section \<open>Committing\<close>

text \<open>The states of a commit between the protection of the open block and the retirement of the journal.\<close>

definition committing :: "bytes \<Rightarrow> bytes \<Rightarrow> bytes \<Rightarrow> Plog \<Rightarrow> bool" where
  "committing C s c q \<longleftrightarrow> mem_ok q s \<and> undoActive q \<and> undoStart q \<le> CalcPhysical (nsec s * SectorSize)
     \<and> guarded C (undoStart q) (datafile q) \<and> content (datafile q) = c"

definition retirable :: "bytes \<Rightarrow> bytes set \<Rightarrow> bytes \<Rightarrow> bytes \<Rightarrow> bytes \<Rightarrow> Plog \<Rightarrow> bool" where
  "retirable sb S C s d q \<longleftrightarrow> mem_ok q s \<and> content (datafile q) = d \<and> committed sb s d \<and> jinv S C q"

lemma committing_pinv:
  assumes "committing C s c q" "disk_ok c s" "take SectorSize c = sb" "C \<in> S" "\<forall>D \<in> S. length D < 2 ^ 63"
  shows "pinv sb S C q s"
  using assms jinv_guarded [of C q S] by (simp add: pinv_def committing_def)

lemma triple_protect:
  assumes "pinv sb S C p s" "start \<le> CalcPhysical (nsec s * SectorSize)"
  shows "triple (\<lambda>q. q = p) (protectPrefixLocked start) (\<lambda>_. committing C s (content (datafile p))) (\<lambda>q. pinv sb S C q s)"
proof -
  have j: "jinv S C p" using assms(1) by (simp add: pinv_def)
  have "case r of Inr _ \<Rightarrow> committing C s (content (datafile p)) q | Inl _ \<Rightarrow> pinv sb S C q s"
    if w: "protectPrefixLocked start p = (q, r)" for q r
    using j w
  proof (cases rule: protectPrefix_cases)
    case (ok f u)
    then show ?thesis
      using assms by (auto simp: committing_def pinv_def mem_ok_def same_data_def)
  next
    case (error f e)
    then show ?thesis using pinv_same_data [OF assms(1)] by simp
  qed
  then show ?thesis by (fastforce simp: triple_def split: prod.splits sum.splits)
qed

lemma triple_writePhysical:
  assumes "disk_ok c s" "take SectorSize c = sb" "C \<in> S" "\<forall>D \<in> S. length D < 2 ^ 63"
    and off: "CalcPhysical (nsec s * SectorSize) \<le> off"
  shows "triple (committing C s c) (writePhysical b off) (\<lambda>_. committing C s (write_bytes c off b)) (\<lambda>q. pinv sb S C q s)"
proof (rule tripleI)
  fix p q
  assume p: "committing C s c p"
  have e: "SectorSize + length (disk_image s) \<le> off" using off by (simp add: length_image)
  have step: "committing C s (content (datafile q)) q" if w: "writePhysical b off p = (q, r)" for r
  proof -
    have "guarded C (undoStart p) (datafile q)"
      using p off by (intro guarded_writePhysical [OF _ _ w]) (auto simp: committing_def)
    moreover have "\<exists>f. q = p\<lparr>datafile := f\<rparr>" using w by (auto elim: writePhysical_cases)
    ultimately show ?thesis using p by (auto simp: committing_def mem_ok_def)
  qed
  show "committing C s (write_bytes c off b) q" if w: "writePhysical b off p = (q, Inr x)" for x
    using w step [OF w] p by (cases rule: writePhysical_cases) (auto simp: committing_def)
  show "pinv sb S C q s" if w: "writePhysical b off p = (q, Inl x)" for x
  proof -
    obtain m where m: "content (datafile q) = write_bytes c off (take m b)"
      using w p by (cases rule: writePhysical_cases) (auto simp: committing_def)
    moreover have "SectorSize \<le> length c" using assms(1) by (simp add: disk_ok_def)
    then have "take SectorSize (write_bytes c off (take m b)) = sb"
      using assms(2) e by (subst take_write_bytes) simp_all
    ultimately show ?thesis
      using committing_pinv [OF step [OF w]] disk_ok_write [OF assms(1) e] assms(3,4) by simp
  qed
qed

lemma triple_truncate:
  assumes "disk_ok c s" "take SectorSize c = sb" "C \<in> S" "\<forall>D \<in> S. length D < 2 ^ 63"
    and n: "CalcPhysical (nsec s * SectorSize) \<le> n"
  shows "triple (committing C s c) (on_file (file_Truncate n)) (\<lambda>_. committing C s (resize c n)) (\<lambda>q. pinv sb S C q s)"
proof (rule tripleI)
  fix p q
  assume p: "committing C s c p"
  then have g: "guarded C (undoStart p) (datafile p)" "undoStart p \<le> n" using n by (auto simp: committing_def)
  note t = triple_file_Truncate [OF g(2), of C]
  show "committing C s (resize c n) q" if "on_file (file_Truncate n) p = (q, Inr x)" for x
  proof -
    from that obtain f where f: "file_Truncate n (datafile p) = (f, Inr ())" "q = p\<lparr>datafile := f\<rparr>"
      by (auto simp: on_file_def focus_def split: prod.splits)
    with p tripleD_ok [OF t g(1) f(1)] content_Truncate [OF f(1)] show ?thesis
      by (simp add: committing_def mem_ok_def)
  qed
  show "pinv sb S C q s" if "on_file (file_Truncate n) p = (q, Inl x)" for x
  proof -
    from that obtain f where f: "file_Truncate n (datafile p) = (f, Inl x)" "q = p\<lparr>datafile := f\<rparr>"
      by (auto simp: on_file_def focus_def split: prod.splits)
    then have "content f = content (datafile p)"
      unfolding file_Truncate_def by (auto elim!: sys_op_cases)
    with p f tripleD_err [OF t g(1) f(1)] have "committing C s c q"
      by (simp add: committing_def mem_ok_def)
    then show ?thesis using assms by (intro committing_pinv) auto
  qed
qed

text \<open>What a commit ends in: see \<open>Commit_pinv\<close>.\<close>

definition commit_done :: "bytes \<Rightarrow> bytes \<Rightarrow> Plog \<Rightarrow> bool" where
  "commit_done sb s q \<longleftrightarrow>
     (\<exists>d. committed sb s d \<and> settled d (datafile q) \<and> pinv sb {d} d q s \<and> \<not> undoActive q)"

definition commit_failed :: "bytes \<Rightarrow> bytes set \<Rightarrow> bytes \<Rightarrow> Plog \<Rightarrow> bool" where
  "commit_failed sb S s q \<longleftrightarrow>
     (\<exists>S' C'. pinv sb S' C' q s \<and> (S' = S \<or> (\<exists>d. committed sb s d \<and> S' = insert d S)))"

lemma committed_quiet:
  "committed sb s d \<Longrightarrow> tail_of s = [] \<Longrightarrow> open_hashes s = [] \<Longrightarrow> length d = CalcPhysical (length s)"
  using nsec_le [of s] by (auto simp: committed_def Let_def has_trailer_def tail_of_def)

lemma triple_commit_undo:
  assumes "length d < 2 ^ 63"
  shows "triple (retirable sb S C s d) commit_undo (\<lambda>_. commit_done sb s) (commit_failed sb S s)"
proof (rule tripleI)
  fix p q
  assume p: "retirable sb S C s d p"
  then have j: "baseline C (datafile p)" "safe S (datafile p)" "C \<in> S" "\<forall>D \<in> S. length D < 2 ^ 63"
    and d: "content (datafile p) = d" "committed sb s d" "mem_ok p s"
    by (auto simp: retirable_def jinv_def)
  have dk: "disk_ok d s" "take SectorSize d = sb" using d(2) by (auto simp: committed_def)
  note t = triple_commitUndo [OF j(1,2)]
  show "commit_done sb s q" if "commit_undo p = (q, Inr x)" for x
  proof -
    from that obtain f where f: "commitUndo (datafile p) = (f, Inr ())" "q = p\<lparr>datafile := f, undoActive := False\<rparr>"
      by (auto simp: commit_undo_def split: prod.splits sum.splits)
    then have st: "settled d f" using tripleD_ok [OF t refl f(1)] d by simp
    then have "pinv sb {d} d q s"
      using settled_safe [OF st] f d dk assms committed_quiet [OF d(2)]
      by (auto simp: pinv_def jinv_def mem_ok_def settled_def)
    with st f d show ?thesis by (auto simp: commit_done_def)
  qed
  show "commit_failed sb S s q" if "commit_undo p = (q, Inl x)" for x
  proof -
    from that obtain f where f: "commitUndo (datafile p) = (f, Inl x)" "q = p\<lparr>datafile := f, undoActive := False\<rparr>"
      by (auto simp: commit_undo_def split: prod.splits sum.splits)
    from tripleD_err [OF t refl f(1)] d obtain C' where C': "safe (insert d S) f" "content f = d"
      "C' \<in> insert d S" "baseline C' f" using j(3) by blast
    then have "pinv sb (insert d S) C' q s"
      using f d dk assms j(4) committed_quiet [OF d(2)] by (auto simp: pinv_def jinv_def mem_ok_def)
    with d(2) show ?thesis by (auto simp: commit_failed_def)
  qed
qed

lemma pinv_commit_failed: "pinv sb S C q s \<Longrightarrow> commit_failed sb S s q"
  by (auto simp: commit_failed_def)

lemma commit_done_loaded:
  "commit_done sb s q \<Longrightarrow> commit_done sb s (q\<lparr>loadedFromTrailer := x\<rparr>)"
  by (auto simp: commit_done_def pinv_def jinv_def mem_ok_def)

lemma committed_length: "committed sb s d \<Longrightarrow> length d \<le> CalcPhysical (nsec s * SectorSize) + 2 * SectorSize"
  by (auto simp: committed_def Let_def split: if_splits)

lemma Commit_pinv:
  assumes "pinv sb S C p s" "CalcPhysical (nsec s * SectorSize) + 2 * SectorSize < 2 ^ 63"
  shows "triple (\<lambda>q. q = p) Plog_Commit (\<lambda>_. commit_done sb s) (commit_failed sb S s)"
proof -
  let ?e = "CalcPhysical (nsec s * SectorSize)"
  define c where "c = content (datafile p)"
  have m: "mem_ok p s" and dk: "disk_ok c s" and j: "jinv S C p" and sb: "take SectorSize c = sb"
    using assms(1) by (simp_all add: pinv_def c_def)
  have CS: "C \<in> S" "\<forall>D \<in> S. length D < 2 ^ 63" using j by (auto simp: jinv_def)
  have f: "\<not> bufCorrupt p" "\<not> openUnverified p" "buf p = tail_of s" "logicalLength p = length s" "hashes p = open_hashes s"
    using m by (simp_all add: mem_ok_def)
  have wt: "(open_hashes s \<noteq> [] \<or> 0 < length (tail_of s)) = has_trailer s" by (simp add: has_trailer_def)
  have fin: "triple (commit_done sb s) (when_io b (modify (\<lambda>p. p\<lparr>loadedFromTrailer := True\<rparr>))) (\<lambda>_. commit_done sb s) E" for b E
    by (intro triple_when triple_modify) (simp_all add: commit_done_loaded)
  have weak: "triple P x Q (\<lambda>q. pinv sb S C q s) \<Longrightarrow> triple P x Q (commit_failed sb S s)" for P x Q
    by (erule triple_weaken) (simp_all add: pinv_commit_failed)
  show ?thesis
  proof (cases "has_trailer s")
    case True
    let ?start = "CalcPhysical (nsec s * SectorSize div DataPerBlock * DataPerBlock)"
    have st: "?start \<le> ?e" by (intro CalcPhysical_mono) simp
    let ?w1 = "write_bytes c ?e (tail_of s)"
    let ?w2 = "write_bytes ?w1 (?e + SectorSize) (trailer_of s)"
    let ?d = "resize ?w2 (?e + 2 * SectorSize)"
    have d1: "disk_ok ?w1 s" "disk_ok ?w2 s" using dk by (simp_all add: disk_ok_write length_image)
    have le: "SectorSize \<le> length c" "SectorSize \<le> length ?w1" using dk d1 by (simp_all add: disk_ok_def)
    have eS: "SectorSize \<le> ?e" using CalcPhysical_header [of "nsec s * SectorSize"] by (simp add: plogHeaderSize_def)
    have s1: "take SectorSize ?w1 = sb" using sb le eS by (simp add: take_write_bytes)
    have s2: "take SectorSize ?w2 = sb" using s1 le eS by (simp add: take_write_bytes)
    note P0 = triple_protect [OF assms(1) st, folded c_def]
    have P1: "triple (committing C s c) (when_io (0 < length (tail_of s)) (writePhysical (tail_of s) ?e))
        (\<lambda>_. committing C s ?w1) (\<lambda>q. pinv sb S C q s)"
      by (rule triple_when) (auto intro!: triple_writePhysical [OF dk sb CS])
    have P2: "triple (committing C s ?w1) (writePhysical (trailer_of s) (?e + SectorSize))
        (\<lambda>_. committing C s ?w2) (\<lambda>q. pinv sb S C q s)"
      by (rule triple_writePhysical [OF d1(1) s1 CS]) simp
    have P3: "triple (committing C s ?w2) (on_file (file_Truncate (?e + 2 * SectorSize)))
        (\<lambda>_. retirable sb S C s ?d) (\<lambda>q. pinv sb S C q s)"
      using committed_image [OF dk sb True] jinv_guarded CS
      by (intro triple_weaken [OF triple_truncate [OF d1(2) s2 CS]]) (auto simp: retirable_def committing_def)
    have "Plog_Commit p = seq (protectPrefixLocked ?start)
        (seq (when_io (0 < length (tail_of s)) (writePhysical (tail_of s) ?e))
        (seq (writePhysical (trailer_of s) (?e + SectorSize))
        (seq (on_file (file_Truncate (?e + 2 * SectorSize)))
        (seq commit_undo (when_io True (modify (\<lambda>p. p\<lparr>loadedFromTrailer := True\<rparr>))))))) p"
      using f True buildOpenTrailer_eq [OF m] unfolding Plog_Commit_def f Let_def wt sealed_len by (simp add: when_io_def)
    moreover have "triple (\<lambda>q. q = p) (seq (protectPrefixLocked ?start)
        (seq (when_io (0 < length (tail_of s)) (writePhysical (tail_of s) ?e))
        (seq (writePhysical (trailer_of s) (?e + SectorSize))
        (seq (on_file (file_Truncate (?e + 2 * SectorSize)))
        (seq commit_undo (when_io True (modify (\<lambda>p. p\<lparr>loadedFromTrailer := True\<rparr>))))))))
        (\<lambda>_. commit_done sb s) (commit_failed sb S s)"
      by (rule triple_seq [OF weak [OF P0]], rule triple_seq [OF weak [OF P1]], rule triple_seq [OF weak [OF P2]],
          rule triple_seq [OF weak [OF P3]], rule triple_seq [OF triple_commit_undo fin]) (use assms(2) in simp)
    ultimately show ?thesis by (simp add: triple_def)
  next
    case False
    then have n: "nsec s * SectorSize = length s" "tail_of s = []" "open_hashes s = []"
      using nsec_le [of s] by (auto simp: has_trailer_def tail_of_def)
    have com: "committed sb s (resize c ?e)" by (rule committed_aligned [OF dk sb False])
    have T: "triple (\<lambda>q. q = p) (on_file (file_Truncate ?e)) (\<lambda>_. retirable sb S C s (resize c ?e)) (\<lambda>q. pinv sb S C q s)"
    proof (cases "undoActive p")
      case True
      then have "committing C s c p" using assms(1) by (auto simp: committing_def pinv_def jinv_def c_def)
      with com jinv_guarded CS show ?thesis
        by (intro triple_weaken [OF triple_truncate [OF dk sb CS order_refl]])
           (auto simp: retirable_def committing_def)
    next
      case False
      then have lc: "length c = ?e" using assms(1) n by (simp add: pinv_def c_def)
      then have same: "resize c ?e = c" by (metis resize_same)
      have "jinv S C (p\<lparr>datafile := (datafile p)\<lparr>faults := rs\<rparr>\<rparr>)" for rs
        using j False core_congs [OF core_faults [of rs "datafile p"]] by (simp add: jinv_def)
      moreover have "pinv sb S C (p\<lparr>datafile := (datafile p)\<lparr>faults := rs\<rparr>\<rparr>) s" for rs
        using pinv_same_data [OF assms(1)] calculation by (simp add: same_data_def)
      ultimately show ?thesis
        using com lc m same
        by (auto intro!: tripleI simp: on_file_def focus_def file_Truncate_def retirable_def mem_ok_def c_def
            split: prod.splits elim!: sys_op_cases)
    qed
    have "Plog_Commit p = seq (on_file (file_Truncate ?e)) (seq commit_undo (ret ())) p"
      using f False n unfolding Plog_Commit_def f Let_def wt sealed_len
      by (simp add: when_io_def seq_def bind_def ret_def)
    moreover have "triple (\<lambda>q. q = p) (seq (on_file (file_Truncate ?e)) (seq commit_undo (ret ())))
        (\<lambda>_. commit_done sb s) (commit_failed sb S s)"
      by (rule triple_seq [OF weak [OF T]], rule triple_seq [OF triple_commit_undo])
         (use assms(2) in \<open>simp_all add: triple_ret\<close>)
    ultimately show ?thesis by (simp add: triple_def)
  qed
qed

end
