(* ===== verification/Rose_Plog_Truncate.thy ===== *)
theory Rose_Plog_Truncate
  imports Rose_Plog_Commit
begin

text \<open>
  Truncating a plog: \<^verbatim>\<open>Plog.TruncateTo\<close> keeps exactly the requested prefix, and no operation of a plog changes
  which bytes its medium can read or the file's directory entry.
\<close>

section \<open>Media without errors\<close>

text \<open>
  A file on a medium without errors, whose directory entry is durable. The operations change neither
  what the medium can read nor the entry.
\<close>

definition medium_ok :: "Plog \<Rightarrow> bool" where
  "medium_ok p \<longleftrightarrow> (\<forall>i. \<not> unreadable (datafile p) i) \<and> entry (datafile p) \<and> entry_dur (datafile p)"

lemma medium_ok_readable: "medium_ok p \<Longrightarrow> readable (datafile p)"
  by (simp add: medium_ok_def readable_def)

definition sees :: "pfile \<Rightarrow> pfile \<Rightarrow> bool" where
  "sees f g \<longleftrightarrow> unreadable g = unreadable f \<and> entry g = entry f \<and> (entry_dur g = entry_dur f \<or> entry_dur g = entry f)"

lemma sees_refl [simp]: "sees f f"
  by (simp add: sees_def)

lemma sees_trans: "sees f g \<Longrightarrow> sees g h \<Longrightarrow> sees f h"
  by (auto simp: sees_def)

definition steady :: "(pfile, 'a) io \<Rightarrow> bool" where
  "steady m \<longleftrightarrow> (\<forall>f. sees f (fst (m f)))"

lemma steadyD: "steady m \<Longrightarrow> m f = (f', r) \<Longrightarrow> sees f f'"
  by (metis fst_conv steady_def)

lemma steadyI: "(\<And>f f' r. m f = (f', r) \<Longrightarrow> sees f f') \<Longrightarrow> steady m"
  by (metis prod.collapse steady_def)

lemma steady_bind [io_rules]: "steady m \<Longrightarrow> (\<And>x. steady (k x)) \<Longrightarrow> steady (bind m k)"
  by (rule steadyI) (auto simp: bind_def split: prod.splits sum.splits dest: steadyD intro: sees_trans)

lemma steady_seq [io_rules]: "steady m \<Longrightarrow> steady k \<Longrightarrow> steady (seq m k)"
  unfolding seq_def by (intro steady_bind)

lemma steady_pure [io_rules]: "steady (ret x)" "steady (raise e)" "steady (gets g)" "steady (of_result h)"
  by (simp_all add: steady_def ret_def raise_def gets_def of_result_def)

lemma steady_when [io_rules]: "steady m \<Longrightarrow> steady (when_io b m)"
  by (simp add: when_io_def steady_pure)

lemma sees_faults [simp]: "sees f (g\<lparr>faults := x\<rparr>) = sees f g" "sees (f\<lparr>faults := x\<rparr>) g = sees f g"
  by (simp_all add: sees_def)

lemma steady_sys_op [io_rules]: "(\<And>f. sees f (g f)) \<Longrightarrow> steady (sys_op g)"
proof (rule steadyI)
  fix f f' r
  assume g: "\<And>f. sees f (g f)" and r: "sys_op g f = (f', r)"
  from r g [of "f\<lparr>faults := _\<rparr>"] show "sees f f'"
    by (auto elim!: sys_op_cases)
qed

lemma sees_touch [simp]: "sees f (touch n g) = sees f g"
  by (simp add: touch_def Let_def sees_def)

lemma sees_put_bytes [simp]: "sees f (put_bytes b off g) = sees f g"
  by (simp add: put_bytes_def sees_def touch_def Let_def)

lemma steady_calls [io_rules]:
  "steady (file_Truncate n)" "steady file_Sync" "steady remove_journal" "steady remove_tmp"
  "steady tmp_create" "steady (tmp_write b)" "steady tmp_Sync" "steady tmp_Close" "steady rename_tmp" "steady syncParent"
proof -
  show "steady (file_Truncate n)" "steady file_Sync" "steady tmp_create" "steady tmp_Sync" "steady tmp_Close" "steady rename_tmp" "steady syncParent"
    unfolding file_Truncate_def file_Sync_def tmp_create_def tmp_Sync_def tmp_Close_def rename_tmp_def syncParent_def
    by (intro io_rules; simp add: sees_def touch_def Let_def)+
  have "steady (sys_op (\<lambda>f. f\<lparr>journal := None, journal_maybe := journal f # journal_maybe f,
      journal_dirty := False, maybe_dirty := maybe_dirty f \<or> journal_dirty f\<rparr>))"
    "steady (sys_op (\<lambda>f. f\<lparr>journal_tmp := None\<rparr>))"
    by (intro io_rules; simp add: sees_def)+
  then show "steady remove_journal" "steady remove_tmp"
    by (simp_all add: steady_def remove_journal_def remove_tmp_def)
  show "steady (tmp_write b)"
  proof (rule steadyI)
    fix f f' r
    assume "tmp_write b f = (f', r)"
    then show "sees f f'" by (cases rule: tmp_write_cases) (simp_all add: sees_def)
  qed
qed

lemma steady_defer [io_rules]: "steady m \<Longrightarrow> steady c \<Longrightarrow> steady (defer_io m (\<lambda>f. fst (c f)))"
  by (rule steadyI) (auto simp: defer_io_def steady_def [of c] split: prod.splits dest: steadyD intro: sees_trans)

lemma sees_file_WriteAt:
  assumes "file_WriteAt b off f = (f', n, e)"
  shows "sees f f'"
  using assms by (cases rule: file_WriteAt_cases) simp_all

lemma steady_copy_back [io_rules]: "steady (copy_back r)"
  by (auto simp: steady_def copy_back_def split: prod.splits option.splits dest: sees_file_WriteAt)

lemma steady_write_undo [io_rules]: "steady (write_undo old start sz)"
  unfolding write_undo_def Let_def by (intro io_rules) (auto intro!: io_rules)

lemma steady_replace_undo [io_rules]: "steady (replace_undo old start)"
  unfolding replace_undo_def by (intro io_rules) (auto intro!: io_rules)

lemma steady_saveUndo: "steady (saveUndo start)"
  unfolding saveUndo_def by (intro io_rules) (auto intro!: io_rules split: sum.splits)

lemma steady_restoreUndo: "steady restoreUndo"
  unfolding restoreUndo_def by (intro io_rules) (auto intro!: io_rules split: sum.splits)

lemma steady_then:
  assumes "steady m" "\<And>r. steady (k r)" "\<And>f. c f = k (snd (m f)) (fst (m f))"
  shows "steady c"
  unfolding steady_def
proof
  fix f
  have "sees f (fst (m f))" using assms(1) by (simp add: steady_def)
  moreover have "sees (fst (m f)) (fst (c f))" using assms(2) [of "snd (m f)"] unfolding assms(3) by (simp add: steady_def)
  ultimately show "sees f (fst (c f))" by (rule sees_trans)
qed

lemma steady_commitUndo: "steady commitUndo"
  unfolding commitUndo_def
proof (rule steady_seq [OF steady_calls(2)], rule steady_then [OF steady_calls(3)])
  let ?k = "\<lambda>r. case r of Inl e \<Rightarrow> if e = ErrNotExist then syncParent else raise e | Inr _ \<Rightarrow> syncParent"
  show "steady (?k r)" for r by (auto intro!: io_rules split: sum.splits)
  show "(case remove_journal f of (f, Inl e) \<Rightarrow> if e = ErrNotExist then syncParent f else (f, Inl e)
     | (f, Inr _) \<Rightarrow> syncParent f) = ?k (snd (remove_journal f)) (fst (remove_journal f))" for f
    by (simp add: raise_def split: prod.splits sum.splits)
qed

lemma steady_discardUndoTemp: "steady discardUndoTemp"
proof (rule steady_then [OF steady_calls(4)])
  let ?k = "\<lambda>r. case r of Inl e \<Rightarrow> if e = ErrNotExist then ret () else raise e | Inr _ \<Rightarrow> syncParent"
  show "steady (?k r)" for r by (auto intro!: io_rules split: sum.splits)
  show "discardUndoTemp f = ?k (snd (remove_tmp f)) (fst (remove_tmp f))" for f
    by (simp add: discardUndoTemp_def raise_def ret_def split: prod.splits sum.splits)
qed

lemma medium_ok_sees: "medium_ok p \<Longrightarrow> sees (datafile p) (datafile q) \<Longrightarrow> medium_ok q"
  by (auto simp: medium_ok_def sees_def)

lemma medium_ok_writePhysical: "writePhysical b off p = (q, r) \<Longrightarrow> medium_ok p \<Longrightarrow> medium_ok q"
proof -
  assume w: "writePhysical b off p = (q, r)" and p: "medium_ok p"
  obtain f' n e where i: "injected_WriteAt b off (datafile p) = (f', n, e)" by (metis surj_pair)
  then have "sees (datafile p) f'" by (cases rule: injected_WriteAt_cases) simp_all
  moreover have "datafile q = f'" using w i by (auto simp: writePhysical_def split: option.splits)
  ultimately show ?thesis using medium_ok_sees [OF p] by simp
qed

lemma medium_ok_protect:
  assumes "protectPrefixLocked start p = (q, r)" "medium_ok p"
  shows "medium_ok q"
proof -
  obtain f x where sv: "saveUndo start (datafile p) = (f, x)" by force
  have "datafile q = f \<or> q = p" using assms(1) sv by (auto simp: protectPrefixLocked_def split: if_splits sum.splits)
  with medium_ok_sees [OF assms(2)] steadyD [OF steady_saveUndo sv] assms(2) show ?thesis by auto
qed

lemma medium_ok_on_file:
  assumes "steady m" "on_file m p = (q, r)" "medium_ok p"
  shows "medium_ok q"
proof -
  obtain f x where sv: "m (datafile p) = (f, x)" by force
  with assms(2) have "datafile q = f" by (auto simp: on_file_def focus_def)
  with medium_ok_sees [OF assms(3)] steadyD [OF assms(1) sv] show ?thesis by simp
qed

lemma medium_ok_writeLocked:
  assumes "writeLocked d p = (q, r)" "medium_ok p"
  shows "medium_ok q"
proof -
  have upd: "medium_ok (x\<lparr>buf := a, hashes := b, logicalLength := c\<rparr>) = medium_ok x"
    "medium_ok (x\<lparr>logicalLength := c, buf := a, hashes := b\<rparr>) = medium_ok x"
    "medium_ok (x\<lparr>buf := a, logicalLength := c\<rparr>) = medium_ok x" for x a b c
    by (simp_all add: medium_ok_def)
  show ?thesis
    using assms
    by (auto simp: writeLocked_def bind_def Let_def upd split: if_splits prod.splits sum.splits
        dest!: medium_ok_protect medium_ok_writePhysical)
qed

lemma medium_ok_EnsureAppend: "EnsureAppend off d p = (q, r) \<Longrightarrow> medium_ok p \<Longrightarrow> medium_ok q"
  by (auto simp: EnsureAppend_def Let_def split: if_splits prod.splits sum.splits dest: medium_ok_writeLocked)

lemma medium_ok_commit_undo:
  assumes "commit_undo p = (q, r)" "medium_ok p"
  shows "medium_ok q"
proof -
  obtain f x where sv: "commitUndo (datafile p) = (f, x)" by force
  with assms(1) have "datafile q = f" by (auto simp: commit_undo_def split: sum.splits)
  with medium_ok_sees [OF assms(2)] steadyD [OF steady_commitUndo sv] show ?thesis by simp
qed

lemma triple_medium:
  "(\<And>p q r. m p = (q, r) \<Longrightarrow> medium_ok p \<Longrightarrow> medium_ok q) \<Longrightarrow> triple medium_ok m (\<lambda>_. medium_ok) medium_ok"
  by (rule tripleI) blast+

lemma medium_triples:
  "triple medium_ok (writePhysical b off) (\<lambda>_. medium_ok) medium_ok"
  "triple medium_ok (protectPrefixLocked start) (\<lambda>_. medium_ok) medium_ok"
  "triple medium_ok commit_undo (\<lambda>_. medium_ok) medium_ok"
  "triple medium_ok (on_file (file_Truncate n)) (\<lambda>_. medium_ok) medium_ok"
  by (rule triple_medium, erule (1) medium_ok_writePhysical medium_ok_protect medium_ok_commit_undo
      medium_ok_on_file [OF steady_calls(1)])+

lemma medium_of_triple: "m p = (q, r) \<Longrightarrow> triple medium_ok m (\<lambda>_. medium_ok) medium_ok \<Longrightarrow> medium_ok p \<Longrightarrow> medium_ok q"
  by (cases r) (auto dest: tripleD_ok tripleD_err)

lemma medium_ok_Commit:
  assumes "Plog_Commit p = (q, r)" "medium_ok p"
  shows "medium_ok q"
proof (cases "bufCorrupt p \<or> openUnverified p")
  case True
  with assms show ?thesis by (auto simp: Plog_Commit_def)
next
  case False
  let ?t = "hashes p \<noteq> [] \<or> 0 < length (buf p)"
  define e where "e = CalcPhysical (logicalLength p - length (buf p))"
  define b where "b = CalcPhysical ((logicalLength p - length (buf p)) div DataPerBlock * DataPerBlock)"
  define n where "n = (if ?t then e + 2 * SectorSize else CalcPhysical (logicalLength p))"
  define m where "m = seq (when_io ?t (protectPrefixLocked b))
      (seq (when_io (0 < length (buf p)) (writePhysical (buf p) e))
      (seq (when_io ?t (writePhysical (buildOpenTrailer p (length (buf p))) (e + SectorSize)))
      (seq (on_file (file_Truncate n))
      (seq commit_undo (when_io ?t (modify (\<lambda>p. p\<lparr>loadedFromTrailer := True\<rparr>)))))))"
  have "Plog_Commit p = m p"
    using False unfolding Plog_Commit_def Let_def m_def e_def b_def n_def by simp
  moreover have "triple medium_ok m (\<lambda>_. medium_ok) medium_ok"
    unfolding m_def by (intro triple_seq [where R = medium_ok] triple_when medium_triples triple_modify) (simp_all add: medium_ok_def)
  ultimately show ?thesis using medium_of_triple [of m p q r] assms by simp
qed
section \<open>Truncating to a prefix\<close>

lemma disk_image_append: "\<exists>out. disk_image (a @ b) = disk_image a @ out"
proof -
  obtain hs len o' where r: "seal_all (sectors_of (tail_of a @ b)) (open_hashes a, nsec a * SectorSize, []) = (hs, len, o')"
    by (metis surj_pair)
  have "seal_all (sectors_of (a @ b)) ([], 0, [])
      = seal_all (sectors_of (tail_of a @ b)) (open_hashes a, nsec a * SectorSize, disk_image a @ [])"
    by (subst sectors_of_append) (simp add: seal_all_append seal_all_stream)
  also have "\<dots> = (hs, len, disk_image a @ o')"
    by (subst seal_all_out) (simp add: r)
  finally show ?thesis by (auto simp: disk_image_def)
qed

lemma sealed_take_le: "t \<le> length s \<Longrightarrow> nsec (take t s) * SectorSize \<le> nsec s * SectorSize"
  by (simp add: nsec_def div_le_mono min_absorb2)

lemma disk_ok_resize:
  assumes "disk_ok c s" "t \<le> length s" "CalcPhysical (nsec (take t s) * SectorSize) \<le> n"
  shows "disk_ok (resize c n) (take t s)"
proof -
  obtain out where out: "disk_image s = disk_image (take t s) @ out"
    using disk_image_append [of "take t s" "drop t s"] by auto
  let ?k = "length (disk_image (take t s))"
  have c: "SectorSize + (?k + length out) \<le> length c"
    "bslice SectorSize (SectorSize + length (disk_image s)) c = disk_image (take t s) @ out"
    using assms(1) out by (auto simp: disk_ok_def)
  from c(2) have "take ?k (bslice SectorSize (SectorSize + length (disk_image s)) c) = disk_image (take t s)" by simp
  moreover have "take ?k (bslice SectorSize (SectorSize + length (disk_image s)) c) = bslice SectorSize (SectorSize + ?k) c"
    by (simp add: bslice_def out min_def)
  ultimately have "bslice SectorSize (SectorSize + ?k) c = disk_image (take t s)" by simp
  moreover have "SectorSize + ?k \<le> n" "SectorSize + ?k \<le> length c"
    using assms(3) c(1) length_image [of "take t s"] by linarith+
  ultimately show ?thesis by (simp add: disk_ok_def bslice_resize)
qed

lemma sector_hashes_eq: "sector_hashes d = hashes_of (sectors_of d)"
  by (simp add: sector_hashes_def hashes_of_def sectors_of_def sector_def nsec_def comp_def)

lemma open_hashes_drop:
  defines "bs u \<equiv> length u div DataPerBlock * DataPerBlock"
  shows "open_hashes u = sector_hashes (drop (bs u) u)" "tail_of (drop (bs u) u) = tail_of u"
proof -
  have k: "length u div DataPerBlock = nsec u div HashesPerBlock"
    by (simp add: nsec_def DataPerBlock_def div_mult2_eq [symmetric] mult.commute)
  have b: "bs u = nsec u div HashesPerBlock * HashesPerBlock * SectorSize"
    unfolding bs_def k by (simp add: DataPerBlock_def)
  have le: "bs u \<le> length u" by (simp add: bs_def)
  have l: "length (take (bs u) u) = nsec u div HashesPerBlock * HashesPerBlock * SectorSize" using le b by simp
  have n: "nsec (take (bs u) u) = nsec u div HashesPerBlock * HashesPerBlock" unfolding nsec_def [of "take _ _"] l by simp
  note s = sectors_of_append_exact [OF l, of "drop (bs u) u"]
  from s(1) have "drop (nsec u div HashesPerBlock * HashesPerBlock) (sectors_of u) = sectors_of (drop (bs u) u)"
    by (simp add: n)
  then show "open_hashes u = sector_hashes (drop (bs u) u)"
    using stream_sealed_ok [of u] by (simp add: sealed_ok_def sector_hashes_eq)
  show "tail_of (drop (bs u) u) = tail_of u" using s(2) by simp
qed

lemma block_floor_sealed: "(length u - length u mod SectorSize) div DataPerBlock = length u div DataPerBlock"
proof -
  have "length u - length u mod SectorSize = length u div SectorSize * SectorSize"
    by (simp add: minus_mod_eq_div_mult)
  then show ?thesis unfolding DataPerBlock_def by (simp add: div_mult2_eq mult.commute [of HashesPerBlock])
qed

lemma CalcPhysical_tail: "CalcPhysical (length u - length u mod SectorSize) + length u mod SectorSize = CalcPhysical (length u)"
proof -
  define r where "r = length u mod SectorSize"
  define n where "n = length u - r"
  have u: "length u = n + r" by (simp add: n_def r_def)
  have "n div DataPerBlock = (n + r) div DataPerBlock"
    using block_floor_sealed [of u] by (simp add: u [symmetric] n_def r_def)
  moreover from this have "n mod DataPerBlock + r = (n + r) mod DataPerBlock"
    by (metis add.assoc add_left_imp_eq div_mult_mod_eq)
  ultimately have "CalcPhysical n + r = CalcPhysical (n + r)" by (simp add: CalcPhysical_def)
  then show ?thesis by (simp add: n_def r_def)
qed

lemma copy_at_all: "length src = length dst \<Longrightarrow> copy_at dst 0 src = src"
  by (simp add: copy_at_fit)

text \<open>The in-memory state after the truncated open block has been rebuilt and re-authenticated.\<close>

lemma rebuild_truncated:
  assumes "medium_ok p" "logicalLength p = length u" "CalcPhysical (length u) \<le> length (content (datafile p))"
  shows "\<exists>q. rebuildOpenBlock p = (q, Inr ()) \<and> datafile q = datafile p \<and> undoActive q = undoActive p
     \<and> undoStart q = undoStart p \<and> logicalLength q = length u
     \<and> length (buf q) = length (tail_of u) \<and> length (hashes q) = length (open_hashes u)"
proof -
  let ?part = "length u mod SectorSize"
  let ?sealed = "length u - ?part"
  have sealed: "?sealed = nsec u * SectorSize" by (simp add: nsec_def minus_mod_eq_div_mult)
  note ct = CalcPhysical_tail [of u]
  from ct have ln: "CalcPhysical (length u) - CalcPhysical ?sealed = ?part" by linarith
  have rd: "file_ReadAt (datafile p) ?part (CalcPhysical ?sealed)
      = Inr (bslice (CalcPhysical ?sealed) (CalcPhysical ?sealed + ?part) (content (datafile p)))"
    using assms(3) by (intro file_ReadAt_ok medium_ok_readable [OF assms(1)]) (simp add: ct)
  have "?sealed - ?sealed div DataPerBlock * DataPerBlock = nsec u mod HashesPerBlock * SectorSize"
    unfolding sealed by (simp add: DataPerBlock_def mult.assoc [symmetric] diff_mult_distrib [symmetric] minus_div_mult_eq_mod)
  then have ho: "(?sealed - ?sealed div DataPerBlock * DataPerBlock) div SectorSize = nsec u mod HashesPerBlock"
    by (simp only:) simp
  show ?thesis
    unfolding rebuildOpenBlock_def Let_def Plog.simps assms(2) ho length_tail_of length_open_hashes
    using rd assms(2,3) ln by (simp add: ct)
qed
definition reauthenticate :: "bytes \<Rightarrow> Plog \<Rightarrow> Plog" where
  "reauthenticate d p = p\<lparr>hashes := copy_at (hashes p) 0 (sector_hashes d),
      buf := copy_at (buf p) 0 (drop (length d div SectorSize * SectorSize) d),
      bufCorrupt := False, openUnverified := False, loadedFromTrailer := True\<rparr>"

lemma truncated_pinv:
  assumes "medium_ok p" "content (datafile p) = c" "disk_ok c u" "take SectorSize c = sb" "length c = CalcPhysical (length u)"
    and "guarded C (undoStart p) (datafile p)" "C \<in> S" "\<forall>D \<in> S. length D < 2 ^ 63"
    and "undoActive p" "undoStart p \<le> CalcPhysical (nsec u * SectorSize)"
  shows "\<exists>q. seq (modify (\<lambda>p. p\<lparr>logicalLength := length u\<rparr>))
      (seq rebuildOpenBlock (modify (reauthenticate (drop (length u div DataPerBlock * DataPerBlock) u)))) p = (q, Inr ())
    \<and> pinv sb S C q u \<and> medium_ok q"
proof -
  let ?d = "drop (length u div DataPerBlock * DataPerBlock) u"
  let ?p = "p\<lparr>logicalLength := length u\<rparr>"
  have "medium_ok ?p" "logicalLength ?p = length u" "CalcPhysical (length u) \<le> length (content (datafile ?p))"
    using assms(1,2,5) by (simp_all add: medium_ok_def)
  from rebuild_truncated [OF this] obtain q where q: "rebuildOpenBlock ?p = (q, Inr ())" "datafile q = datafile p"
    "undoActive q = undoActive p" "undoStart q = undoStart p" "logicalLength q = length u"
    "length (buf q) = length (tail_of u)" "length (hashes q) = length (open_hashes u)" by auto
  have "drop (length ?d div SectorSize * SectorSize) ?d = tail_of ?d" by (simp add: tail_of_def nsec_def)
  then have "mem_ok (reauthenticate ?d q) u"
    using q open_hashes_drop [of u] by (simp add: mem_ok_def reauthenticate_def copy_at_all)
  moreover have "jinv S C (reauthenticate ?d q)"
    using q assms by (intro jinv_guarded) (simp_all add: reauthenticate_def)
  ultimately have "pinv sb S C (reauthenticate ?d q) u"
    using q assms by (simp add: pinv_def reauthenticate_def)
  moreover have "medium_ok (reauthenticate ?d q)" using assms(1) q(2) by (simp add: medium_ok_def reauthenticate_def)
  ultimately show ?thesis using q(1) by (simp add: seq_def bind_def modify_def)
qed

lemma TruncateTo_steps:
  assumes "logical = int t" "t < logicalLength p"
  defines "bs \<equiv> t div DataPerBlock * DataPerBlock"
  assumes "readLocked p (int bs) (int (t - bs)) = Inr d"
  shows "TruncateTo logical p = seq (protectPrefixLocked (CalcPhysical bs))
      (seq (on_file (file_Truncate (CalcPhysical t)))
      (seq (modify (\<lambda>p. p\<lparr>logicalLength := t\<rparr>)) (seq rebuildOpenBlock (modify (reauthenticate d))))) p"
proof -
  have n: "nat logical = t" "\<not> logical < 0" "\<not> int (logicalLength p) < logical" "logical \<noteq> int (logicalLength p)"
    using assms(1,2) by auto
  show ?thesis
    using assms(4) n(2-4)
    unfolding TruncateTo_def n(1) Let_def bs_def [symmetric]
    by (simp add: reauthenticate_def [abs_def])
qed

lemma triple_cut:
  assumes "pinv sb S C p s" "medium_ok p" "start \<le> n" "start \<le> CalcPhysical (nsec s * SectorSize)"
  defines "c \<equiv> content (datafile p)"
  shows "triple (\<lambda>q. q = p)
     (seq (protectPrefixLocked start) (on_file (file_Truncate n)))
     (\<lambda>_ q. medium_ok q \<and> content (datafile q) = resize c n \<and> guarded C (undoStart q) (datafile q)
        \<and> undoActive q \<and> undoStart q \<le> start) (\<lambda>q. pinv sb S C q s \<and> medium_ok q)"
proof (rule triple_seq [where R = "\<lambda>q. committing C s c q \<and> undoStart q \<le> start \<and> medium_ok q"])
  have j: "jinv S C p" and dk: "disk_ok c s" "take SectorSize c = sb" using assms(1) by (simp_all add: pinv_def c_def)
  have CS: "C \<in> S" "\<forall>D \<in> S. length D < 2 ^ 63" using j by (auto simp: jinv_def)
  have "case r of Inr _ \<Rightarrow> committing C s c q \<and> undoStart q \<le> start \<and> medium_ok q | Inl _ \<Rightarrow> pinv sb S C q s \<and> medium_ok q"
    if w: "protectPrefixLocked start p = (q, r)" for q r
    using j w
  proof (cases rule: protectPrefix_cases)
    case (ok f u)
    then show ?thesis
      using assms medium_ok_protect [OF w] by (auto simp: committing_def pinv_def mem_ok_def same_data_def)
  next
    case (error f e)
    then show ?thesis using pinv_same_data [OF assms(1)] medium_ok_protect [OF w assms(2)] by simp
  qed
  then show "triple (\<lambda>q. q = p) (protectPrefixLocked start)
      (\<lambda>_ q. committing C s c q \<and> undoStart q \<le> start \<and> medium_ok q) (\<lambda>q. pinv sb S C q s \<and> medium_ok q)"
    by (fastforce simp: triple_def split: prod.splits sum.splits)
  show "triple (\<lambda>q. committing C s c q \<and> undoStart q \<le> start \<and> medium_ok q) (on_file (file_Truncate n))
      (\<lambda>_ q. medium_ok q \<and> content (datafile q) = resize c n \<and> guarded C (undoStart q) (datafile q)
        \<and> undoActive q \<and> undoStart q \<le> start) (\<lambda>q. pinv sb S C q s \<and> medium_ok q)"
  proof (rule tripleI)
    fix p' q
    assume p': "committing C s c p' \<and> undoStart p' \<le> start \<and> medium_ok p'"
    then have g: "guarded C (undoStart p') (datafile p')" "undoStart p' \<le> n" using assms(3) by (auto simp: committing_def)
    note t = triple_file_Truncate [OF g(2), of C]
    have md: "medium_ok q" if "on_file (file_Truncate n) p' = (q, r)" for r
      using medium_ok_on_file [OF steady_calls(1) that] p' by simp
    show "medium_ok q \<and> content (datafile q) = resize c n \<and> guarded C (undoStart q) (datafile q)
        \<and> undoActive q \<and> undoStart q \<le> start" if w: "on_file (file_Truncate n) p' = (q, Inr x)" for x
    proof -
      from w obtain f where f: "file_Truncate n (datafile p') = (f, Inr ())" "q = p'\<lparr>datafile := f\<rparr>"
        by (auto simp: on_file_def focus_def split: prod.splits)
      with p' tripleD_ok [OF t g(1) f(1)] content_Truncate [OF f(1)] md [OF w] show ?thesis
        by (simp add: committing_def)
    qed
    show "pinv sb S C q s \<and> medium_ok q" if w: "on_file (file_Truncate n) p' = (q, Inl x)" for x
    proof -
      from w obtain f where f: "file_Truncate n (datafile p') = (f, Inl x)" "q = p'\<lparr>datafile := f\<rparr>"
        by (auto simp: on_file_def focus_def split: prod.splits)
      then have "content f = content (datafile p')"
        unfolding file_Truncate_def by (auto elim!: sys_op_cases)
      with p' f tripleD_err [OF t g(1) f(1)] have "committing C s c q"
        by (simp add: committing_def mem_ok_def)
      then show ?thesis using committing_pinv [OF _ dk CS] md [OF w] by simp
    qed
  qed
qed

lemma seq_assoc: "seq (seq a b) c = seq a (seq b c)"
  by (auto simp: seq_def bind_def fun_eq_iff split: prod.splits sum.splits)

lemma TruncateTo_pinv:
  assumes inv: "pinv sb S C p s" and md: "medium_ok p" and small: "length s < 2 ^ 63"
    and run: "TruncateTo logical p = (q, r)"
  shows "case r of
      Inr _ \<Rightarrow> 0 \<le> logical \<and> logical \<le> int (length s) \<and> pinv sb S C q (take (nat logical) s) \<and> medium_ok q
    | Inl _ \<Rightarrow> pinv sb S C q s \<and> medium_ok q"
proof (cases "0 \<le> logical \<and> logical < int (length s)")
  case False
  then show ?thesis using run inv md by (auto simp: TruncateTo_def pinv_def mem_ok_def split: if_splits)
next
  case True
  define t where "t = nat logical"
  have t: "logical = int t" "t < length s" using True by (auto simp: t_def)
  let ?u = "take t s"
  have lu: "length ?u = t" using t by simp
  define bs where "bs = t div DataPerBlock * DataPerBlock"
  have bs: "bs \<le> t" "bs \<le> nsec ?u * SectorSize" using block_floor_le [of ?u] lu by (simp_all add: bs_def)
  define c where "c = content (datafile p)"
  have m: "mem_ok p s" and dk: "disk_ok c s" and j: "jinv S C p"
    and sb: "take SectorSize c = sb" and ll: "logicalLength p = length s"
    using inv by (simp_all add: pinv_def mem_ok_def c_def)
  have CS: "C \<in> S" "\<forall>D \<in> S. length D < 2 ^ 63" using j by (auto simp: jinv_def)
  have v: "readLocked p (int bs) (int (t - bs)) = Inr (drop bs ?u)"
    using readLocked_ok [OF m dk [unfolded c_def] medium_ok_readable [OF md], of "int bs" "int (t - bs)"] t bs small
    by (simp add: bslice_def drop_take)
  note T = TruncateTo_steps [OF t(1) t(2) [folded ll] v [unfolded bs_def], folded bs_def]
  have bt: "CalcPhysical bs \<le> CalcPhysical t" "CalcPhysical bs \<le> CalcPhysical (nsec ?u * SectorSize)"
     "CalcPhysical (nsec ?u * SectorSize) \<le> CalcPhysical (nsec s * SectorSize)"
     "CalcPhysical (nsec ?u * SectorSize) \<le> CalcPhysical t"
    using bs sealed_take_le [of t s] t nsec_le [of ?u] lu by (simp_all add: CalcPhysical_mono)
  note tr = triple_cut [OF inv md bt(1) order_trans [OF bt(2,3)], folded c_def]
  let ?cut = "seq (protectPrefixLocked (CalcPhysical bs)) (on_file (file_Truncate (CalcPhysical t)))"
  let ?rest = "seq (modify (\<lambda>p. p\<lparr>logicalLength := t\<rparr>)) (seq rebuildOpenBlock (modify (reauthenticate (drop bs ?u))))"
  have T': "seq ?cut ?rest p = (q, r)" using T run by (simp only: seq_assoc)
  obtain p1 r1 where p1: "?cut p = (p1, r1)" by force
  show ?thesis
  proof (cases r1)
    case (Inl e)
    with p1 T' have "q = p1" "r = Inl e" by (simp_all add: seq_def bind_def)
    then show ?thesis using tripleD_err [OF tr refl p1 [unfolded Inl]] by simp
  next
    case (Inr x)
    note post = tripleD_ok [OF tr refl p1 [unfolded Inr]]
    have "SectorSize \<le> length c" using dk by (simp add: disk_ok_def)
    then have "take SectorSize (resize c (CalcPhysical t)) = sb"
      using sb CalcPhysical_header [of t] by (subst take_resize) (simp_all add: plogHeaderSize_def)
    then obtain q' where "?rest p1 = (q', Inr ())" "pinv sb S C q' ?u" "medium_ok q'"
      using truncated_pinv [of p1 "resize c (CalcPhysical t)" ?u sb C S, unfolded lu, folded bs_def] post bt(2) CS
        disk_ok_resize [OF dk less_imp_le [OF t(2)] bt(4)]
      by auto
    moreover from this have "q = q'" "r = Inr ()" using T' p1 Inr by (simp_all add: seq_def [of ?cut] bind_def)
    ultimately show ?thesis using t by simp
  qed
qed


end
