(* ===== verification/Rose_Plog_Open.thy ===== *)
theory Rose_Plog_Open
  imports Rose_Plog_Truncate
begin

text \<open>
  Opening a plog: the superblock and the open-block trailer are read back as they were written, a file
  that holds or whose journal restores the committed image of a stream opens to exactly that stream,
  and a fresh file is stamped durably before it is used.
\<close>

section \<open>The superblock round trip\<close>

definition superblock_body :: "bytes \<Rightarrow> bytes" where
  "superblock_body payload = plogMagic @ le_put 2 plogFormatVersion @ le_put 4 (length payload) @ payload
     @ replicate (plogHeaderMaxPayload - length payload) 0"

lemma length_superblock_body:
  "length payload \<le> plogHeaderMaxPayload \<Longrightarrow> length (superblock_body payload) = plogHeaderHMACOffset"
  by (simp add: superblock_body_def plogMagic_def geometry)

lemma superblock_eq:
  assumes "length payload \<le> plogHeaderMaxPayload"
  shows "superblock payload = superblock_body payload @ take HashSize (hmac_sha256 bitrotKey (superblock_body payload))"
proof -
  let ?n = "length payload"
  have m: "length plogMagic = 8" by (simp add: plogMagic_def)
  have sz: "plogHeaderSize = 8 + (2 + (4 + (?n + ((plogHeaderMaxPayload - ?n) + HashSize))))"
    using assms by (simp add: geometry)
  have z: "replicate plogHeaderSize (0::byte) = [] @ replicate 8 0 @ replicate 2 0 @ replicate 4 0 @ replicate ?n 0
      @ replicate (plogHeaderMaxPayload - ?n) 0 @ replicate HashSize 0"
    by (subst sz) (simp only: replicate_add append_Nil)
  have s1: "copy_at ([] @ replicate 8 0 @ r) 0 plogMagic = plogMagic @ r" for r
    using copy_at_mid [of "replicate 8 0" plogMagic 0 "[]" r] by (simp add: m)
  have s2: "copy_at (plogMagic @ replicate 2 0 @ r) 8 (le_put 2 v) = plogMagic @ le_put 2 v @ r" for r v
    by (rule copy_at_mid) (simp_all add: m)
  have s3: "copy_at (plogMagic @ le_put 2 v @ replicate 4 0 @ r) 10 (le_put 4 w) = plogMagic @ le_put 2 v @ le_put 4 w @ r" for r v w
    using copy_at_mid [of "replicate 4 0" "le_put 4 w" 10 "plogMagic @ le_put 2 v" r] by (simp add: m)
  have s4: "copy_at (plogMagic @ le_put 2 v @ le_put 4 w @ replicate ?n 0 @ r) plogHeaderPrefix payload
      = plogMagic @ le_put 2 v @ le_put 4 w @ payload @ r" for r v w
    using copy_at_mid [of "replicate ?n 0" payload 14 "plogMagic @ le_put 2 v @ le_put 4 w" r] by (simp add: m plogHeaderPrefix_def)
  have b: "plogMagic @ le_put 2 plogFormatVersion @ le_put 4 ?n @ payload @ replicate (plogHeaderMaxPayload - ?n) 0 @ replicate HashSize 0
      = superblock_body payload @ replicate HashSize 0 @ []" by (simp add: superblock_body_def)
  have h: "length (take HashSize (hmac_sha256 bitrotKey x)) = HashSize" for x by (simp add: HashSize_def)
  have t: "take plogHeaderHMACOffset (superblock_body payload @ replicate HashSize 0 @ []) = superblock_body payload"
    using length_superblock_body [OF assms] by simp
  show ?thesis
    unfolding superblock_def Let_def z s1 s2 s3 s4 b t
    using copy_at_mid [OF _ length_superblock_body [OF assms, symmetric], of "replicate HashSize 0" _ "[]"] h by simp
qed

lemma readSuperblock_superblock:
  assumes "length payload \<le> plogHeaderMaxPayload" "readable f" "take SectorSize (content f) = superblock payload"
  shows "readSuperblock Unmarshal f = Unmarshal payload"
proof -
  let ?mac = "take HashSize (hmac_sha256 bitrotKey (superblock_body payload))"
  let ?n = "length payload"
  note lb = length_superblock_body [OF assms(1)]
  have sb: "superblock payload = superblock_body payload @ ?mac" by (rule superblock_eq [OF assms(1)])
  have ls: "length (superblock payload) = SectorSize" using lb by (simp add: sb HashSize_def plogHeaderHMACOffset_def SectorSize_def)
  then have "SectorSize \<le> length (content f)" using assms(3) by (metis length_take min.cobounded1)
  then have rd: "file_ReadAt f plogHeaderSize 0 = Inr (superblock payload)"
    using assms(2,3) by (simp add: file_ReadAt_ok plogHeaderSize_def bslice_def)
  have m: "length plogMagic = 8" by (simp add: plogMagic_def)
  have parts: "take 8 (superblock payload) = plogMagic" "bslice 8 10 (superblock payload) = le_put 2 plogFormatVersion"
    "bslice 10 14 (superblock payload) = le_put 4 ?n"
    "bslice plogHeaderPrefix (plogHeaderPrefix + ?n) (superblock payload) = payload"
    by (simp_all add: sb superblock_body_def m bslice_def plogHeaderPrefix_def)
  have macs: "take plogHeaderHMACOffset (superblock payload) = superblock_body payload"
    "bslice plogHeaderHMACOffset (plogHeaderHMACOffset + HashSize) (superblock payload) = ?mac"
    using lb by (simp_all add: sb bslice_def)
  have v: "le_get (le_put 2 plogFormatVersion) = plogFormatVersion" by (simp add: le_get_put plogFormatVersion_def)
  have n: "le_get (le_put 4 ?n) = ?n" using assms(1) by (simp add: le_get_put geometry)
  show ?thesis
    using assms(1) unfolding readSuperblock_def rd Let_def by (simp add: parts macs v n)
qed
section \<open>Reading the trailer back\<close>

lemma nsec_mod_bound: "nsec s mod HashesPerBlock < HashesPerBlock"
  by simp

lemma ragged_field:
  fixes s :: bytes
  defines "rf \<equiv> length (tail_of s) + (if tail_of s = [] then 0 else 2 ^ 15)"
  shows "le_get (le_put 2 rf) = rf" "(2 ^ 15 \<le> rf) = (tail_of s \<noteq> [])" "rf mod 2 ^ 15 = length (tail_of s)"
proof -
  have l: "length (tail_of s) < 4096" using length_tail_of_lt [of s] by (simp add: SectorSize_def)
  then have "rf < 65536" by (simp add: rf_def)
  then show "le_get (le_put 2 rf) = rf" by (simp add: le_get_put)
  show "(2 ^ 15 \<le> rf) = (tail_of s \<noteq> [])" "rf mod 2 ^ 15 = length (tail_of s)" using l by (simp_all add: rf_def)
qed

lemma trailer_parts:
  fixes s :: bytes
  defines "H \<equiv> nsec s mod HashesPerBlock"
  defines "rf \<equiv> length (tail_of s) + (if tail_of s = [] then 0 else 2 ^ 15)"
  defines "e \<equiv> openTrailerHeader + H * HashSize"
  shows "take 8 (trailer_of s) = openTrailerMagic" "bslice 8 10 (trailer_of s) = le_put 2 H"
    "bslice 10 12 (trailer_of s) = le_put 2 rf" "bslice openTrailerHeader e (trailer_of s) = open_hashes s"
    "take e (trailer_of s) = trailer_prefix s"
    "bslice e (e + HashSize) (trailer_of s) = openBlockMAC (nsec s div HashesPerBlock) (trailer_prefix s) (tail_of s)"
proof -
  have m: "length openTrailerMagic = 8" by (simp add: openTrailerMagic_def)
  have p: "trailer_prefix s = openTrailerMagic @ le_put 2 H @ le_put 2 rf @ open_hashes s"
    by (simp add: trailer_prefix_def H_def rf_def)
  have lp: "length (trailer_prefix s) = e" by (simp add: length_trailer_prefix e_def H_def)
  have lh: "length (open_hashes s) = H * HashSize" by (simp add: length_open_hashes H_def)
  show "take 8 (trailer_of s) = openTrailerMagic" "bslice 8 10 (trailer_of s) = le_put 2 H"
    "bslice 10 12 (trailer_of s) = le_put 2 rf" "bslice openTrailerHeader e (trailer_of s) = open_hashes s"
    by (simp_all add: trailer_of_def p m bslice_def openTrailerHeader_def e_def lh)
  show "take e (trailer_of s) = trailer_prefix s"
    "bslice e (e + HashSize) (trailer_of s) = openBlockMAC (nsec s div HashesPerBlock) (trailer_prefix s) (tail_of s)"
    using lp by (simp_all add: trailer_of_def bslice_def)
qed

lemma has_trailer_iff: "has_trailer s \<longleftrightarrow> nsec s mod HashesPerBlock \<noteq> 0 \<or> tail_of s \<noteq> []"
proof -
  have "open_hashes s = [] \<longleftrightarrow> nsec s mod HashesPerBlock = 0"
    unfolding length_0_conv [symmetric] length_open_hashes by (simp add: HashSize_def)
  then show ?thesis by (simp add: has_trailer_def)
qed

text \<open>The trailer sits where its own sector count says the open block starts.\<close>

lemma trailer_geometry:
  fixes s :: bytes
  defines "e \<equiv> CalcPhysical (nsec s * SectorSize)" and "H \<equiv> nsec s mod HashesPerBlock" and "B \<equiv> nsec s div HashesPerBlock"
  shows "int (e + 2 * SectorSize) - int SectorSize - int ((H + 1) * SectorSize) - int plogHeaderSize = int (B * BlockPhysical)"
    "B * DataPerBlock + H * SectorSize = nsec s * SectorSize"
proof -
  have n: "nsec s = B * HashesPerBlock + H" by (simp add: B_def H_def)
  then show "B * DataPerBlock + H * SectorSize = nsec s * SectorSize" by (simp add: DataPerBlock_def add_mult_distrib)
  have "e = (1 + nsec s + B) * SectorSize" by (simp add: e_def B_def CalcPhysical_sector)
  then have "e = SectorSize + B * BlockPhysical + H * SectorSize"
    unfolding n by (simp add: BlockPhysical_def algebra_simps)
  then show "int (e + 2 * SectorSize) - int SectorSize - int ((H + 1) * SectorSize) - int plogHeaderSize = int (B * BlockPhysical)"
    by (simp add: plogHeaderSize_def algebra_simps)
qed

lemma recoverFromTrailer_committed:
  assumes "committed sb s (content (datafile p))" "has_trailer s" "readable (datafile p)" "buf p = []"
  shows "recoverFromTrailer (length (content (datafile p))) p
      = (p\<lparr>buf := tail_of s, logicalLength := length s, hashes := open_hashes s\<rparr>, True)"
proof -
  define d where "d = content (datafile p)"
  define e where "e = CalcPhysical (nsec s * SectorSize)"
  have d: "length d = e + 2 * SectorSize" "bslice e (e + length (tail_of s)) d = tail_of s"
    "bslice (e + SectorSize) (e + 2 * SectorSize) d = trailer_of s"
    using assms(1,2) by (simp_all add: committed_def Let_def d_def e_def)
  have rd: "off + n \<le> length d \<Longrightarrow> file_ReadAt (datafile p) n off = Inr (bslice off (off + n) d)" for off n
    using file_ReadAt_ok [OF assms(3)] by (simp add: d_def)
  have t: "file_ReadAt (datafile p) SectorSize (e + 2 * SectorSize - SectorSize) = Inr (trailer_of s)"
    using rd [of "e + SectorSize" SectorSize] d by (simp add: mult_2 add.assoc)
  have rt: "file_ReadAt (datafile p) (length (tail_of s)) e = Inr (tail_of s)"
    using rd [of e "length (tail_of s)"] d length_tail_of_lt [of s] by simp
  have big: "\<not> e + 2 * SectorSize < plogHeaderSize + 2 * SectorSize"
    using CalcPhysical_header [of "nsec s * SectorSize"] d(1) by (simp add: e_def)
  define H where "H = nsec s mod HashesPerBlock"
  define B where "B = nsec s div HashesPerBlock"
  have H: "H < HashesPerBlock" "le_get (le_put 2 H) = H"
    using mod_less_divisor [OF HashesPerBlock_pos, of "nsec s"] by (simp_all add: H_def HashesPerBlock_def le_get_put)
  have lt: "length (tail_of s) < SectorSize" by (rule length_tail_of_lt)
  have nz: "\<not> (H = 0 \<and> length (tail_of s) = 0)" using assms(2) by (simp add: has_trailer_iff H_def)
  note g0 = trailer_geometry [of s, folded e_def H_def B_def]
  note parts = trailer_parts [of s, folded H_def B_def]
  define X where "X = B * BlockPhysical"
  have drs: "X div BlockPhysical = B" "X mod BlockPhysical = 0" by (simp_all add: X_def)
  note g = g0 [folded X_def]
  have bd: "B * DataPerBlock div DataPerBlock = B" by simp
  have sl: "nsec s * SectorSize + length (tail_of s) = length s" by (simp add: tail_of_def nsec_le)
  show ?thesis
    unfolding d_def [symmetric] d(1) recoverFromTrailer_def if_not_P [OF big] t sum.case parts
    unfolding Let_def H(2) ragged_field
    unfolding g(1) nat_int drs
    unfolding bd g(2) e_def [symmetric]
    using H(1) lt nz rt assms(4) drs sl
    by (cases "tail_of s = []") (simp_all add: parts zmod_int [symmetric])
qed

text \<open>
  A file whose last block is complete ends in a hash sector. The code tells the two apart by the
  trailer's magic, which a hash sector starts with only if a truncated hash happens to equal it.
\<close>

definition unambiguous :: "bytes \<Rightarrow> bool" where
  "unambiguous s \<longleftrightarrow>
     (\<not> has_trailer s \<and> nsec s \<noteq> 0 \<longrightarrow> take 8 (sectorHash (sector s (nsec s - HashesPerBlock))) \<noteq> openTrailerMagic)"

lemma recoverFromTrailer_aligned:
  assumes "committed sb s (content (datafile p))" "\<not> has_trailer s" "readable (datafile p)" "unambiguous s"
  shows "recoverFromTrailer (length (content (datafile p))) p = (p, False)"
proof (cases "nsec s = 0")
  case True
  then have "length (content (datafile p)) = plogHeaderSize"
    using assms(1,2) by (simp add: committed_def Let_def CalcPhysical_def)
  then show ?thesis by (simp add: recoverFromTrailer_def SectorSize_def)
next
  case False
  define d where "d = content (datafile p)"
  define B where "B = nsec s div HashesPerBlock"
  have H: "nsec s mod HashesPerBlock = 0" using assms(2) by (simp add: has_trailer_iff)
  then have N: "nsec s = B * HashesPerBlock" by (metis B_def add.right_neutral div_mult_mod_eq)
  with False have B: "0 < B" by auto
  have d: "disk_ok d s" "length d = CalcPhysical (nsec s * SectorSize)"
    using assms(1,2) by (simp_all add: committed_def Let_def d_def)
  have ld: "length d = hashSectorPhys (B - 1) + SectorSize"
    using B unfolding d(2) hashSectorPhys_sector CalcPhysical_sector N by (cases B) (simp_all add: algebra_simps)
  have B': "B - 1 < nsec s div HashesPerBlock" using B B_def by simp
  note hs = disk_ok_hash_sector [OF d(1) B']
  have rd: "file_ReadAt (datafile p) SectorSize (length d - SectorSize) = Inr (hash_sector (B - 1) (block_hashes s (B - 1)))"
    using file_ReadAt_ok [OF assms(3), of "hashSectorPhys (B - 1)" SectorSize] hs ld by (simp add: d_def)
  have cut: "take 8 x = take 8 (take (HashesPerBlock * HashSize) x)" "take 8 x = take 8 (take HashSize x)" for x :: bytes
    by (simp_all add: HashesPerBlock_def HashSize_def)
  have "take 8 (hash_sector (B - 1) (block_hashes s (B - 1))) = take 8 (block_hashes s (B - 1))"
    by (subst cut(1)) (simp only: hash_sector_parts(1) [OF length_block_hashes [OF B']])
  moreover have "take 8 (block_hashes s (B - 1)) = take 8 (sectorHash (sector s (nsec s - HashesPerBlock)))"
  proof -
    let ?i = "(B - 1) * HashesPerBlock"
    have i: "?i < nsec s" "?i div HashesPerBlock = B - 1" "?i mod HashesPerBlock = 0" "?i = nsec s - HashesPerBlock"
      using B by (cases B; simp add: N)+
    from block_hashes_sector [of ?i s] i B' have "take HashSize (block_hashes s (B - 1)) = sectorHash (sector s ?i)"
      by (simp add: bslice_def)
    then show ?thesis unfolding i(4) by (subst cut(2)) simp
  qed
  ultimately have "take 8 (hash_sector (B - 1) (block_hashes s (B - 1))) \<noteq> openTrailerMagic"
    using assms(2,4) False by (simp add: unambiguous_def)
  then show ?thesis
    unfolding recoverFromTrailer_def d_def [symmetric] rd by simp
qed

lemma reload_committed:
  assumes "committed sb s (content f)" "\<forall>i. \<not> unreadable f i" "unambiguous s" "len = CalcLogical (length (content f))"
  shows "\<exists>p. reload (new_Plog i hdr len f) = (p, Inr ()) \<and> mem_ok p s \<and> datafile p = f \<and> header p = hdr
     \<and> pid p = i \<and> \<not> undoActive p"
proof -
  let ?p = "new_Plog i hdr len f"
  have md: "readable (datafile ?p)" and c: "committed sb s (content (datafile ?p))"
    using assms(1,2) by (simp_all add: readable_def new_Plog_def)
  show ?thesis
  proof (cases "has_trailer s")
    case True
    have "buf ?p = []" by (simp add: new_Plog_def)
    from recoverFromTrailer_committed [OF c True md this] show ?thesis
      unfolding reload_def by (simp add: mem_ok_def new_Plog_def)
  next
    case False
    then have al: "tail_of s = []" "open_hashes s = []" by (simp_all add: has_trailer_def)
    have len: "len = length s"
      using committed_quiet [OF assms(1) al] assms(4) by (simp add: CalcLogical_CalcPhysical_inv)
    have z: "length s mod SectorSize = 0" using al(1) length_tail_of [of s] by simp
    have m: "nsec s mod HashesPerBlock = 0" using False by (simp add: has_trailer_iff)
    have "length s = nsec s div HashesPerBlock * DataPerBlock"
      using z m by (simp add: nsec_def DataPerBlock_def) (metis add.right_neutral div_mult_mod_eq mult.assoc)
    then have b: "length s div DataPerBlock * DataPerBlock = length s" by (metis DataPerBlock_pos less_irrefl nonzero_mult_div_cancel_right)
    show ?thesis
      using recoverFromTrailer_aligned [OF c False md assms(3)] al z b
      by (simp add: reload_def rebuildOpenBlock_def Let_def mem_ok_def new_Plog_def len)
  qed
qed
section \<open>Opening a committed file\<close>

text \<open>A routine that meets no injected fault leaves none for the next one.\<close>

definition calm :: "(pfile, 'a) io \<Rightarrow> bool" where
  "calm m \<longleftrightarrow> (\<forall>f. faults f = [] \<longrightarrow> faults (fst (m f)) = [])"

lemma calmD: "calm m \<Longrightarrow> m f = (f', r) \<Longrightarrow> faults f = [] \<Longrightarrow> faults f' = []"
  by (metis fst_conv calm_def)

lemma calm_bind [io_rules]: "calm m \<Longrightarrow> (\<And>x. calm (k x)) \<Longrightarrow> calm (bind m k)"
  by (auto simp: calm_def bind_def split: prod.splits sum.splits)

lemma calm_seq [io_rules]: "calm m \<Longrightarrow> calm k \<Longrightarrow> calm (seq m k)"
  unfolding seq_def by (intro calm_bind)

lemma calm_pure [io_rules]: "calm (ret x)" "calm (raise e)" "calm (gets g)" "calm (of_result h)"
  by (simp_all add: calm_def ret_def raise_def gets_def of_result_def)

lemma calm_sys_op [io_rules]: "(\<And>f. faults (g f) = faults f) \<Longrightarrow> calm (sys_op g)"
  by (simp add: calm_def sys_op_no_faults)

lemma calm_calls [io_rules]: "calm (file_Truncate n)" "calm file_Sync" "calm syncParent" "calm remove_journal"
proof -
  show "calm (file_Truncate n)" "calm file_Sync" "calm syncParent"
    unfolding file_Truncate_def file_Sync_def syncParent_def
    by (intro io_rules; simp add: touch_def Let_def)+
  have "calm (sys_op (\<lambda>f. f\<lparr>journal := None, journal_maybe := journal f # journal_maybe f,
      journal_dirty := False, maybe_dirty := maybe_dirty f \<or> journal_dirty f\<rparr>))"
    by (intro io_rules) simp
  then show "calm remove_journal" by (simp add: calm_def remove_journal_def)
qed

lemma calm_copy_back [io_rules]: "calm (copy_back r)"
  by (auto simp: calm_def copy_back_def file_WriteAt_def next_io_def put_bytes_def touch_def Let_def split: prod.splits option.splits)

lemma calm_restoreUndo: "calm restoreUndo"
  unfolding restoreUndo_def by (intro io_rules) (auto intro!: io_rules split: sum.splits)

lemma discardUndoTemp_no_faults: "faults f = [] \<Longrightarrow> \<exists>f'. discardUndoTemp f = (f', Inr ())"
  by (cases "journal_tmp f") (simp_all add: discardUndoTemp_def remove_tmp_def sys_op_no_faults syncParent_no_faults)

lemma committed_nonempty: "committed sb s d \<Longrightarrow> d \<noteq> []"
  by (auto simp: committed_def disk_ok_def SectorSize_def)

lemma prepare_existing:
  assumes b: "baseline d f" "journal_maybe f = [] \<and> whole f" "entry f" "length d < 2 ^ 63" "\<forall>i. \<not> unreadable f i"
    and c: "committed (superblock payload) s d" "length payload \<le> plogHeaderMaxPayload" "Unmarshal payload = Inr h"
    and mode: "mode \<noteq> O_RDONLY"
    and run: "prepare_file Marshal Unmarshal mode hdr f = (f', r)"
  shows "(case r of Inr x \<Rightarrow> settled d f' \<and> entry f' \<and> x = (h, CalcLogical (length d)) | Inl e \<Rightarrow> baseline d f' \<and> safe {d} f')
     \<and> unreadable f' = unreadable f \<and> (faults f = [] \<longrightarrow> (\<exists>x. r = Inr x))"
proof -
  have op: "openFile mode f = (f, Inr ())" using b(3) by (simp add: openFile_def)
  obtain f1 r1 where r1: "restoreUndo f = (f1, r1)" by force
  have st1: "unreadable f1 = unreadable f" "entry f1 = entry f" using steadyD [OF steady_restoreUndo r1] by (simp_all add: sees_def)
  show ?thesis
  proof (cases r1)
    case (Inl e)
    with run mode op r1 have "f' = f1" "r = Inl e" by (simp_all add: prepare_file_def seq_def bind_def when_io_def)
    moreover have "faults f \<noteq> []"
      using restoreUndo_succeeds [OF b(4,1) conjunct1 [OF b(2)]] b(5) r1 Inl by auto
    ultimately show ?thesis
      using tripleD_err [OF triple_restoreUndo [OF b(4)] _ r1 [unfolded Inl]] b(1,2) st1 by simp
  next
    case (Inr x)
    then have s1: "settled d f1" using tripleD_ok [OF triple_restoreUndo [OF b(4)] _ r1 [unfolded Inr]] b(1,2) by simp
    obtain f2 r2 where r2: "discardUndoTemp f1 = (f2, r2)" by force
    with s1 have s2: "settled d f2" "unreadable f2 = unreadable f1" "entry f2 = entry f1" by (auto dest: discardUndoTemp_core)
    have step: "prepare_file Marshal Unmarshal mode hdr f =
        (case r2 of Inl e \<Rightarrow> (f2, Inl e) | Inr _ \<Rightarrow>
           bind (of_result (readSuperblock Unmarshal)) (\<lambda>h. ret (h, CalcLogical (length d))) f2)"
      using mode op r1 Inr r2 s2(1) committed_nonempty [OF c(1)]
      by (simp add: prepare_file_def seq_def bind_def when_io_def gets_def settled_def split: sum.splits)
    have "readable f2" using b(5) s2(2) st1 by (simp add: readable_def)
    moreover have "take SectorSize (content f2) = superblock payload"
      using c(1) s2(1) by (simp add: committed_def settled_def)
    ultimately have rs: "readSuperblock Unmarshal f2 = Inr h" using readSuperblock_superblock [OF c(2)] c(3) by simp
    have nf: "\<exists>x. r2 = Inr x" if "faults f = []"
      using discardUndoTemp_no_faults [OF calmD [OF calm_restoreUndo r1 that]] r2 by auto
    show ?thesis
    proof (cases r2)
      case (Inl e)
      with run step have "f' = f2" "r = Inl e" by simp_all
      then show ?thesis using settled_safe [OF s2(1)] s2(2) st1 nf Inl by auto
    next
      case (Inr x)
      with run step rs have "f' = f2" "r = Inr (h, CalcLogical (length d))" by (simp_all add: bind_def of_result_def ret_def)
      then show ?thesis using s2 st1 b(3) by simp
    qed
  qed
qed

text \<open>
  Opening a file that holds, or whose journal restores, the committed image of \<open>s\<close>: unless a call
  fails, the plog holds exactly \<open>s\<close>; if one fails nothing is lost.
\<close>

lemma openPlogFile_existing:
  assumes b: "baseline d f" "journal_maybe f = [] \<and> whole f" "entry f" "length d < 2 ^ 63" "\<forall>i. \<not> unreadable f i"
    and c: "committed (superblock payload) s d" "length payload \<le> plogHeaderMaxPayload" "Unmarshal payload = Inr h"
    and u: "unambiguous s" "mode \<noteq> O_RDONLY"
    and run: "openPlogFile Marshal Unmarshal i mode hdr f = (f', r)"
  shows "(case r of
      Inr p \<Rightarrow> pinv (superblock payload) {d} d p s \<and> medium_ok p \<and> header p = h \<and> pid p = i \<and> datafile p = f' \<and> settled d f' \<and> \<not> undoActive p
    | Inl e \<Rightarrow> baseline d f' \<and> safe {d} f') \<and> (faults f = [] \<longrightarrow> (\<exists>p. r = Inr p))"
proof -
  obtain f1 r1 where r1: "prepare_file Marshal Unmarshal mode hdr f = (f1, r1)" by force
  note pre = prepare_existing [OF b c u(2) r1]
  show ?thesis
  proof (cases r1)
    case (Inl e)
    with run r1 have "f' = f1" "r = Inl e" by (simp_all add: openPlogFile_def)
    with pre Inl show ?thesis by simp
  next
    case (Inr x)
    with pre have x: "x = (h, CalcLogical (length d))" "settled d f1" "unreadable f1 = unreadable f" "entry f1" by auto
    then have "committed (superblock payload) s (content f1)" "\<forall>i. \<not> unreadable f1 i"
      "CalcLogical (length d) = CalcLogical (length (content f1))" using c(1) b(5) by (auto simp: settled_def)
    from reload_committed [OF this(1,2) u(1) this(3), of i h] obtain p where
      p: "reload (new_Plog i h (CalcLogical (length d)) f1) = (p, Inr ())" "mem_ok p s" "datafile p = f1" "header p = h"
        "pid p = i" "\<not> undoActive p" by blast
    have "jinv {d} d p" using settled_safe [OF x(2)] p(3,6) b(4) by (simp add: jinv_def)
    moreover have "content f1 = d" using x(2) by (simp add: settled_def)
    ultimately have "pinv (superblock payload) {d} d p s"
      using p c(1) committed_quiet [OF c(1)] by (simp add: pinv_def committed_def)
    moreover have "medium_ok p" using p(3) x(2-4) b(5) by (simp add: medium_ok_def settled_def)
    ultimately show ?thesis
      using run r1 Inr x p by (auto simp: openPlogFile_def)
  qed
qed
text \<open>A fresh file: the superblock is stamped and made durable before the plog is returned.\<close>

lemma committed_fresh:
  assumes "length payload \<le> plogHeaderMaxPayload"
  shows "committed (superblock payload) [] (superblock payload)"
proof -
  have l: "length (superblock payload) = SectorSize"
    using length_superblock_body [OF assms] by (simp add: superblock_eq [OF assms] HashSize_def plogHeaderHMACOffset_def SectorSize_def)
  have e: "nsec [] = 0" "tail_of [] = []" "open_hashes [] = []" "disk_image [] = []"
    by (simp_all add: nsec_def tail_of_def open_hashes_def disk_image_def sectors_of_def)
  show ?thesis
    by (simp add: committed_def disk_ok_def has_trailer_def e l Let_def CalcPhysical_def plogHeaderSize_def)
qed

definition fresh_file :: "pfile \<Rightarrow> bool" where
  "fresh_file f \<longleftrightarrow> content f = [] \<and> dirty_from f = None \<and> journal f = None \<and> journal_maybe f = [] \<and> whole f"

lemma openFile_fresh:
  assumes "fresh_file f" "openFile O_RDWR_CREATE f = (f1, r)"
  shows "fresh_file f1 \<and> unreadable f1 = unreadable f \<and> (r = Inr () \<longrightarrow> entry f1)"
  using assms by (auto simp: openFile_def fresh_file_def whole_def split: if_splits elim!: sys_op_cases)

lemma stamp_fresh:
  assumes "settled [] f" "entry f" "Marshal h = Inr payload" "length payload \<le> plogHeaderMaxPayload"
    and "seq (writeSuperblock Marshal h) (seq file_Sync (seq syncParent (seq (sys_op id) (ret (h, 0::nat))))) f = (f', Inr x)"
  shows "settled (superblock payload) f' \<and> entry f' \<and> unreadable f' = unreadable f \<and> x = (h, 0)"
proof -
  from assms(5) obtain f1 f2 f3 f4 where w: "writeSuperblock Marshal h f = (f1, Inr ())" "file_Sync f1 = (f2, Inr ())"
    "syncParent f2 = (f3, Inr ())" "sys_op id f3 = (f4, Inr ())" "f' = f4" "x = (h, 0)"
    by (auto simp: seq_eq_Inr ret_def)
  from w(1) assms(3,4) obtain n where n: "file_WriteAt (superblock payload) 0 f = (f1, n, None)"
    by (auto simp: writeSuperblock_def split: prod.splits option.splits)
  have c: "committed (superblock payload) [] (superblock payload)" by (rule committed_fresh [OF assms(4)])
  from n obtain rs where "f1 = put_bytes (superblock payload) 0 (f\<lparr>faults := rs\<rparr>)"
    using next_io_eq [of f] by (auto simp: file_WriteAt_def split: prod.splits io_outcome.splits)
  then have f1: "content f1 = write_bytes [] 0 (superblock payload)" "journal f1 = None" "journal_maybe f1 = []" "entry f1"
      "unreadable f1 = unreadable f" "whole f1"
    using assms(1,2) by (simp_all add: settled_def whole_def put_bytes_def touch_def Let_def)
  have wb: "write_bytes [] 0 (superblock payload) = superblock payload" by (simp add: write_bytes_def)
  obtain rs2 where f2: "f2 = f1\<lparr>faults := rs2, dirty_from := None\<rparr>" using w(2) by (auto simp: file_Sync_def elim!: sys_op_cases)
  obtain rs3 where f3: "f3 = f2\<lparr>faults := rs3, journal_maybe := [], maybe_dirty := False, entry_dur := entry f2\<rparr>"
    using w(3) by (auto simp: syncParent_def seq_eq_Inr elim!: sys_op_cases)
  obtain rs4 where f4: "f4 = f3\<lparr>faults := rs4\<rparr>" using w(4) by (auto elim!: sys_op_cases)
  show ?thesis using f1 wb w(5,6) by (simp add: f2 f3 f4 settled_def whole_def)
qed

lemma openPlogFile_fresh:
  assumes f: "fresh_file f" "\<forall>i. \<not> unreadable f i"
    and m: "Marshal h = Inr payload" "length payload \<le> plogHeaderMaxPayload"
    and run: "openPlogFile Marshal Unmarshal i O_RDWR_CREATE (Some h) f = (f', Inr p)"
  shows "pinv (superblock payload) {superblock payload} (superblock payload) p [] \<and> medium_ok p \<and> header p = h \<and> pid p = i
     \<and> datafile p = f' \<and> settled (superblock payload) f' \<and> \<not> undoActive p"
proof -
  let ?sb = "superblock payload"
  obtain f1 r1 where o: "openFile O_RDWR_CREATE f = (f1, r1)" by force
  note f1 = openFile_fresh [OF f(1) o]
  obtain f2 r2 where r: "restoreUndo f1 = (f2, r2)" by force
  obtain f3 r3 where di: "discardUndoTemp f2 = (f3, r3)" by force
  have ok: "r1 = Inr ()" "r2 = Inr ()" "r3 = Inr ()"
    using run o r di by (auto simp: openPlogFile_def prepare_file_def seq_def bind_def when_io_def split: sum.splits prod.splits)
  have "baseline [] f1" "journal_maybe f1 = []" "whole f1" using f1 by (auto simp: baseline_def keeps_def fresh_file_def)
  then have s2: "settled [] f2" using tripleD_ok [OF triple_restoreUndo [of "[]"] _ r [unfolded ok(2)]] by simp
  note s3 = discardUndoTemp_core [OF di s2]
  have e2: "sees f1 f2" using steadyD [OF steady_restoreUndo r] .
  have "content f3 = []" using s3 by (simp add: settled_def)
  then have "prepare_file Marshal Unmarshal O_RDWR_CREATE (Some h) f =
      seq (writeSuperblock Marshal h) (seq file_Sync (seq syncParent (seq (sys_op id) (ret (h, 0))))) f3"
    using o r di ok
    by (simp add: prepare_file_def seq_ok [of "openFile O_RDWR_CREATE" _ f1] seq_ok [of restoreUndo _ f2] seq_ok [of _ f1 f3]
        when_io_def bind_ok [of _ f3 f3 0] gets_def)
  moreover obtain f4 r4 where st: "seq (writeSuperblock Marshal h) (seq file_Sync (seq syncParent (seq (sys_op id) (ret (h, 0::nat))))) f3 = (f4, r4)"
    by force
  ultimately have run4: "(case r4 of Inl e \<Rightarrow> (f4, Inl e) | Inr (h, len) \<Rightarrow> (case reload (new_Plog i h len f4) of
       (p, Inl e) \<Rightarrow> (datafile p, Inl e) | (p, Inr _) \<Rightarrow> (datafile p, Inr p))) = (f', Inr p)"
    using run by (simp add: openPlogFile_def split: sum.splits)
  then obtain x where x: "r4 = Inr x" by (cases r4) auto
  have s4: "settled ?sb f4" "entry f4" "unreadable f4 = unreadable f" "x = (h, 0)"
    using stamp_fresh [OF _ _ m st [unfolded x]] s3 f1 ok e2 by (auto simp: sees_def)
  have c: "committed ?sb [] ?sb" by (rule committed_fresh [OF m(2)])
  then have c4: "committed ?sb [] (content f4)" using s4(1) by (simp add: settled_def)
  have u: "\<forall>i. \<not> unreadable f4 i" "unambiguous []" using f(2) s4(3) by (simp_all add: unambiguous_def nsec_def)
  have "has_trailer [] = False" by (simp add: has_trailer_iff nsec_def tail_of_def)
  with c have lsb: "length ?sb = CalcPhysical 0" by (simp add: committed_def Let_def nsec_def)
  then have len: "(0::nat) = CalcLogical (length (content f4))" using s4(1) by (simp add: settled_def CalcLogical_CalcPhysical_inv)
  from reload_committed [OF c4 u len, of i h] obtain q where
    q: "reload (new_Plog i h 0 f4) = (q, Inr ())" "mem_ok q []" "datafile q = f4" "header q = h" "pid q = i" "\<not> undoActive q" by blast
  have p: "p = q" "f' = f4" using run4 x s4(4) q by auto
  have "length ?sb < 2 ^ 63" by (simp add: lsb CalcPhysical_def geometry)
  then have "jinv {?sb} ?sb q" using settled_safe [OF s4(1)] q by (simp add: jinv_def)
  then have "pinv ?sb {?sb} ?sb q []"
    using q c4 c s4(1) lsb by (simp add: pinv_def committed_def settled_def)
  with p q s4 u show ?thesis by (simp add: medium_ok_def settled_def)
qed

lemma OpenPlog_fresh:
  assumes f: "fresh_file f" "\<forall>i. \<not> unreadable f i"
    and m: "Marshal h = Inr payload" "length payload \<le> plogHeaderMaxPayload"
    and run: "OpenPlog Marshal Unmarshal i (Some h) f = (f', Inr p)"
  shows "pinv (superblock payload) {superblock payload} (superblock payload) p [] \<and> medium_ok p \<and> header p = h \<and> pid p = i
     \<and> datafile p = f' \<and> settled (superblock payload) f' \<and> \<not> undoActive p"
proof -
  obtain g where g: "mkdirAll f = (g, Inr ())" "openPlogFile Marshal Unmarshal i O_RDWR_CREATE (Some h) g = (f', Inr p)"
    using run by (auto simp: OpenPlog_def seq_eq_Inr)
  have "fresh_file g" "\<forall>i. \<not> unreadable g i"
    using g(1) f by (auto simp: mkdirAll_def fresh_file_def whole_def elim!: sys_op_cases)
  from openPlogFile_fresh [OF this m g(2)] show ?thesis .
qed

end
