(* ===== verification/Rose_Plog_Run.thy ===== *)
theory Rose_Plog_Run
  imports Rose_Plog_Open
begin

text \<open>
  Histories of a plog: operations, faults, power failures and reopenings in any order, against the
  specification that a plog holds what its successful operations built and keeps what it committed.
\<close>

section \<open>Progress without faults\<close>

text \<open>\<open>live P m\<close>: from states of \<open>P\<close> the routine succeeds and stays in \<open>P\<close>.\<close>

definition live :: "('s \<Rightarrow> bool) \<Rightarrow> ('s, 'a) io \<Rightarrow> bool" where
  "live P m \<longleftrightarrow> (\<forall>f. P f \<longrightarrow> (\<exists>f' x. m f = (f', Inr x) \<and> P f'))"

lemma liveD: "live P m \<Longrightarrow> P f \<Longrightarrow> \<exists>f' x. m f = (f', Inr x) \<and> P f'"
  by (simp add: live_def)

lemma live_bind: "live P m \<Longrightarrow> (\<And>x. live P (k x)) \<Longrightarrow> live P (bind m k)"
  unfolding live_def bind_def by (metis (mono_tags, lifting) case_prod_conv sum.case(2))

lemma live_seq: "live P m \<Longrightarrow> live P k \<Longrightarrow> live P (seq m k)"
  unfolding seq_def by (intro live_bind)

lemma live_gets_bind: "(\<And>f. P f \<Longrightarrow> live P (k (g f))) \<Longrightarrow> live P (bind (gets g) k)"
  by (simp add: live_def bind_def gets_def)

lemma live_of_result_bind: "(\<And>f. P f \<Longrightarrow> \<exists>x. g f = Inr x \<and> live P (k x)) \<Longrightarrow> live P (bind (of_result g) k)"
  unfolding live_def bind_def of_result_def by (fastforce split: sum.splits)

lemma live_ret: "live P (ret x)"
  by (simp add: live_def ret_def)

lemma live_when: "live P m \<Longrightarrow> live P (when_io b m)"
  by (simp add: when_io_def live_ret)

definition clean :: "bytes \<Rightarrow> (nat \<Rightarrow> bool) \<Rightarrow> pfile \<Rightarrow> bool" where
  "clean C U f \<longleftrightarrow> faults f = [] \<and> content f = C \<and> unreadable f = U"

lemma live_sys_op: "(\<And>f. clean C U f \<Longrightarrow> clean C U (g f)) \<Longrightarrow> live (clean C U) (sys_op g)"
  by (simp add: live_def sys_op_no_faults clean_def)

lemma live_tmp_write: "live (clean C U) (tmp_write b)"
  by (simp add: live_def tmp_write_def next_io_def clean_def)

lemma live_clean_calls:
  "live (clean C U) rename_tmp" "live (clean C U) syncParent" "live (clean C U) tmp_create"
  "live (clean C U) tmp_Sync" "live (clean C U) tmp_Close"
  unfolding rename_tmp_def syncParent_def tmp_create_def tmp_Sync_def tmp_Close_def by (intro live_sys_op live_seq; simp add: clean_def)+

lemma live_defer:
  assumes "live (clean C U) m"
  shows "live (clean C U) (defer_io m (\<lambda>f. fst (remove_tmp f)))"
proof -
  have "clean C U f \<Longrightarrow> clean C U (fst (remove_tmp f))" for f
    by (simp add: remove_tmp_def clean_def sys_op_no_faults)
  with assms show ?thesis unfolding live_def defer_io_def by fastforce
qed

lemma clean_read:
  assumes "\<forall>i < length C. \<not> U i" "off + n \<le> length C" "clean C U f"
  shows "file_ReadAt f n off = Inr (bslice off (off + n) C)"
  using assms by (intro file_ReadAt_ok [of f, unfolded readable_def, simplified, THEN trans]) (auto simp: clean_def)

lemma live_write_undo:
  assumes "\<forall>i < length C. \<not> U i" "k \<le> length C"
  shows "live (clean C U) (write_undo None k (length C))"
  unfolding write_undo_def
proof (rule live_of_result_bind)
  fix f
  assume f: "clean C U f"
  have m: "min k SectorSize \<le> length C" using assms(2) by simp
  let ?idt = "sha256 (bslice 0 (min k SectorSize) C)"
  have idt: "undoIdentity f k = Inr ?idt"
    using clean_read [OF assms(1) _ f, of 0 "min k SectorSize"] m by (simp add: undoIdentity_def)
  have rd: "live (clean C U) (bind (of_result (\<lambda>f. file_ReadAt f (length C - k) k)) K)" if "\<And>x. live (clean C U) (K x)" for K :: "bytes \<Rightarrow> (pfile, unit) io"
    using clean_read [OF assms(1), of k "length C - k"] assms(2) that by (intro live_of_result_bind) auto
  show "\<exists>x. undoIdentity f k = Inr x \<and> live (clean C U)
      (if (case None of None \<Rightarrow> False | Some r \<Rightarrow> identity r \<noteq> x) then raise identity_mismatch
       else let header = undo_header k (length C) x; stop = (case None of None \<Rightarrow> length C | Some r \<Rightarrow> ur_start r);
                rest = (case None of None \<Rightarrow> [] | Some r \<Rightarrow> bslice undoHeaderSize (undoHeaderSize + (ur_size r - ur_start r)) (saved r))
            in seq (tmp_write header) (bind (of_result (\<lambda>f. file_ReadAt f (stop - k) k)) (\<lambda>mid.
                 seq (tmp_write mid) (seq (tmp_write rest) (seq (tmp_write (sha256 (header @ mid @ rest)))
                 (seq tmp_Sync (seq tmp_Close (seq rename_tmp syncParent))))))))"
    unfolding Let_def using idt by (auto intro!: rd live_seq live_tmp_write live_clean_calls)
qed

lemma saveUndo_live:
  assumes "faults f = []" "journal f = None" "readable f" "k \<le> length (content f)"
  shows "\<exists>f'. saveUndo k f = (f', Inr ()) \<and> faults f' = []"
proof -
  let ?C = "content f" let ?U = "unreadable f"
  have w: "live (clean ?C ?U) (write_undo None k (length ?C))"
    using assms(3,4) by (intro live_write_undo) (simp_all add: readable_def)
  have "live (clean ?C ?U) (replace_undo None k)"
    unfolding replace_undo_def using w assms(4)
    by (intro live_gets_bind) (auto simp: clean_def intro!: live_seq live_clean_calls live_defer)
  from liveD [OF this, of f] assms(1) obtain f' where "replace_undo None k f = (f', Inr ())" "faults f' = []"
    by (auto simp: clean_def)
  moreover have "saveUndo k f = replace_undo None k f"
    using assms(2) by (simp add: saveUndo_def gets_def bind_def openUndo_def)
  ultimately show ?thesis by simp
qed

text \<open>
  A plog whose next protected offset is \<open>start\<close> or above: the journal of this transaction covers it,
  or there is none yet.
\<close>

definition ready :: "nat \<Rightarrow> Plog \<Rightarrow> bool" where
  "ready start p \<longleftrightarrow> faults (datafile p) = [] \<and> readable (datafile p) \<and>
     (undoActive p \<and> undoStart p \<le> start \<or>
      \<not> undoActive p \<and> journal (datafile p) = None \<and> start \<le> length (content (datafile p)))"

lemma protect_live:
  assumes "ready start p"
  shows "\<exists>q. protectPrefixLocked start p = (q, Inr ()) \<and> faults (datafile q) = []"
proof (cases "undoActive p \<and> undoStart p \<le> start")
  case True
  then show ?thesis using assms by (simp add: protectPrefixLocked_def ready_def)
next
  case False
  then obtain f where "saveUndo start (datafile p) = (f, Inr ())" "faults f = []"
    using saveUndo_live [of "datafile p" start] assms by (auto simp: ready_def)
  then show ?thesis using False by (auto simp: protectPrefixLocked_def)
qed

definition quiet :: "Plog \<Rightarrow> bool" where
  "quiet p \<longleftrightarrow> faults (datafile p) = []"

lemma calm_commitUndo: "calm commitUndo"
  unfolding commitUndo_def
proof (rule calm_seq [OF calm_calls(2)], unfold calm_def, intro allI impI)
  fix f :: pfile
  assume f: "faults f = []"
  obtain g r where r: "remove_journal f = (g, r)" by force
  have "faults g = []" by (rule calmD [OF calm_calls(4) r f])
  then have "faults (fst (syncParent g)) = []" using calm_calls(3) by (simp add: calm_def)
  with r \<open>faults g = []\<close> show "faults (fst (case remove_journal f of
        (f, Inl e) \<Rightarrow> if e = ErrNotExist then syncParent f else (f, Inl e) | (f, Inr _) \<Rightarrow> syncParent f)) = []"
    by (cases r) auto
qed

lemma quiet_live:
  "live quiet (writePhysical b off)" "live quiet (on_file (file_Truncate n))" "live quiet commit_undo"
  "live quiet (modify (\<lambda>p. p\<lparr>loadedFromTrailer := x\<rparr>))"
proof -
  have pb: "faults (put_bytes b off f) = faults f" for b off f by (simp add: put_bytes_def touch_def Let_def)
  show "live quiet (writePhysical b off)"
    by (auto simp: live_def quiet_def writePhysical_def injected_WriteAt_def file_WriteAt_def next_io_def pb)
  show "live quiet (on_file (file_Truncate n))"
    by (auto simp: live_def quiet_def on_file_def focus_def file_Truncate_def sys_op_no_faults touch_def Let_def)
  show "live quiet commit_undo"
    unfolding live_def
  proof (intro allI impI)
    fix p
    assume "quiet p"
    then have nf: "faults (datafile p) = []" by (simp add: quiet_def)
    from commitUndo_no_faults [OF this] obtain f where f: "commitUndo (datafile p) = (f, Inr ())" by blast
    from calmD [OF calm_commitUndo f nf] f show "\<exists>q x. commit_undo p = (q, Inr x) \<and> quiet q"
      by (simp add: commit_undo_def quiet_def)
  qed
  show "live quiet (modify (\<lambda>p. p\<lparr>loadedFromTrailer := x\<rparr>))" by (simp add: live_def modify_def quiet_def)
qed

lemma Commit_live:
  assumes "pinv sb S C p s" "faults (datafile p) = []"
    and "ready (CalcPhysical (nsec s * SectorSize div DataPerBlock * DataPerBlock)) p"
  shows "\<exists>q. Plog_Commit p = (q, Inr ()) \<and> faults (datafile q) = []"
proof -
  have f: "\<not> bufCorrupt p" "\<not> openUnverified p" "buf p = tail_of s" "logicalLength p = length s"
    using assms(1) by (simp_all add: pinv_def mem_ok_def)
  let ?t = "hashes p \<noteq> [] \<or> 0 < length (buf p)"
  define e where "e = CalcPhysical (logicalLength p - length (buf p))"
  define b where "b = CalcPhysical ((logicalLength p - length (buf p)) div DataPerBlock * DataPerBlock)"
  define n where "n = (if ?t then e + 2 * SectorSize else CalcPhysical (logicalLength p))"
  define m where "m = seq (when_io (0 < length (buf p)) (writePhysical (buf p) e))
      (seq (when_io ?t (writePhysical (buildOpenTrailer p (length (buf p))) (e + SectorSize)))
      (seq (on_file (file_Truncate n))
      (seq commit_undo (when_io ?t (modify (\<lambda>p. p\<lparr>loadedFromTrailer := True\<rparr>))))))"
  have c: "Plog_Commit p = seq (when_io ?t (protectPrefixLocked b)) m p"
    using f unfolding Plog_Commit_def Let_def m_def e_def b_def n_def by simp
  have "live quiet m" unfolding m_def by (intro live_seq live_when quiet_live)
  moreover have "\<exists>q. when_io ?t (protectPrefixLocked b) p = (q, Inr ()) \<and> quiet q"
    using protect_live [of b p] assms(2,3) f by (auto simp: when_io_def ret_def quiet_def b_def sealed_len)
  ultimately show ?thesis unfolding c by (auto simp: quiet_def seq_def bind_def dest!: liveD)
qed
section \<open>Histories of a plog\<close>

text \<open>
  What a process does with a plog file over the lifetimes of several processes: operations that
  succeed or fail, power failures, and attempts to reopen the file.
\<close>

datatype plog_op = AppendOp bytes | EnsureOp int bytes | CommitOp | TruncateOp int

definition unit_result :: "'s \<times> 'a result \<Rightarrow> 's \<times> unit result" where
  "unit_result x = (fst x, case snd x of Inl e \<Rightarrow> Inl e | Inr _ \<Rightarrow> Inr ())"

fun apply_op :: "plog_op \<Rightarrow> (Plog, unit) io" where
  "apply_op (AppendOp d) p = unit_result (Plog_Write d p)"
| "apply_op (EnsureOp off d) p = unit_result (EnsureAppend off d p)"
| "apply_op CommitOp p = Plog_Commit p"
| "apply_op (TruncateOp n) p = TruncateTo n p"

definition contents :: "Plog \<Rightarrow> bytes result" where
  "contents p = Plog_Read p 0 (int (LogicalLength p))"

datatype plog_event = Applied plog_op bool | PowerLoss | Reopened "bytes result" | ReopenFailed

datatype plog_state = Opened Plog | Closed pfile

inductive plog_step ::
  "(PlogHeader \<Rightarrow> bytes result) \<Rightarrow> (bytes \<Rightarrow> PlogHeader result) \<Rightarrow> plog_state \<Rightarrow> plog_event \<Rightarrow> plog_state \<Rightarrow> bool"
  for Marshal Unmarshal where
  Apply: "apply_op op p = (q, r) \<Longrightarrow> plog_step Marshal Unmarshal (Opened p) (Applied op (r = Inr ())) (Opened q)"
| Power: "crash (datafile p) f \<Longrightarrow> unreadable f = unreadable (datafile p)
    \<Longrightarrow> plog_step Marshal Unmarshal (Opened p) PowerLoss (Closed f)"
| Reopen: "OpenExistingPlog Marshal Unmarshal i f = (f', Inr q)
    \<Longrightarrow> plog_step Marshal Unmarshal (Closed f) (Reopened (contents q)) (Opened q)"
| Fail: "OpenExistingPlog Marshal Unmarshal i f = (f', Inl e) \<Longrightarrow> crash f' f'' \<Longrightarrow> unreadable f'' = unreadable f'
    \<Longrightarrow> plog_step Marshal Unmarshal (Closed f) ReopenFailed (Closed f'')"

inductive plog_run ::
  "(PlogHeader \<Rightarrow> bytes result) \<Rightarrow> (bytes \<Rightarrow> PlogHeader result) \<Rightarrow> plog_state \<Rightarrow> plog_event list \<Rightarrow> plog_state \<Rightarrow> bool"
  for Marshal Unmarshal where
  Nil: "plog_run Marshal Unmarshal st [] st"
| Cons: "plog_step Marshal Unmarshal st ev st' \<Longrightarrow> plog_run Marshal Unmarshal st' evs st''
    \<Longrightarrow> plog_run Marshal Unmarshal st (ev # evs) st''"

text \<open>
  What a history promises: the stream an open plog holds, and the streams a power failure may leave,
  which are the last one whose commit succeeded and those whose commits failed since.
\<close>

datatype plog_spec = Live bytes "bytes set" | Down "bytes set"

fun spec_op :: "plog_op \<Rightarrow> bytes \<Rightarrow> bytes set \<Rightarrow> bytes \<times> bytes set" where
  "spec_op (AppendOp d) s K = (s @ d, K)"
| "spec_op (EnsureOp off d) s K = (take (nat off) s @ d @ drop (nat off + length d) s, K)"
| "spec_op CommitOp s K = (s, {s})"
| "spec_op (TruncateOp n) s K = (take (nat n) s, K)"

fun spec_step :: "plog_spec \<Rightarrow> plog_event \<Rightarrow> plog_spec option" where
  "spec_step (Live s K) (Applied op ok) =
     Some (if ok then case spec_op op s K of (s', K') \<Rightarrow> Live s' K'
           else if op = CommitOp then Live s (insert s K) else Live s K)"
| "spec_step (Live s K) PowerLoss = Some (Down K)"
| "spec_step (Down K) (Reopened (Inr t)) = (if t \<in> K then Some (Live t {t}) else None)"
| "spec_step (Down K) ReopenFailed = Some (Down K)"
| "spec_step _ _ = None"

fun spec_run :: "plog_spec \<Rightarrow> plog_event list \<Rightarrow> plog_spec option" where
  "spec_run a [] = Some a"
| "spec_run a (ev # evs) = (case spec_step a ev of None \<Rightarrow> None | Some a' \<Rightarrow> spec_run a' evs)"

text \<open>The history stays below the largest file, and commits no stream whose last hash sector looks like a trailer.\<close>

fun op_bytes :: "plog_op \<Rightarrow> nat" where
  "op_bytes (AppendOp d) = length d"
| "op_bytes (EnsureOp off d) = length d"
| "op_bytes CommitOp = 0"
| "op_bytes (TruncateOp n) = 0"

fun tame :: "plog_spec \<Rightarrow> plog_event list \<Rightarrow> bool" where
  "tame a [] = True"
| "tame a (ev # evs) =
     ((case (a, ev) of
         (Live s K, Applied op ok) \<Rightarrow> length s + op_bytes op < 2 ^ 61 \<and> (op = CommitOp \<longrightarrow> unambiguous s)
       | _ \<Rightarrow> True)
      \<and> (case spec_step a ev of None \<Rightarrow> True | Some a' \<Rightarrow> tame a' evs))"

section \<open>Every history is one the specification allows\<close>

definition rinv :: "bytes \<Rightarrow> bytes set \<Rightarrow> Plog \<Rightarrow> bytes \<Rightarrow> bool" where
  "rinv sb K p s \<longleftrightarrow> medium_ok p \<and> (\<forall>t \<in> K. unambiguous t \<and> length t < 2 ^ 61) \<and>
     (\<exists>S C. pinv sb S C p s \<and> (\<forall>D \<in> S. \<exists>t \<in> K. committed sb t D))"

lemma rinvI: "pinv sb S C p s \<Longrightarrow> medium_ok p \<Longrightarrow> \<forall>D \<in> S. \<exists>t \<in> K. committed sb t D
    \<Longrightarrow> \<forall>t \<in> K. unambiguous t \<and> length t < 2 ^ 61 \<Longrightarrow> rinv sb K p s"
  by (auto simp: rinv_def)

lemma CalcPhysical_bound: "n < 2 ^ 61 \<Longrightarrow> CalcPhysical n + 2 * SectorSize < 2 ^ 63"
proof -
  assume n: "n < 2 ^ 61"
  have "n div 1044480 * 1048576 \<le> n div 1044480 * (2 * 1044480)" by simp
  also have "\<dots> \<le> 2 * n" by (simp add: mult.assoc [symmetric] mult.commute [of _ 2] times_div_less_eq_dividend)
  finally have a: "n div 1044480 * 1048576 \<le> 2 * n" .
  have "n mod 1044480 < 1044480" by simp
  with a n show ?thesis by (simp add: CalcPhysical_def geometry)
qed

lemma apply_op_rinv:
  assumes r: "rinv sb K p s" and run: "apply_op op p = (q, r)"
    and small: "length s + op_bytes op < 2 ^ 61" and un: "op = CommitOp \<longrightarrow> unambiguous s"
  shows "\<exists>s' K'. spec_step (Live s K) (Applied op (r = Inr ())) = Some (Live s' K') \<and> rinv sb K' q s'"
proof -
  from r obtain S C where p: "pinv sb S C p s" "\<forall>D \<in> S. \<exists>t \<in> K. committed sb t D"
    and m: "medium_ok p" and K: "\<forall>t \<in> K. unambiguous t \<and> length t < 2 ^ 61" by (auto simp: rinv_def)
  show ?thesis
  proof (cases op)
    case (AppendOp d)
    obtain q' r' where w: "writeLocked d p = (q', r')" by force
    with run AppendOp have q: "q' = q" "(r = Inr ()) = (\<exists>x. r' = Inr x)"
      by (auto simp: unit_result_def Plog_Write_def split: sum.splits)
    from writeLocked_pinv [OF p(1) w] medium_ok_writeLocked [OF w m] q AppendOp p(2) K show ?thesis
      by (auto split: sum.splits intro!: rinvI)
  next
    case (EnsureOp off d)
    obtain q' r' where w: "EnsureAppend off d p = (q', r')" by force
    with run EnsureOp have q: "q' = q" "(r = Inr ()) = (\<exists>x. r' = Inr x)"
      by (auto simp: unit_result_def split: sum.splits)
    from EnsureAppend_pinv [OF p(1) w] medium_ok_EnsureAppend [OF w m] q EnsureOp p(2) K show ?thesis
      by (auto split: sum.splits intro!: rinvI)
  next
    case CommitOp
    have big: "CalcPhysical (nsec s * SectorSize) + 2 * SectorSize < 2 ^ 63"
      using small CommitOp nsec_le [of s] by (intro CalcPhysical_bound) simp
    have run': "Plog_Commit p = (q, r)" using run CommitOp by simp
    note md = medium_ok_Commit [OF run' m]
    note t = Commit_pinv [OF p(1) big]
    have sK: "unambiguous s \<and> length s < 2 ^ 61" using un small CommitOp by simp
    show ?thesis
    proof (cases r)
      case (Inl e)
      with run' tripleD_err [OF t refl] have "commit_failed sb S s q" by simp
      then obtain S' C' where S': "pinv sb S' C' q s" "S' = S \<or> (\<exists>d. committed sb s d \<and> S' = insert d S)"
        by (auto simp: commit_failed_def)
      then have "rinv sb (insert s K) q s" using p(2) K sK md by (intro rinvI [OF S'(1)]) auto
      then show ?thesis using CommitOp Inl by simp
    next
      case (Inr x)
      with run' tripleD_ok [OF t refl] have "commit_done sb s q" by simp
      then obtain d where "committed sb s d" "pinv sb {d} d q s" by (auto simp: commit_done_def)
      then have "rinv sb {s} q s" using sK md by (intro rinvI) auto
      then show ?thesis using CommitOp Inr by simp
    qed
  next
    case (TruncateOp n)
    have "TruncateTo n p = (q, r)" "length s < 2 ^ 63" using run TruncateOp small by simp_all
    from TruncateTo_pinv [OF p(1) m this(2,1)] TruncateOp p(2) K show ?thesis
      by (auto split: sum.splits intro!: rinvI)
  qed
qed

definition closed_ok :: "bytes \<Rightarrow> bytes set \<Rightarrow> pfile \<Rightarrow> bool" where
  "closed_ok sb K f \<longleftrightarrow> (\<forall>i. \<not> unreadable f i) \<and> entry f \<and> entry_dur f \<and> journal_maybe f = [] \<and> whole f \<and>
     (\<exists>D. \<exists>t \<in> K. unambiguous t \<and> length t < 2 ^ 61 \<and> committed sb t D \<and> baseline D f)"

fun simulates :: "bytes \<Rightarrow> plog_spec \<Rightarrow> plog_state \<Rightarrow> bool" where
  "simulates sb (Live s K) (Opened p) = (rinv sb K p s \<and> length s < 2 ^ 61)"
| "simulates sb (Down K) (Closed f) = closed_ok sb K f"
| "simulates sb _ _ = False"

lemma committed_small: "committed sb t D \<Longrightarrow> length t < 2 ^ 61 \<Longrightarrow> length D < 2 ^ 63"
proof -
  assume "committed sb t D" "length t < 2 ^ 61"
  moreover from this have "CalcPhysical (nsec t * SectorSize) + 2 * SectorSize < 2 ^ 63"
    using nsec_le [of t] by (intro CalcPhysical_bound) simp
  ultimately show ?thesis using committed_length [of sb t D] by simp
qed

lemma crash_closed:
  assumes "safe S g" "\<forall>D \<in> S. \<exists>t \<in> K. unambiguous t \<and> length t < 2 ^ 61 \<and> committed sb t D"
    and "\<forall>i. \<not> unreadable g i" "entry g" "entry_dur g" "crash g f" "unreadable f = unreadable g"
  shows "closed_ok sb K f"
proof -
  from safe_crash [OF assms(1,6)] obtain D where "D \<in> S" "baseline D f" by blast
  with assms crash_whole [OF assms(6)] show ?thesis unfolding closed_ok_def crash_def by (metis insert_absorb insert_iff singleton_iff)
qed

lemma contents_rinv:
  assumes "rinv sb K p s" "length s < 2 ^ 63"
  shows "0 \<le> off \<Longrightarrow> 0 \<le> n \<Longrightarrow> off + n \<le> int (length s) \<Longrightarrow> Plog_Read p off n = Inr (bslice (nat off) (nat (off + n)) s)"
    "LogicalLength p = length s" "contents p = Inr s"
proof -
  from assms obtain S C where p: "pinv sb S C p s" "medium_ok p" by (auto simp: rinv_def)
  then have m: "mem_ok p s" "disk_ok (content (datafile p)) s" by (simp_all add: pinv_def)
  show rd: "0 \<le> off \<Longrightarrow> 0 \<le> n \<Longrightarrow> off + n \<le> int (length s) \<Longrightarrow> Plog_Read p off n = Inr (bslice (nat off) (nat (off + n)) s)" for off n
    unfolding Plog_Read_def by (rule readLocked_ok [OF m medium_ok_readable [OF p(2)] _ _ _ assms(2)])
  show l: "LogicalLength p = length s" using m by (simp add: LogicalLength_def mem_ok_def)
  show "contents p = Inr s" using rd [of 0 "int (length s)"] by (simp add: contents_def l bslice_def)
qed

lemma datafile_recoverFromTrailer: "recoverFromTrailer sz p = (q, b) \<Longrightarrow> datafile q = datafile p"
  by (auto simp: recoverFromTrailer_def Let_def split: if_splits sum.splits)

lemma datafile_rebuildOpenBlock: "rebuildOpenBlock p = (q, r) \<Longrightarrow> datafile q = datafile p"
  by (auto simp: rebuildOpenBlock_def Let_def split: if_splits sum.splits)

lemma datafile_reload: "reload p = (q, r) \<Longrightarrow> datafile q = datafile p"
  by (auto simp: reload_def split: prod.splits bool.splits dest!: datafile_recoverFromTrailer datafile_rebuildOpenBlock)

lemma steady_prepare_existing: "steady (prepare_file Marshal Unmarshal O_RDWR None)"
proof -
  have "steady (openFile O_RDWR)" by (simp add: steady_def openFile_def)
  then show ?thesis
    unfolding prepare_file_def
    by (auto intro!: io_rules steady_restoreUndo steady_discardUndoTemp)
qed

lemma sees_OpenExisting:
  assumes "OpenExistingPlog Marshal Unmarshal i f = (f', r)"
  shows "sees f f'"
proof -
  obtain g x where g: "prepare_file Marshal Unmarshal O_RDWR None f = (g, x)" by force
  have "f' = g"
    using assms g by (auto simp: OpenExistingPlog_def openPlogFile_def new_Plog_def split: sum.splits prod.splits dest!: datafile_reload)
  with steadyD [OF steady_prepare_existing g] show ?thesis by simp
qed

lemma reopen_closed:
  assumes cl: "closed_ok (superblock payload) K f"
    and pl: "length payload \<le> plogHeaderMaxPayload" "Unmarshal payload = Inr h"
    and run: "OpenExistingPlog Marshal Unmarshal i f = (f', r)"
  shows "(case r of
      Inr q \<Rightarrow> header q = h \<and> pid q = i \<and> (\<exists>t \<in> K. rinv (superblock payload) {t} q t \<and> length t < 2 ^ 61)
    | Inl e \<Rightarrow> \<forall>f''. crash f' f'' \<and> unreadable f'' = unreadable f' \<longrightarrow> closed_ok (superblock payload) K f'')
    \<and> (faults f = [] \<longrightarrow> (\<exists>q. r = Inr q))"
proof -
  from cl obtain D t where f: "\<forall>i. \<not> unreadable f i" "entry f" "entry_dur f" "journal_maybe f = [] \<and> whole f"
    and t: "t \<in> K" "unambiguous t" "length t < 2 ^ 61" "committed (superblock payload) t D" "baseline D f"
    by (auto simp: closed_ok_def)
  note o = openPlogFile_existing [OF t(5) f(4,2) committed_small [OF t(4,3)] f(1) t(4) pl t(2) _ run [unfolded OpenExistingPlog_def]]
  show ?thesis
  proof (cases r)
    case (Inl e)
    have "sees f f'" by (rule sees_OpenExisting [OF run])
    then have "\<forall>i. \<not> unreadable f' i" "entry f'" "entry_dur f'" using f by (auto simp: sees_def)
    moreover have "safe {D} f'" using o Inl by simp
    ultimately show ?thesis using o Inl t by (auto intro!: crash_closed [of "{D}" f'])
  next
    case (Inr q)
    with o have "pinv (superblock payload) {D} D q t" "medium_ok q" "header q = h" "pid q = i" by auto
    with Inr t show ?thesis by (auto intro!: bexI [of _ t] rinvI)
  qed
qed

lemma spec_step_length: "spec_step (Live s K) (Applied op ok) = Some (Live s' K') \<Longrightarrow> length s' \<le> length s + op_bytes op"
  by (cases op) (auto split: if_splits)

lemma plog_step_simulates:
  assumes pl: "length payload \<le> plogHeaderMaxPayload" "Unmarshal payload = Inr h"
    and step: "plog_step Marshal Unmarshal st ev st'" and sim: "simulates (superblock payload) a st"
    and tm: "tame a (ev # evs)"
  shows "\<exists>a'. spec_step a ev = Some a' \<and> simulates (superblock payload) a' st' \<and> tame a' evs"
  using step sim tm
proof cases
  case (Apply op p q r)
  with sim obtain s K where a: "a = Live s K" "rinv (superblock payload) K p s" by (cases a) auto
  with tm Apply have b: "length s + op_bytes op < 2 ^ 61" "op = CommitOp \<longrightarrow> unambiguous s" by auto
  from apply_op_rinv [OF a(2) Apply(4) b] obtain s' K' where
    s': "spec_step a ev = Some (Live s' K')" "rinv (superblock payload) K' q s'" using a Apply by auto
  then have "length s' < 2 ^ 61" using spec_step_length [of s K op "r = Inr ()" s' K'] b(1) a Apply by auto
  with s' a Apply tm show ?thesis by auto
next
  case (Power p f)
  with sim obtain s K where a: "a = Live s K" "rinv (superblock payload) K p s" by (cases a) auto
  then obtain S C where p: "pinv (superblock payload) S C p s" "\<forall>D \<in> S. \<exists>t \<in> K. committed (superblock payload) t D"
    and m: "medium_ok p" and K: "\<forall>t \<in> K. unambiguous t \<and> length t < 2 ^ 61" by (auto simp: rinv_def)
  have "safe S (datafile p)" using p(1) by (simp add: pinv_def jinv_def)
  moreover have "\<forall>D \<in> S. \<exists>t \<in> K. unambiguous t \<and> length t < 2 ^ 61 \<and> committed (superblock payload) t D"
    using p(2) K by blast
  ultimately have "closed_ok (superblock payload) K f" using m Power by (intro crash_closed) (auto simp: medium_ok_def)
  then show ?thesis using a Power tm by simp
next
  case (Reopen i f f' q)
  with sim obtain K where a: "a = Down K" "closed_ok (superblock payload) K f" by (cases a) auto
  from reopen_closed [OF a(2) pl Reopen(4)] obtain t where t: "t \<in> K" "rinv (superblock payload) {t} q t" "length t < 2 ^ 61"
    by auto
  then have "contents q = Inr t" by (intro contents_rinv) auto
  then show ?thesis using a Reopen tm t by auto
next
  case (Fail i f f' e f'')
  with sim obtain K where a: "a = Down K" "closed_ok (superblock payload) K f" by (cases a) auto
  from reopen_closed [OF a(2) pl Fail(4)] Fail(5,6) have "closed_ok (superblock payload) K f''" by auto
  then show ?thesis using a Fail tm by simp
qed

lemma plog_run_simulates:
  assumes pl: "length payload \<le> plogHeaderMaxPayload" "Unmarshal payload = Inr h"
    and "plog_run Marshal Unmarshal st evs st'"
  shows "simulates (superblock payload) a st \<Longrightarrow> tame a evs \<Longrightarrow>
     \<exists>a'. spec_run a evs = Some a' \<and> simulates (superblock payload) a' st'"
  using assms(3)
proof (induction arbitrary: a rule: plog_run.induct)
  case (Cons st ev st' evs st'')
  from plog_step_simulates [OF pl Cons.hyps(1) Cons.prems] obtain a' where
    "spec_step a ev = Some a'" "simulates (superblock payload) a' st'" "tame a' evs" by blast
  with Cons.IH show ?case by auto
qed auto

lemma plog_run_append:
  "plog_run Marshal Unmarshal st evs st' \<Longrightarrow> plog_run Marshal Unmarshal st' evs' st'' \<Longrightarrow> plog_run Marshal Unmarshal st (evs @ evs') st''"
  by (induction rule: plog_run.induct) (auto intro: plog_run.intros)

section \<open>Properties\<close>

text \<open>
  C1. Take a plog created by \<^verbatim>\<open>OpenPlog\<close> on a medium every byte of which is readable, so that no read
  fails. Whatever a process then does with it -- appends, idempotent appends, commits and truncations, in
  which any mutating system call (write, truncate, sync, rename, remove, directory sync) may fail, power
  failures between them, failed and successful reopenings -- the history is one the specification allows:
  an open plog reads as the stream its successful operations built, and a reopened one holds the stream of
  the last commit that succeeded or of one that was attempted after it, never anything else. A power
  failure inside an operation is the failure of all its remaining calls followed by a power failure.
  The history stays within \<open>tame\<close>: streams below \<open>2 ^ 61\<close> bytes, and no commit of a stream of whole blocks
  whose last hash sector happens to begin with the trailer's eight magic bytes.
\<close>

theorem plog_history_refines:
  assumes "fresh_file f" "\<forall>i. \<not> unreadable f i"
    and "Marshal h = Inr payload" "length payload \<le> plogHeaderMaxPayload" "Unmarshal payload = Inr h"
    and "OpenPlog Marshal Unmarshal i (Some h) f = (f', Inr p)"
    and "plog_run Marshal Unmarshal (Opened p) evs st" "tame (Live [] {[]}) evs"
  shows "case st of
      Opened q \<Rightarrow> \<exists>s K. spec_run (Live [] {[]}) evs = Some (Live s K) \<and> contents q = Inr s \<and> LogicalLength q = length s
        \<and> (\<forall>off n. 0 \<le> off \<and> 0 \<le> n \<and> off + n \<le> int (length s) \<longrightarrow> Plog_Read q off n = Inr (bslice (nat off) (nat (off + n)) s))
    | Closed g \<Rightarrow> \<exists>K. spec_run (Live [] {[]}) evs = Some (Down K)"
proof -
  note o = OpenPlog_fresh [OF assms(1-4,6)]
  have "rinv (superblock payload) {[]} p []"
    using o committed_fresh [OF assms(4)] by (intro rinvI) (auto simp: unambiguous_def nsec_def)
  then obtain a where a: "spec_run (Live [] {[]}) evs = Some a" "simulates (superblock payload) a st"
    using plog_run_simulates [of payload Unmarshal h Marshal "Opened p" evs st "Live [] {[]}"] assms by auto
  show ?thesis
  proof (cases st)
    case (Opened q)
    with a(2) obtain s K where s: "a = Live s K" "rinv (superblock payload) K q s" "length s < 2 ^ 61" by (cases a) auto
    then have "length s < 2 ^ 63" by simp
    from contents_rinv [OF s(2) this] a s Opened show ?thesis by auto
  next
    case (Closed g)
    with a show ?thesis by (cases a) auto
  qed
qed

text \<open>
  C2. Recovery makes progress: after any such history on a readable medium (mutating calls failing
  anywhere, power lost at any point, unsynced data and unsynced journals scrambled), once the machine is
  down and the mutating calls work again, \<^verbatim>\<open>OpenExistingPlog\<close> succeeds, with the identity the plog was created with.
\<close>

theorem plog_reopen_succeeds:
  assumes "fresh_file f" "\<forall>i. \<not> unreadable f i"
    and "Marshal h = Inr payload" "length payload \<le> plogHeaderMaxPayload" "Unmarshal payload = Inr h"
    and "OpenPlog Marshal Unmarshal i (Some h) f = (f', Inr p)"
    and "plog_run Marshal Unmarshal (Opened p) evs (Closed g)" "tame (Live [] {[]}) evs" "faults g = []"
  shows "\<exists>g' q. OpenExistingPlog Marshal Unmarshal j g = (g', Inr q) \<and> header q = h \<and> pid q = j"
proof -
  note o = OpenPlog_fresh [OF assms(1-4,6)]
  have "rinv (superblock payload) {[]} p []"
    using o committed_fresh [OF assms(4)] by (intro rinvI) (auto simp: unambiguous_def nsec_def)
  then obtain a where "simulates (superblock payload) a (Closed g)"
    using plog_run_simulates [of payload Unmarshal h Marshal "Opened p" evs "Closed g" "Live [] {[]}"] assms by auto
  then obtain K where K: "closed_ok (superblock payload) K g" by (cases a) auto
  obtain g' r where r: "OpenExistingPlog Marshal Unmarshal j g = (g', r)" by force
  from reopen_closed [OF K assms(4,5) r] assms(9) r show ?thesis by (cases r) auto
qed

section \<open>A history\<close>

lemma restoreUndo_idle: "journal f = None \<Longrightarrow> restoreUndo f = syncParent f"
  by (simp add: restoreUndo_def gets_def bind_def openUndo_def)

lemma OpenPlog_fresh_live:
  assumes f: "fresh_file f" "faults f = []" "\<forall>i. \<not> unreadable f i"
    and m: "Marshal h = Inr payload" "length payload \<le> plogHeaderMaxPayload"
  shows "\<exists>f' p. OpenPlog Marshal Unmarshal i (Some h) f = (f', Inr p) \<and> faults f' = []"
proof -
  have o: "\<exists>f1. openFile O_RDWR_CREATE f = (f1, Inr ()) \<and> fresh_file f1 \<and> faults f1 = []"
    using f by (auto simp: openFile_def sys_op_no_faults fresh_file_def whole_def)
  then obtain f1 where f1: "openFile O_RDWR_CREATE f = (f1, Inr ())" "fresh_file f1" "faults f1 = []" by blast
  then have f2: "restoreUndo f1 = (f1\<lparr>journal_maybe := [], maybe_dirty := False, entry_dur := entry f1\<rparr>, Inr ())" (is "_ = (?f2, _)")
    by (simp add: restoreUndo_idle fresh_file_def syncParent_no_faults)
  obtain f3 where f3: "discardUndoTemp ?f2 = (f3, Inr ())" using discardUndoTemp_no_faults [of ?f2] f1(3) by auto
  have n3: "faults f3 = []"
    using f3 f1(3) by (cases "journal_tmp ?f2")
      (auto simp: discardUndoTemp_def remove_tmp_def sys_op_no_faults syncParent_no_faults split: if_splits)
  have c3: "content f3 = []" "unreadable f3 = unreadable f1"
    using f3 f1(2,3) by (cases "journal_tmp ?f2";
      auto simp: discardUndoTemp_def remove_tmp_def sys_op_no_faults syncParent_no_faults fresh_file_def)+
  define f4 where "f4 = (put_bytes (superblock payload) 0 f3)\<lparr>dirty_from := None, journal_maybe := [], maybe_dirty := False, entry_dur := entry f3\<rparr>"
  have n4: "faults (put_bytes (superblock payload) 0 f3) = []" "entry (put_bytes (superblock payload) 0 f3) = entry f3"
    using n3 by (simp_all add: put_bytes_def touch_def Let_def)
  have "writeSuperblock Marshal h f3 = (put_bytes (superblock payload) 0 f3, Inr ())"
    using m n3 by (simp add: writeSuperblock_def file_WriteAt_def next_io_def)
  then have st: "seq (writeSuperblock Marshal h) (seq file_Sync (seq syncParent (seq (sys_op id) (ret (h, 0::nat))))) f3 = (f4, Inr (h, 0))"
    using n4 by (simp add: f4_def file_Sync_def sys_op_no_faults syncParent_no_faults seq_def bind_def ret_def)
  have p: "prepare_file Marshal Unmarshal O_RDWR_CREATE (Some h) f = (f4, Inr (h, 0))"
    using f1(1) f2 f3 c3 st
    by (simp add: prepare_file_def seq_ok [of "openFile O_RDWR_CREATE" _ f1] seq_ok [of restoreUndo _ ?f2] seq_ok [of _ f1 f3]
        when_io_def bind_ok [of _ f3 f3 0] gets_def)
  have c4: "content f4 = superblock payload" "unreadable f4 = unreadable f" "faults f4 = []"
    using c3 n4 openFile_fresh [OF f(1) f1(1)] by (simp_all add: f4_def put_bytes_def touch_def Let_def write_bytes_def)
  note c = committed_fresh [OF m(2)]
  have "has_trailer [] = False" by (simp add: has_trailer_iff nsec_def tail_of_def)
  with c have "length (superblock payload) = CalcPhysical 0" by (simp add: committed_def Let_def nsec_def)
  then have "(0::nat) = CalcLogical (length (content f4))" using c4(1) by (simp add: CalcLogical_CalcPhysical_inv)
  from reload_committed [OF _ _ _ this, of "superblock payload" "[]" i h] c c4 f(3)
  obtain q where "reload (new_Plog i h 0 f4) = (q, Inr ())" "datafile q = f4"
    by (auto simp: unambiguous_def nsec_def)
  with p c4 show ?thesis
    using f(2) by (auto simp: OpenPlog_def openPlogFile_def mkdirAll_def seq_ok [OF sys_op_no_faults])
qed

definition sample_disk :: pfile where
  "sample_disk = \<lparr>entry = False, entry_dur = False, content = [], unreadable = (\<lambda>_. False), dirty_from = None,
     journal = None, journal_maybe = [], journal_tmp = None, tmp_dirty = False, journal_dirty = False, maybe_dirty = False, faults = []\<rparr>"

abbreviation sample_events :: "plog_event list" where
  "sample_events \<equiv> [Applied (AppendOp [1, 2, 3]) True, Applied CommitOp True, PowerLoss]"

lemma crash_settled: "settled d f \<Longrightarrow> crash f f"
  by (simp add: crash_def crash_content_def settled_def whole_def)

lemma sample_history:
  fixes Marshal Unmarshal
  assumes "Marshal = (\<lambda>_. Inr [])" "Unmarshal = (\<lambda>_. Inr (empty_header 7))"
  shows "\<exists>f' p g q g'. OpenPlog Marshal Unmarshal 7 (Some (empty_header 7)) sample_disk = (f', Inr p)
     \<and> plog_run Marshal Unmarshal (Opened p) sample_events (Closed g) \<and> faults g = []
     \<and> OpenExistingPlog Marshal Unmarshal 7 g = (g', Inr q) \<and> contents q = Inr [1, 2, 3]"
proof -
  let ?h = "empty_header 7" and ?sb = "superblock []"
  have fr: "fresh_file sample_disk" "faults sample_disk = []" "\<forall>i. \<not> unreadable sample_disk i"
    by (simp_all add: sample_disk_def fresh_file_def whole_def)
  have pl: "length [] \<le> plogHeaderMaxPayload" "Marshal ?h = Inr []" "Unmarshal [] = Inr ?h" using assms by simp_all
  obtain f' p where p: "OpenPlog Marshal Unmarshal 7 (Some ?h) sample_disk = (f', Inr p)" "faults f' = []"
    using OpenPlog_fresh_live [where Marshal = Marshal and h = ?h and payload = "[]" and i = 7, OF fr pl(2,1)] by blast
  note o = OpenPlog_fresh [where Marshal = Marshal and h = ?h and payload = "[]", OF fr(1,3) pl(2,1) p(1)]
  define q1 where "q1 = p\<lparr>buf := [1, 2, 3], logicalLength := 3\<rparr>"
  have w: "writeLocked [1, 2, 3] p = (q1, Inr 0)"
    using o by (simp add: writeLocked_def pinv_def mem_ok_def q1_def tail_of_def SectorSize_def)
  from writeLocked_pinv [OF conjunct1 [OF o] w] have i1: "pinv ?sb {?sb} ?sb q1 [1, 2, 3]" by simp
  have n3: "nsec [1, 2, 3] = 0" by (simp add: nsec_def SectorSize_def)
  have lsb: "CalcPhysical 0 \<le> length ?sb"
    using o length_image [of "[]"] by (auto simp: pinv_def disk_ok_def settled_def nsec_def)
  have "ready (CalcPhysical (nsec [1, 2, 3] * SectorSize div DataPerBlock * DataPerBlock)) q1"
    using o p(2) lsb n3 by (auto simp: ready_def q1_def settled_def medium_ok_readable)
  then obtain q2 where c: "Plog_Commit q1 = (q2, Inr ())" "faults (datafile q2) = []"
    using Commit_live [OF i1] o p(2) by (auto simp: q1_def)
  have "CalcPhysical (nsec [1, 2, 3] * SectorSize) + 2 * SectorSize < 2 ^ 63" by (rule CalcPhysical_bound) (simp add: n3)
  from tripleD_ok [OF Commit_pinv [OF i1 this] refl c(1)] obtain d where
    d: "committed ?sb [1, 2, 3] d" "settled d (datafile q2)" "pinv ?sb {d} d q2 [1, 2, 3]" by (auto simp: commit_done_def)
  have m2: "medium_ok q2" using o by (intro medium_ok_Commit [OF c(1)]) (auto simp: q1_def medium_ok_def)
  have un: "unambiguous [1, 2, 3]" by (simp add: unambiguous_def n3)
  have "closed_ok ?sb {[1, 2, 3]} (datafile q2)"
    using m2 d un settled_safe [OF d(2)] by (auto simp: closed_ok_def medium_ok_def settled_def)
  note ro = reopen_closed [where Unmarshal = Unmarshal and h = ?h, OF this pl(1,3)]
  obtain g' r where r: "OpenExistingPlog Marshal Unmarshal 7 (datafile q2) = (g', r)" by force
  from ro [OF r] c(2) obtain q where q: "r = Inr q" "rinv ?sb {[1, 2, 3]} q [1, 2, 3]" by (cases r) auto
  have "contents q = Inr [1, 2, 3]" using contents_rinv(3) [OF q(2)] by simp
  moreover have "plog_run Marshal Unmarshal (Opened p) sample_events (Closed (datafile q2))"
  proof -
    have "plog_step Marshal Unmarshal (Opened p) (Applied (AppendOp [1, 2, 3]) True) (Opened q1)"
      using plog_step.Apply [of "AppendOp [1, 2, 3]" p q1 "Inr ()"] w by (simp add: unit_result_def Plog_Write_def)
    moreover have "plog_step Marshal Unmarshal (Opened q1) (Applied CommitOp True) (Opened q2)"
      using plog_step.Apply [of CommitOp q1 q2 "Inr ()"] c by simp
    moreover have "plog_step Marshal Unmarshal (Opened q2) PowerLoss (Closed (datafile q2))"
      by (rule plog_step.Power [OF crash_settled [OF d(2)] refl])
    ultimately show ?thesis by (meson plog_run.intros)
  qed
  ultimately show ?thesis using p(1) c(2) r q(1) by blast
qed

lemma sample_tame: "tame (Live [] {[]}) sample_events" "tame (Live [] {[]}) (sample_events @ [Reopened (Inr [1, 2, 3])])"
  by (simp_all add: unambiguous_def nsec_def SectorSize_def)

theorem plog_history_refines_witness:
  "\<exists>f' p st. OpenPlog (\<lambda>_. Inr []) (\<lambda>_. Inr (empty_header 7)) 7 (Some (empty_header 7)) sample_disk = (f', Inr p)
     \<and> plog_run (\<lambda>_. Inr []) (\<lambda>_. Inr (empty_header 7)) (Opened p) (sample_events @ [Reopened (Inr [1, 2, 3])]) st
     \<and> (\<exists>q. st = Opened q \<and> contents q = Inr [1, 2, 3])"
proof -
  let ?M = "\<lambda>_::PlogHeader. Inr [] :: bytes result" let ?U = "\<lambda>_::bytes. Inr (empty_header 7) :: PlogHeader result"
  obtain f' p g q g' where h: "OpenPlog ?M ?U 7 (Some (empty_header 7)) sample_disk = (f', Inr p)"
    "plog_run ?M ?U (Opened p) sample_events (Closed g)" "OpenExistingPlog ?M ?U 7 g = (g', Inr q)" "contents q = Inr [1, 2, 3]"
    using sample_history [of ?M ?U] by blast
  have run: "plog_run ?M ?U (Opened p) (sample_events @ [Reopened (Inr [1, 2, 3])]) (Opened q)"
    using plog_run_append [OF h(2) plog_run.Cons [OF plog_step.Reopen [OF h(3)] plog_run.Nil]] by (simp only: h(4))
  have fr: "fresh_file sample_disk" "\<forall>i. \<not> unreadable sample_disk i" by (simp_all add: sample_disk_def fresh_file_def whole_def)
  have len: "length ([] :: bytes) \<le> plogHeaderMaxPayload" by simp
  from plog_history_refines [where payload = "[]", OF fr refl len refl h(1) run sample_tame(2)]
  obtain s K where "spec_run (Live [] {[]}) (sample_events @ [Reopened (Inr [1, 2, 3])]) = Some (Live s K)" "contents q = Inr s"
    unfolding plog_state.case by blast
  then have "contents q = Inr [1, 2, 3]" by simp
  with h(1) run show ?thesis by blast
qed

theorem plog_reopen_succeeds_witness:
  "\<exists>f' p g g' q. OpenPlog (\<lambda>_. Inr []) (\<lambda>_. Inr (empty_header 7)) 7 (Some (empty_header 7)) sample_disk = (f', Inr p)
     \<and> plog_run (\<lambda>_. Inr []) (\<lambda>_. Inr (empty_header 7)) (Opened p) sample_events (Closed g)
     \<and> OpenExistingPlog (\<lambda>_. Inr []) (\<lambda>_. Inr (empty_header 7)) 9 g = (g', Inr q) \<and> header q = empty_header 7 \<and> pid q = 9"
proof -
  let ?M = "\<lambda>_::PlogHeader. Inr [] :: bytes result" let ?U = "\<lambda>_::bytes. Inr (empty_header 7) :: PlogHeader result"
  obtain f' p g where h: "OpenPlog ?M ?U 7 (Some (empty_header 7)) sample_disk = (f', Inr p)"
    "plog_run ?M ?U (Opened p) sample_events (Closed g)" "faults g = []"
    using sample_history [of ?M ?U] by blast
  have "fresh_file sample_disk" "\<forall>i. \<not> unreadable sample_disk i" by (simp_all add: sample_disk_def fresh_file_def whole_def)
  from plog_reopen_succeeds [where payload = "[]" and j = 9, OF this _ _ _ h(1,2) sample_tame(1) h(3)] h(1,2)
  show ?thesis by simp blast
qed

end
