(* ===== verification/Rose_Vlog.thy ===== *)
theory Rose_Vlog
  imports Rose_Plog_Run
begin

text \<open>
  Virtual logs (\<^verbatim>\<open>storage/vlog.go\<close>, \<^verbatim>\<open>storage/verify.go\<close>): a logical stream mirrored on, or erasure-coded
  over, several plogs, each reached through a client of \<^verbatim>\<open>server/server.go\<close>.

  The goroutines of a fan-out touch one client each, so the only thing their interleaving decides is
  the order in which results arrive and whether an operation that is cancelled because the outcome is
  already decided still takes effect: the \<^emph>\<open>schedule\<close> of a fan-out lists both. The Reed-Solomon encoder
  is a third-party package: a record of functions, whose documented laws are hypotheses.
\<close>

section \<open>Clients\<close>

datatype PlogClient = localPlogClient Plog | offlinePlogClient uint32

definition offline_err :: err where
  "offline_err = Err ''plog is offline (disk unreachable)''"

definition on_plog :: "(Plog, 'a) io \<Rightarrow> (PlogClient, 'a) io" where
  "on_plog m c =
     (case c of
        localPlogClient p \<Rightarrow> (case m p of (p, r) \<Rightarrow> (localPlogClient p, r))
      | offlinePlogClient i \<Rightarrow> (c, Inl offline_err))"

definition client_Write :: "bytes \<Rightarrow> (PlogClient, nat) io" where
  "client_Write d = on_plog (Plog_Write d)"

definition client_Read :: "PlogClient \<Rightarrow> int \<Rightarrow> int \<Rightarrow> bytes result" where
  "client_Read c off n =
     (case c of localPlogClient p \<Rightarrow> Plog_Read p off n | offlinePlogClient i \<Rightarrow> Inl offline_err)"

definition client_EnsureAppend :: "int \<Rightarrow> bytes \<Rightarrow> (PlogClient, unit) io" where
  "client_EnsureAppend off d = on_plog (EnsureAppend off d)"

definition client_Commit :: "(PlogClient, unit) io" where
  "client_Commit = on_plog Plog_Commit"

text \<open>Only local clients scrub and truncate: the type assertions on an offline one fail.\<close>

definition scrubbable :: "PlogClient \<Rightarrow> Plog option" where
  "scrubbable c = (case c of localPlogClient p \<Rightarrow> Some p | offlinePlogClient i \<Rightarrow> None)"

definition truncatable :: "PlogClient \<Rightarrow> bool" where
  "truncatable c = (case c of localPlogClient p \<Rightarrow> True | offlinePlogClient i \<Rightarrow> False)"

definition client_TruncateTo :: "int \<Rightarrow> (PlogClient, unit) io" where
  "client_TruncateTo n = on_plog (TruncateTo n)"

section \<open>State\<close>

record encoder =
  Encode_shards :: "bytes list \<Rightarrow> bytes list result"
  Reconstruct :: "bytes option list \<Rightarrow> bytes list result"
  Verify_shards :: "bytes list \<Rightarrow> bool result"

record Vlog =
  vid :: uint32
  vlength :: nat
  scheme :: string
  dataShards :: nat
  parityShards :: nat
  clients :: "PlogClient list"
  writeQuorum :: nat
  completeReplicas :: "bool list option"
  rs_encoder :: "encoder option"

definition mirrored :: "Vlog \<Rightarrow> bool" where
  "mirrored v \<longleftrightarrow> scheme v = ''NONE'' \<or> scheme v = ''DUPLICATE''"

definition Vlog_Length :: "Vlog \<Rightarrow> nat" where
  "Vlog_Length v = vlength v"

text \<open>The column width is a package variable that tests override, hence an argument of what uses it.\<close>

definition ECStripeWidth :: "nat \<Rightarrow> nat \<Rightarrow> nat" where
  "ECStripeWidth ecColumnBytes shards = ecColumnBytes * shards"

definition stripeWidth :: "nat \<Rightarrow> Vlog \<Rightarrow> nat" where
  "stripeWidth ecColumnBytes v = ecColumnBytes * dataShards v"

definition NewVlog ::
  "(nat \<Rightarrow> nat \<Rightarrow> encoder result) \<Rightarrow> uint32 \<Rightarrow> string \<Rightarrow> nat \<Rightarrow> nat \<Rightarrow> PlogClient list \<Rightarrow> nat \<Rightarrow> Vlog result" where
  "NewVlog reedsolomon_New i sch data parity cs initialLength =
     (if sch \<notin> {''NONE'', ''DUPLICATE'', ''EC''} then Inl (Err ''unsupported protection scheme'')
      else if (sch = ''NONE'' \<or> sch = ''DUPLICATE'') \<and> cs = [] then Inl (Err ''vlog requires at least one client'')
      else
        let v = \<lparr>vid = i, vlength = initialLength, scheme = sch, dataShards = data, parityShards = parity,
                 clients = cs, writeQuorum = length cs, completeReplicas = None, rs_encoder = None\<rparr>
        in if sch = ''EC''
           then if length cs \<noteq> data + parity then Inl (Err ''EC vlog requires data + parity clients'')
                else (case reedsolomon_New data parity of
                        Inl e \<Rightarrow> Inl e
                      | Inr enc \<Rightarrow> Inr (v\<lparr>rs_encoder := Some enc\<rparr>))
           else Inr v)"

definition SetWriteQuorum :: "int \<Rightarrow> (Vlog, unit) io" where
  "SetWriteQuorum quorum v =
     (if quorum \<le> 0 \<or> int (length (clients v)) < quorum then (v, Inl (Err ''invalid write quorum''))
      else (v\<lparr>writeQuorum := nat quorum\<rparr>, Inr ()))"

section \<open>Fan-out\<close>

type_synonym sched = "(nat \<times> bool) list"

definition run_op :: "(nat \<Rightarrow> ('c, unit) io) \<Rightarrow> nat \<Rightarrow> 'c list \<Rightarrow> 'c list \<times> unit result" where
  "run_op op i cs = (case op i (cs ! i) of (c, r) \<Rightarrow> (cs[i := c], r))"

text \<open>The operations still running when the outcome is decided.\<close>

definition run_late :: "(nat \<Rightarrow> ('c, unit) io) \<Rightarrow> sched \<Rightarrow> 'c list \<Rightarrow> 'c list" where
  "run_late op = fold (\<lambda>(i, late) cs. if late then fst (run_op op i cs) else cs)"

fun collect ::
  "(nat \<Rightarrow> ('c, unit) io) \<Rightarrow> nat \<Rightarrow> nat \<Rightarrow> sched \<Rightarrow> bool list \<Rightarrow> nat \<Rightarrow> nat \<Rightarrow> err option \<Rightarrow> 'c list
     \<Rightarrow> 'c list \<times> bool list result" where
  "collect op cands quorum [] successful succeeded failed firstErr cs = (cs, Inl (Err ''write quorum not met''))"
| "collect op cands quorum ((i, late) # rest) successful succeeded failed firstErr cs =
     (case run_op op i cs of
        (cs, Inl e) \<Rightarrow>
          let firstErr = (case firstErr of None \<Rightarrow> e | Some e' \<Rightarrow> e')
          in if cands - quorum < failed + 1 then (run_late op rest cs, Inl firstErr)
             else collect op cands quorum rest successful succeeded (failed + 1) (Some firstErr) cs
      | (cs, Inr _) \<Rightarrow>
          let successful = successful[i := True]
          in if quorum \<le> succeeded + 1 then (run_late op rest cs, Inr successful)
             else collect op cands quorum rest successful (succeeded + 1) failed firstErr cs)"

definition eligible_at :: "bool list option \<Rightarrow> nat \<Rightarrow> bool" where
  "eligible_at eligible i = (case eligible of None \<Rightarrow> True | Some e \<Rightarrow> e ! i)"

definition candidates :: "bool list option \<Rightarrow> 'c list \<Rightarrow> nat list" where
  "candidates eligible cs = filter (eligible_at eligible) [0..<length cs]"

definition fanoutQuorumEligible ::
  "sched \<Rightarrow> nat \<Rightarrow> bool list option \<Rightarrow> (nat \<Rightarrow> ('c, unit) io) \<Rightarrow> ('c list, bool list) io" where
  "fanoutQuorumEligible sc quorum eligible op cs =
     (let cands = length (candidates eligible cs)
      in if cands < quorum then (cs, Inl (Err ''not enough eligible replicas''))
         else collect op cands quorum sc (replicate (length cs) False) 0 0 None cs)"

definition fanoutQuorum :: "sched \<Rightarrow> nat \<Rightarrow> (nat \<Rightarrow> ('c, unit) io) \<Rightarrow> ('c list, unit) io" where
  "fanoutQuorum sc quorum op = bind (fanoutQuorumEligible sc quorum None op) (\<lambda>_. ret ())"

definition fanout :: "sched \<Rightarrow> (nat \<Rightarrow> ('c, unit) io) \<Rightarrow> ('c list, unit) io" where
  "fanout sc op cs = fanoutQuorum sc (length cs) op cs"

definition on_clients :: "(PlogClient list, 'a) io \<Rightarrow> (Vlog, 'a) io" where
  "on_clients = focus clients (\<lambda>cs v. v\<lparr>clients := cs\<rparr>)"

definition completeReplicaSnapshot :: "Vlog \<Rightarrow> bool list option" where
  "completeReplicaSnapshot v = completeReplicas v"

definition writeMirrors :: "sched \<Rightarrow> (nat \<Rightarrow> (PlogClient, unit) io) \<Rightarrow> (Vlog, unit) io" where
  "writeMirrors sc op v =
     bind (on_clients (fanoutQuorumEligible sc (writeQuorum v) (completeReplicaSnapshot v) op)) (\<lambda>successful.
       modify (\<lambda>v. v\<lparr>completeReplicas := Some successful\<rparr>)) v"

section \<open>Writing\<close>

definition encoder_Encode :: "Vlog \<Rightarrow> bytes list \<Rightarrow> bytes list result" where
  "encoder_Encode v shards =
     (case rs_encoder v of None \<Rightarrow> Inl (Err ''panic: nil encoder'') | Some enc \<Rightarrow> Encode_shards enc shards)"

definition encodeRow :: "nat \<Rightarrow> Vlog \<Rightarrow> bytes \<Rightarrow> bytes list result" where
  "encodeRow ecColumnBytes v rowData =
     (let shards = map (\<lambda>j. bslice (j * ecColumnBytes) ((j + 1) * ecColumnBytes) rowData) [0..<dataShards v]
                   @ replicate (parityShards v) (replicate ecColumnBytes 0)
      in encoder_Encode v shards)"

text \<open>
  Both client types implement \<^verbatim>\<open>EnsureAppend\<close>, so every client is positioned and the fallback to
  \<^verbatim>\<open>Write\<close> is never taken.
\<close>

definition mirror_op :: "nat \<Rightarrow> bytes \<Rightarrow> nat \<Rightarrow> (PlogClient, unit) io" where
  "mirror_op offset payload i = client_EnsureAppend (int offset) payload"

definition shard_op :: "nat \<Rightarrow> bytes list \<Rightarrow> nat \<Rightarrow> (PlogClient, unit) io" where
  "shard_op plogOffset shards i = client_EnsureAppend (int plogOffset) (shards ! i)"

text \<open>One stripe row of an erasure-coded write at the logical offset \<open>off\<close>.\<close>

definition write_row :: "nat \<Rightarrow> sched \<Rightarrow> nat \<Rightarrow> bytes \<Rightarrow> (Vlog, unit) io" where
  "write_row ecColumnBytes sc off row v =
     (case encodeRow ecColumnBytes v row of
        Inl e \<Rightarrow> (v, Inl e)
      | Inr shards \<Rightarrow>
          on_clients (fanout sc (shard_op (off div stripeWidth ecColumnBytes v * ecColumnBytes) shards)) v)"

function write_rows :: "nat \<Rightarrow> (nat \<Rightarrow> sched) \<Rightarrow> nat \<Rightarrow> bytes \<Rightarrow> (Vlog, unit) io" where
  "write_rows ecColumnBytes sc off d v =
     (let sw = stripeWidth ecColumnBytes v
      in if d = [] \<or> sw = 0 then (v, Inr ())
         else case write_row ecColumnBytes (sc off) off (take sw d) v of
                (v', Inl e) \<Rightarrow> (v', Inl e)
              | (v', Inr _) \<Rightarrow> write_rows ecColumnBytes sc (off + sw) (drop sw d) v')"
  by pat_completeness auto
termination
  by (relation "measure (\<lambda>(ec, sc, off, d, v). length d)") auto

definition writeWithin :: "nat \<Rightarrow> (nat \<Rightarrow> sched) \<Rightarrow> bytes \<Rightarrow> int \<Rightarrow> (Vlog, nat) io" where
  "writeWithin ecColumnBytes sc d limit v =
     (let logicalLen = int (length d);
          current = vlength v
      in if 0 \<le> limit \<and> (limit < logicalLen \<or> limit - logicalLen < int current)
         then (v, Inl (Err ''vlog would exceed max length''))
         else if d = [] then (v, Inr current)
         else if mirrored v
         then seq (writeMirrors (sc current) (mirror_op current d))
              (seq (modify (\<lambda>v. v\<lparr>vlength := vlength v + length d\<rparr>)) (ret current)) v
         else if scheme v = ''EC''
         then let sw = stripeWidth ecColumnBytes v
              in if sw = 0 then (v, Inl (Err ''panic: integer divide by zero''))
                 else if length d mod sw \<noteq> 0
                 then (v, Inl (Err ''EC vlog write: length is not a positive multiple of stripe width''))
                 else seq (write_rows ecColumnBytes sc current d)
                      (seq (modify (\<lambda>v. v\<lparr>vlength := vlength v + length d\<rparr>)) (ret current)) v
         else (v, Inl (Err ''unknown protection scheme'')))"

definition Vlog_Write :: "nat \<Rightarrow> (nat \<Rightarrow> sched) \<Rightarrow> bytes \<Rightarrow> (Vlog, nat) io" where
  "Vlog_Write ecColumnBytes sc d = writeWithin ecColumnBytes sc d (- 1)"

definition WriteWithin :: "nat \<Rightarrow> (nat \<Rightarrow> sched) \<Rightarrow> bytes \<Rightarrow> int \<Rightarrow> (Vlog, nat) io" where
  "WriteWithin ecColumnBytes sc d limit = writeWithin ecColumnBytes sc d limit"

definition totalPartsLen :: "bytes list \<Rightarrow> nat" where
  "totalPartsLen parts = sum_list (map length parts)"

text \<open>The appends of one mirror, part by part.\<close>

fun append_parts :: "nat \<Rightarrow> bytes list \<Rightarrow> (PlogClient, unit) io" where
  "append_parts partOffset [] c = (c, Inr ())"
| "append_parts partOffset (part # parts) c =
     (if part = [] then append_parts partOffset parts c
      else case client_EnsureAppend (int partOffset) part c of
             (c, Inl e) \<Rightarrow> (c, Inl e)
           | (c, Inr _) \<Rightarrow> append_parts (partOffset + length part) parts c)"

text \<open>
  The rows of an erasure-coded write gathered from parts: \<open>row\<close> is the filled prefix of the row buffer,
  which is flushed as soon as it is full, so that a non-empty part always has room (\<open>n\<close> is positive).
\<close>

function ensure_rows :: "nat \<Rightarrow> (nat \<Rightarrow> sched) \<Rightarrow> nat \<Rightarrow> bytes \<Rightarrow> bytes list \<Rightarrow> (Vlog, unit) io" where
  "ensure_rows ecColumnBytes sc off row [] v =
     (v, if row = [] then Inr () else Inl (Err ''short trailing row''))"
| "ensure_rows ecColumnBytes sc off row (part # parts) v =
     (let sw = stripeWidth ecColumnBytes v;
          n = min (sw - length row) (length part)
      in if part = [] \<or> n = 0 then ensure_rows ecColumnBytes sc off row parts v
         else if length row + n \<noteq> sw
         then ensure_rows ecColumnBytes sc off (row @ take n part) (drop n part # parts) v
         else case write_row ecColumnBytes (sc off) off (row @ take n part) v of
                (v, Inl e) \<Rightarrow> (v, Inl e)
              | (v, Inr _) \<Rightarrow> ensure_rows ecColumnBytes sc (off + sw) [] (drop n part # parts) v)"
  by pat_completeness auto
termination
  by (relation "measure (\<lambda>(ec, sc, off, row, parts, v). sum_list (map length parts) + length parts)") auto

definition EnsureWrite :: "nat \<Rightarrow> (nat \<Rightarrow> sched) \<Rightarrow> int \<Rightarrow> bytes list \<Rightarrow> (Vlog, unit) io" where
  "EnsureWrite ecColumnBytes sc offset parts v =
     (let total = totalPartsLen parts
      in if total = 0 then (v, Inr ())
         else if offset \<noteq> int (vlength v) then (v, Inl (Err ''ensure write: offset does not match length''))
         else if scheme v = ''EC''
         then let sw = stripeWidth ecColumnBytes v
              in if sw = 0 then (v, Inl (Err ''panic: integer divide by zero''))
                 else if total mod sw \<noteq> 0
                 then (v, Inl (Err ''EC vlog ensure write: length is not a multiple of stripe width''))
                 else seq (ensure_rows ecColumnBytes sc (vlength v) [] parts)
                      (modify (\<lambda>v. v\<lparr>vlength := vlength v + total\<rparr>)) v
         else if \<not> mirrored v then (v, Inl (Err ''unknown protection scheme''))
         else seq (writeMirrors (sc (vlength v)) (\<lambda>_. append_parts (vlength v) parts))
              (modify (\<lambda>v. v\<lparr>vlength := vlength v + total\<rparr>)) v)"

section \<open>Committing\<close>

definition CommitPrefix :: "sched \<Rightarrow> (Vlog, nat) io" where
  "CommitPrefix sc v =
     (let commit = (\<lambda>_::nat. client_Commit);
          eligible = completeReplicaSnapshot v
      in if mirrored v \<and> eligible \<noteq> None
         then bind (on_clients (fanoutQuorumEligible sc (writeQuorum v) eligible commit)) (\<lambda>_. gets vlength) v
         else seq (on_clients (fanoutQuorum sc (writeQuorum v) commit)) (gets vlength) v)"

definition Vlog_Commit :: "sched \<Rightarrow> (Vlog, unit) io" where
  "Vlog_Commit sc = bind (CommitPrefix sc) (\<lambda>_. ret ())"

section \<open>Reading\<close>

text \<open>The first successful read in the order of arrival.\<close>

fun read_first :: "PlogClient list \<Rightarrow> int \<Rightarrow> int \<Rightarrow> nat list \<Rightarrow> err option \<Rightarrow> bytes result" where
  "read_first cs off n [] lastErr = Inl (case lastErr of None \<Rightarrow> Err ''all clients failed to read'' | Some e \<Rightarrow> e)"
| "read_first cs off n (i # is) lastErr =
     (case client_Read (cs ! i) off n of Inr d \<Rightarrow> Inr d | Inl e \<Rightarrow> read_first cs off n is (Some e))"

text \<open>
  The shards of a row as they arrive: as soon as \<open>dataShards\<close> are there the rest are ignored, and more
  failures than parity shards end the attempt.
\<close>

definition read_column :: "nat \<Rightarrow> nat \<Rightarrow> PlogClient \<Rightarrow> bytes result" where
  "read_column ecColumnBytes row c =
     (case client_Read c (int (row * ecColumnBytes)) (int ecColumnBytes) of
        Inl e \<Rightarrow> Inl e
      | Inr d \<Rightarrow> if length d \<noteq> ecColumnBytes then Inl (Err ''short shard read'') else Inr d)"

fun gather_shards ::
  "nat \<Rightarrow> Vlog \<Rightarrow> nat \<Rightarrow> nat list \<Rightarrow> bytes option list \<Rightarrow> nat \<Rightarrow> nat \<Rightarrow> bytes option list result" where
  "gather_shards ecColumnBytes v row [] shards available failed = Inr shards"
| "gather_shards ecColumnBytes v row (i # is) shards available failed =
     (case read_column ecColumnBytes row (clients v ! i) of
        Inl e \<Rightarrow>
          if parityShards v < failed + 1 then Inl (Err ''shards missing > parity'')
          else gather_shards ecColumnBytes v row is shards available (failed + 1)
      | Inr d \<Rightarrow>
          if dataShards v \<le> available + 1 then Inr (shards[i := Some d])
          else gather_shards ecColumnBytes v row is (shards[i := Some d]) (available + 1) failed)"

definition reconstructRow :: "nat \<Rightarrow> nat list \<Rightarrow> Vlog \<Rightarrow> nat \<Rightarrow> bytes list result" where
  "reconstructRow ecColumnBytes arrivals v row =
     (case gather_shards ecColumnBytes v row arrivals (replicate (length (clients v)) None) 0 0 of
        Inl e \<Rightarrow> Inl e
      | Inr shards \<Rightarrow>
          (case rs_encoder v of None \<Rightarrow> Inl (Err ''panic: nil encoder'') | Some enc \<Rightarrow> Reconstruct enc shards))"

definition ReconstructECShard ::
  "(nat \<Rightarrow> nat \<Rightarrow> encoder result) \<Rightarrow> nat \<Rightarrow> nat \<Rightarrow> bytes option list \<Rightarrow> bytes list result" where
  "ReconstructECShard reedsolomon_New data parity shards =
     (case reedsolomon_New data parity of Inl e \<Rightarrow> Inl e | Inr enc \<Rightarrow> Reconstruct enc shards)"

lemma column_progress: "\<not> b \<le> cur \<Longrightarrow> 0 < ec \<Longrightarrow> b - (cur + min (ec - cur mod ec) (b - cur)) < b - (cur::nat)"
proof -
  assume "\<not> b \<le> cur" "0 < ec"
  moreover obtain r where r: "r = cur mod ec" "r < ec" using \<open>0 < ec\<close> by simp
  ultimately show ?thesis unfolding r(1) [symmetric] by (auto simp: min_def)
qed

function row_range ::
  "nat \<Rightarrow> nat list \<Rightarrow> Vlog \<Rightarrow> nat \<Rightarrow> nat \<Rightarrow> nat \<Rightarrow> bytes list option \<Rightarrow> bytes \<Rightarrow> bytes result" where
  "row_range ec arrivals v row cur b shards out =
     (if b \<le> cur \<or> ec = 0 then Inr out
      else
        let col = cur div ec;
            pos = cur mod ec;
            n = min (ec - pos) (b - cur)
        in case shards of
             Some sh \<Rightarrow> row_range ec arrivals v row (cur + n) b shards (out @ bslice pos (pos + n) (sh ! col))
           | None \<Rightarrow>
               (case client_Read (clients v ! col) (int (row * ec + pos)) (int n) of
                  Inr d \<Rightarrow> row_range ec arrivals v row (cur + n) b None (out @ d)
                | Inl e \<Rightarrow>
                    (case reconstructRow ec arrivals v row of
                       Inl e \<Rightarrow> Inl e
                     | Inr sh \<Rightarrow>
                         row_range ec arrivals v row (cur + n) b (Some sh) (out @ bslice pos (pos + n) (sh ! col)))))"
  by pat_completeness auto
termination
  by (relation "measure (\<lambda>(ec, arrivals, v, row, cur, b, shards, out). b - cur)") (auto dest: column_progress)

definition readRowRange :: "nat \<Rightarrow> nat list \<Rightarrow> Vlog \<Rightarrow> nat \<Rightarrow> nat \<Rightarrow> nat \<Rightarrow> bytes result" where
  "readRowRange ecColumnBytes arrivals v row a b = row_range ecColumnBytes arrivals v row a b None []"

function read_rows :: "nat \<Rightarrow> (nat \<Rightarrow> nat list) \<Rightarrow> Vlog \<Rightarrow> nat \<Rightarrow> nat \<Rightarrow> bytes \<Rightarrow> bytes result" where
  "read_rows ec arrivals v cur stop out =
     (let sw = stripeWidth ec v
      in if stop \<le> cur \<or> sw = 0 then Inr out
         else
           let row = cur div sw;
               rowEnd = min ((row + 1) * sw) stop
           in case readRowRange ec (arrivals row) v row (cur - row * sw) (rowEnd - row * sw) of
                Inl e \<Rightarrow> Inl e
              | Inr d \<Rightarrow> read_rows ec arrivals v rowEnd stop (out @ d))"
  by pat_completeness auto
termination
proof (relation "measure (\<lambda>(ec, arrivals, v, cur, stop, out). stop - cur)", goal_cases)
  case (2 ec arrivals v cur stop out sw row rowEnd d)
  then have "0 < sw" "cur < stop" by auto
  then have "cur < (cur div sw + 1) * sw" by (metis Suc_eq_plus1 dividend_less_div_times mult.commute add.commute mult_Suc)
  with 2 show ?case by (auto simp: min_def)
qed simp

definition Vlog_Read :: "nat \<Rightarrow> (nat \<Rightarrow> nat list) \<Rightarrow> Vlog \<Rightarrow> int \<Rightarrow> int \<Rightarrow> bytes result" where
  "Vlog_Read ecColumnBytes arrivals v offset len =
     (if offset < 0 \<or> len < 0 then Inl (Err ''vlog read: invalid offset or length'')
      else if MaxInt64 - offset < len then Inl (Err ''vlog read: range overflows int64'')
      else
        let stop = nat (offset + len)
        in if Vlog_Length v < stop then Inl (Err ''vlog read past end'')
           else if mirrored v
           then read_first (clients v) offset len
                  (filter (eligible_at (completeReplicaSnapshot v)) (arrivals 0)) None
           else if scheme v = ''EC''
           then if stripeWidth ecColumnBytes v = 0 \<and> 0 < len then Inl (Err ''panic: integer divide by zero'')
                else read_rows ecColumnBytes arrivals v (nat offset) stop []
           else Inl (Err ''unknown protection scheme''))"

section \<open>Maintenance\<close>

fun reconcile :: "int \<Rightarrow> nat \<Rightarrow> PlogClient list \<Rightarrow> PlogClient list \<times> unit result" where
  "reconcile perShard i [] = ([], Inr ())"
| "reconcile perShard i (c # cs) =
     (if \<not> truncatable c then (case reconcile perShard (i + 1) cs of (cs, r) \<Rightarrow> (c # cs, r))
      else case client_TruncateTo perShard c of
             (c, Inl e) \<Rightarrow> (c # cs, Inl e)
           | (c, Inr _) \<Rightarrow> (case reconcile perShard (i + 1) cs of (cs, r) \<Rightarrow> (c # cs, r)))"

definition ReconcileShardLengths :: "(Vlog, unit) io" where
  "ReconcileShardLengths v =
     (if scheme v = ''EC'' \<and> dataShards v = 0 then (v, Inl (Err ''panic: integer divide by zero''))
      else
        let perShard = (if scheme v = ''EC'' then vlength v div dataShards v else vlength v)
        in on_clients (reconcile (int perShard) 0) v)"

record ShardScrub =
  Shard :: nat
  Result :: ScrubResult

fun scrub_clients :: "nat \<Rightarrow> PlogClient list \<Rightarrow> ShardScrub list result" where
  "scrub_clients i [] = Inr []"
| "scrub_clients i (c # cs) =
     (case scrubbable c of
        None \<Rightarrow> scrub_clients (i + 1) cs
      | Some p \<Rightarrow>
          (case Plog_Scrub p of
             (res, Inl e) \<Rightarrow> Inl e
           | (res, Inr _) \<Rightarrow>
               (case scrub_clients (i + 1) cs of
                  Inl e \<Rightarrow> Inl e
                | Inr out \<Rightarrow> Inr (\<lparr>Shard = i, Result = res\<rparr> # out))))"

definition Vlog_Scrub :: "Vlog \<Rightarrow> ShardScrub list result" where
  "Vlog_Scrub v = scrub_clients 0 (clients v)"

section \<open>Verification of every shard\<close>

text \<open>A fan-out whose operations only read: the outcome alone.\<close>

definition fanout_check :: "sched \<Rightarrow> (nat \<Rightarrow> PlogClient \<Rightarrow> unit result) \<Rightarrow> Vlog \<Rightarrow> unit result" where
  "fanout_check sc check v = snd (fanout sc (\<lambda>i c. (c, check i c)) (clients v))"

definition verify_mirror :: "int \<Rightarrow> bytes \<Rightarrow> nat \<Rightarrow> PlogClient \<Rightarrow> unit result" where
  "verify_mirror offset expected shard c =
     (case client_Read c offset (int (length expected)) of
        Inl e \<Rightarrow> Inl e
      | Inr got \<Rightarrow> if got \<noteq> expected then Inl ErrBitrot else Inr ())"

definition verify_column :: "nat \<Rightarrow> nat \<Rightarrow> nat \<Rightarrow> PlogClient \<Rightarrow> unit result" where
  "verify_column ecColumnBytes r shard c =
     (case client_Read c (int (r * ecColumnBytes)) (int ecColumnBytes) of
        Inl e \<Rightarrow> Inl e
      | Inr got \<Rightarrow> if length got \<noteq> ecColumnBytes then Inl (Err ''verify row: short read'') else Inr ())"

definition column_bytes :: "nat \<Rightarrow> nat \<Rightarrow> PlogClient \<Rightarrow> bytes" where
  "column_bytes ecColumnBytes r c =
     (case client_Read c (int (r * ecColumnBytes)) (int ecColumnBytes) of Inl e \<Rightarrow> [] | Inr got \<Rightarrow> got)"

text \<open>The requested bytes of one data column of the row that starts at \<open>row\<close>.\<close>

definition column_matches :: "nat \<Rightarrow> nat \<Rightarrow> nat \<Rightarrow> bytes \<Rightarrow> bytes list \<Rightarrow> nat \<Rightarrow> bool" where
  "column_matches ecColumnBytes row offset expected shards shard =
     (let start = row + shard * ecColumnBytes;
          lo = max start offset;
          hi = min (start + ecColumnBytes) (offset + length expected)
      in \<not> (lo < hi \<and> bslice (lo - start) (hi - start) (shards ! shard) \<noteq> bslice (lo - offset) (hi - offset) expected))"

definition verify_row :: "nat \<Rightarrow> sched \<Rightarrow> Vlog \<Rightarrow> nat \<Rightarrow> nat \<Rightarrow> bytes \<Rightarrow> unit result" where
  "verify_row ecColumnBytes sc v row offset expected =
     (let r = row div stripeWidth ecColumnBytes v
      in case fanout_check sc (verify_column ecColumnBytes r) v of
           Inl e \<Rightarrow> Inl e
         | Inr _ \<Rightarrow>
             let shards = map (column_bytes ecColumnBytes r) (clients v)
             in case (case rs_encoder v of None \<Rightarrow> Inl (Err ''panic: nil encoder'') | Some enc \<Rightarrow> Verify_shards enc shards) of
                  Inl e \<Rightarrow> Inl e
                | Inr valid \<Rightarrow>
                    if \<not> valid then Inl ErrBitrot
                    else if list_all (column_matches ecColumnBytes row offset expected shards) [0..<dataShards v]
                    then Inr () else Inl ErrBitrot)"

function verify_rows :: "nat \<Rightarrow> (nat \<Rightarrow> sched) \<Rightarrow> Vlog \<Rightarrow> nat \<Rightarrow> nat \<Rightarrow> bytes \<Rightarrow> unit result" where
  "verify_rows ecColumnBytes sc v row offset expected =
     (let sw = stripeWidth ecColumnBytes v
      in if offset + length expected \<le> row \<or> sw = 0 then Inr ()
         else case verify_row ecColumnBytes (sc row) v row offset expected of
                Inl e \<Rightarrow> Inl e
              | Inr _ \<Rightarrow> verify_rows ecColumnBytes sc v (row + sw) offset expected)"
  by pat_completeness auto
termination
  by (relation "measure (\<lambda>(ec, sc, v, row, offset, expected). offset + length expected - row)") auto

definition VerifyAll :: "nat \<Rightarrow> (nat \<Rightarrow> sched) \<Rightarrow> Vlog \<Rightarrow> int \<Rightarrow> bytes \<Rightarrow> unit result" where
  "VerifyAll ecColumnBytes sc v offset expected =
     (if offset < 0 \<or> int (Vlog_Length v) < offset \<or> int (Vlog_Length v) - offset < int (length expected)
      then Inl (Err ''vlog verify range outside logical prefix'')
      else if expected = [] then Inr ()
      else if mirrored v then fanout_check (sc 0) (verify_mirror offset expected) v
      else if scheme v \<noteq> ''EC'' then Inl (Err ''unknown protection scheme'')
      else
        let sw = stripeWidth ecColumnBytes v
        in if sw = 0 then Inl (Err ''panic: integer divide by zero'')
           else verify_rows ecColumnBytes sc v (nat offset div sw * sw) (nat offset) expected)"

end
