(* ===== verification/Rose_Catalog.thy ===== *)
theory Rose_Catalog
  imports Rose_Io
begin

text \<open>
  The metadata catalog (\<^verbatim>\<open>meta/db.go\<close>): its tables as lists of rows, the few forms of SQL statement the
  package uses, and the triggers that advance placement generations.

  A transaction runs on a copy of the database: \<open>transact\<close> keeps its effects if it commits and drops
  them if it returns an error. Statements fail for the reasons the schema gives (a key or a reference);
  a failure of the engine itself rolls back and so has the effect of not running. Lists keep insertion
  order; nothing below depends on the order of an unordered SELECT.
\<close>

section \<open>Tables\<close>

record file_row =
  f_id :: int
  f_path :: string
  f_mtime :: int
  f_chunks :: bytes

record head_row =
  h_path :: string
  h_file :: int
  h_parent :: string
  h_name :: string
  h_mtime :: int

record dir_row =
  d_path :: string
  d_parent :: string
  d_name :: string
  d_mtime :: int

record snapshot_row =
  s_id :: int
  s_name :: string
  s_created :: int

record snapshot_file_row =
  sf_snapshot :: int
  sf_path :: string
  sf_parent :: string
  sf_name :: string
  sf_file :: int
  sf_mtime :: int

record snapshot_dir_row =
  sd_snapshot :: int
  sd_path :: string
  sd_parent :: string
  sd_name :: string
  sd_mtime :: int

record retention_row =
  continuous_ns :: int
  daily_ns :: int
  weekly_ns :: int

record chunk_row =
  c_hash :: bytes
  c_refcount :: int
  c_vlog :: int
  c_vaddr :: int
  c_logical :: int
  c_compressed :: int

record write_op_row =
  w_id :: int
  w_key :: string
  w_path :: string
  w_state :: string
  w_created :: int
  w_file :: int
  w_ack :: int
  w_tail :: bytes

record result_root_row =
  r_op :: int
  r_file :: int
  r_expires :: int

record lease_row =
  l_vlog :: int
  l_op :: int
  l_ordinal :: int

record vlog_row =
  v_id :: int
  v_uid :: bytes
  v_domain :: bytes
  v_required :: int
  v_owned :: bool
  v_epoch :: int
  v_length :: int
  v_scheme :: string
  v_data :: int
  v_parity :: int
  v_target_data :: int
  v_target_parity :: int

record vlog_plog_row =
  vp_vlog :: int
  vp_shard :: int
  vp_plog :: int

record plog_row =
  p_id :: int
  p_uid :: bytes
  p_disk :: int
  p_repair :: bool
  p_epoch :: int
  p_length :: int

record disk_row =
  k_id :: int
  k_uid :: bytes
  k_node :: int
  k_epoch :: int
  k_total :: int
  k_used :: int
  k_state :: string

record node_row =
  n_id :: int
  n_mac :: string
  n_host :: string
  n_state :: string

record job_row =
  j_id :: int
  j_kind :: string
  j_state :: string
  j_target_vlog :: int
  j_dest_vlog :: int
  j_target_disk :: int
  j_dest_disk :: int
  j_created :: int

record bucket_row =
  b_name :: string
  b_scheme :: string
  b_data :: int
  b_parity :: int

text \<open>The fields ending in \<open>_seq\<close> are the AUTOINCREMENT counters: the largest id ever given out.\<close>

record DB =
  t_file :: "file_row list"
  t_head :: "head_row list"
  t_dir :: "dir_row list"
  t_snapshot :: "snapshot_row list"
  t_snapshot_file :: "snapshot_file_row list"
  t_snapshot_dir :: "snapshot_dir_row list"
  t_retention :: "retention_row option"
  t_chunk :: "chunk_row list"
  t_write_op :: "write_op_row list"
  t_result_root :: "result_root_row list"
  t_lease :: "lease_row list"
  t_vlog :: "vlog_row list"
  t_vlog_plog :: "vlog_plog_row list"
  t_plog :: "plog_row list"
  t_disk :: "disk_row list"
  t_node :: "node_row list"
  t_job :: "job_row list"
  t_bucket :: "bucket_row list"
  file_seq :: int
  snapshot_seq :: int
  write_op_seq :: int
  vlog_seq :: int
  plog_seq :: int
  job_seq :: int
  placement_clock :: int

definition empty_db :: DB where
  "empty_db =
     \<lparr>t_file = [], t_head = [], t_dir = [], t_snapshot = [], t_snapshot_file = [], t_snapshot_dir = [],
      t_retention = None, t_chunk = [], t_write_op = [], t_result_root = [], t_lease = [], t_vlog = [],
      t_vlog_plog = [], t_plog = [], t_disk = [], t_node = [], t_job = [], t_bucket = [],
      file_seq = 0, snapshot_seq = 0, write_op_seq = 0, vlog_seq = 0, plog_seq = 0, job_seq = 0, placement_clock = 1\<rparr>"

section \<open>Statements\<close>

definition transact :: "(DB, 'a) io \<Rightarrow> (DB, 'a) io" where
  "transact m db = (case m db of (db', Inr x) \<Rightarrow> (db', Inr x) | (db', Inl e) \<Rightarrow> (db, Inl e))"

definition ErrNoRows :: err where
  "ErrNoRows = Err ''sql: no rows in result set''"

definition constraint_failed :: err where
  "constraint_failed = Err ''constraint failed''"

definition lookup :: "('r \<Rightarrow> bool) \<Rightarrow> 'r list \<Rightarrow> 'r option" where
  "lookup P rows = List.find P rows"

definition update :: "('r \<Rightarrow> bool) \<Rightarrow> ('r \<Rightarrow> 'r) \<Rightarrow> 'r list \<Rightarrow> 'r list" where
  "update P f rows = map (\<lambda>r. if P r then f r else r) rows"

definition delete :: "('r \<Rightarrow> bool) \<Rightarrow> 'r list \<Rightarrow> 'r list" where
  "delete P rows = filter (\<lambda>r. \<not> P r) rows"

section \<open>Generations\<close>

definition bump_vlogs :: "(int \<Rightarrow> bool) \<Rightarrow> DB \<Rightarrow> DB" where
  "bump_vlogs P db = db\<lparr>t_vlog := update (\<lambda>v. P (v_id v)) (\<lambda>v. v\<lparr>v_epoch := v_epoch v + 1\<rparr>) (t_vlog db)\<rparr>"

definition bump_plogs :: "(int \<Rightarrow> bool) \<Rightarrow> DB \<Rightarrow> DB" where
  "bump_plogs P db = db\<lparr>t_plog := update (\<lambda>p. P (p_id p)) (\<lambda>p. p\<lparr>p_epoch := p_epoch p + 1\<rparr>) (t_plog db)\<rparr>"

text \<open>The triggers \<^verbatim>\<open>epoch_lease_insert\<close> and \<^verbatim>\<open>epoch_lease_delete\<close> fire once per row.\<close>

definition insert_lease :: "lease_row \<Rightarrow> DB \<Rightarrow> DB" where
  "insert_lease l db = bump_vlogs (\<lambda>i. i = l_vlog l) (db\<lparr>t_lease := t_lease db @ [l]\<rparr>)"

definition delete_leases :: "(lease_row \<Rightarrow> bool) \<Rightarrow> DB \<Rightarrow> DB" where
  "delete_leases P db =
     fold (\<lambda>l db. bump_vlogs (\<lambda>i. i = l_vlog l) (db\<lparr>t_lease := delete ((=) l) (t_lease db)\<rparr>)) (filter P (t_lease db)) db"

text \<open>The triggers on the shard mapping.\<close>

definition insert_mapping :: "vlog_plog_row \<Rightarrow> DB \<Rightarrow> DB" where
  "insert_mapping m db =
     bump_vlogs (\<lambda>i. i = vp_vlog m) (bump_plogs (\<lambda>i. i = vp_plog m) (db\<lparr>t_vlog_plog := t_vlog_plog db @ [m]\<rparr>))"

definition delete_mappings :: "(vlog_plog_row \<Rightarrow> bool) \<Rightarrow> DB \<Rightarrow> DB" where
  "delete_mappings P db =
     fold (\<lambda>m db. bump_vlogs (\<lambda>i. i = vp_vlog m) (bump_plogs (\<lambda>i. i = vp_plog m)
        (db\<lparr>t_vlog_plog := delete ((=) m) (t_vlog_plog db)\<rparr>))) (filter P (t_vlog_plog db)) db"

definition repoint_mapping :: "vlog_plog_row \<Rightarrow> int \<Rightarrow> DB \<Rightarrow> DB" where
  "repoint_mapping m new db =
     bump_vlogs (\<lambda>i. i = vp_vlog m) (bump_plogs (\<lambda>i. i = vp_plog m \<or> i = new)
        (db\<lparr>t_vlog_plog := update ((=) m) (\<lambda>m. m\<lparr>vp_plog := new\<rparr>) (t_vlog_plog db)\<rparr>))"

text \<open>The trigger \<^verbatim>\<open>epoch_plog_delete\<close> fires before the row goes.\<close>

definition vlogs_on :: "(int \<Rightarrow> bool) \<Rightarrow> DB \<Rightarrow> int \<Rightarrow> bool" where
  "vlogs_on P db i = list_ex (\<lambda>m. vp_vlog m = i \<and> P (vp_plog m)) (t_vlog_plog db)"

definition delete_plog :: "int \<Rightarrow> DB \<Rightarrow> DB" where
  "delete_plog i db =
     (if list_ex (\<lambda>p. p_id p = i) (t_plog db)
      then (bump_vlogs (vlogs_on ((=) i) db) db)\<lparr>t_plog := delete (\<lambda>p. p_id p = i) (t_plog db)\<rparr>
      else db)"

text \<open>
  \<^verbatim>\<open>epoch_plog_update\<close> after a change of a plog's disk, identity or length, \<^verbatim>\<open>epoch_disk_insert\<close> and
  \<^verbatim>\<open>epoch_disk_update\<close>, \<^verbatim>\<open>epoch_node_insert\<close> and \<^verbatim>\<open>epoch_node_update\<close>, with the disk generations of
  \<^verbatim>\<open>meta/disk_epoch.go\<close>, and \<^verbatim>\<open>epoch_vlog_update\<close>.
\<close>

definition plog_on :: "(int \<Rightarrow> bool) \<Rightarrow> DB \<Rightarrow> int \<Rightarrow> bool" where
  "plog_on D db i = list_ex (\<lambda>p. p_id p = i \<and> D (p_disk p)) (t_plog db)"

definition disk_on :: "int \<Rightarrow> DB \<Rightarrow> int \<Rightarrow> bool" where
  "disk_on node db i = list_ex (\<lambda>k. k_id k = i \<and> k_node k = node) (t_disk db)"

definition plog_changed :: "int \<Rightarrow> DB \<Rightarrow> DB" where
  "plog_changed i db = (let db' = bump_plogs ((=) i) db in bump_vlogs (vlogs_on ((=) i) db') db')"

definition disks_changed :: "(int \<Rightarrow> bool) \<Rightarrow> DB \<Rightarrow> DB" where
  "disks_changed D db = (let db' = bump_plogs (plog_on D db) db in bump_vlogs (vlogs_on (plog_on D db') db') db')"

definition new_generation :: "(int \<Rightarrow> bool) \<Rightarrow> DB \<Rightarrow> DB" where
  "new_generation D db =
     (let e = placement_clock db + 1
      in db\<lparr>placement_clock := e, t_disk := update (\<lambda>k. D (k_id k)) (\<lambda>k. k\<lparr>k_epoch := e\<rparr>) (t_disk db)\<rparr>)"

definition disk_changed :: "int \<Rightarrow> DB \<Rightarrow> DB" where
  "disk_changed i db = disks_changed ((=) i) (new_generation ((=) i) db)"

definition node_changed :: "int \<Rightarrow> DB \<Rightarrow> DB" where
  "node_changed node db =
     (let db' = new_generation (disk_on node db) db in disks_changed (disk_on node db') db')"

definition vlog_changed :: "int \<Rightarrow> DB \<Rightarrow> DB" where
  "vlog_changed i db = bump_vlogs ((=) i) db"

section \<open>Lemmas on statements\<close>

named_theorems sql_simps

lemma lookup_Nil [sql_simps, simp]: "lookup P [] = None"
  by (simp add: lookup_def)

lemma lookup_Cons [sql_simps, simp]: "lookup P (r # rs) = (if P r then Some r else lookup P rs)"
  by (simp add: lookup_def)

lemma lookup_SomeD: "lookup P rows = Some r \<Longrightarrow> r \<in> set rows \<and> P r"
  by (induction rows) (auto split: if_splits)

lemma lookup_NoneD: "lookup P rows = None \<Longrightarrow> r \<in> set rows \<Longrightarrow> \<not> P r"
  by (induction rows) (auto split: if_splits)

lemma lookup_None_iff: "lookup P rows = None \<longleftrightarrow> (\<forall>r \<in> set rows. \<not> P r)"
  by (induction rows) auto

lemma lookup_append: "lookup P (xs @ ys) = (case lookup P xs of None \<Rightarrow> lookup P ys | Some r \<Rightarrow> Some r)"
  by (induction xs) auto

lemma lookup_unique:
  "distinct (map k rows) \<Longrightarrow> r \<in> set rows \<Longrightarrow> lookup (\<lambda>x. k x = k r) rows = Some r"
  by (induction rows) (auto simp: rev_image_eqI)

lemma set_update: "set (update P f rows) = (\<lambda>r. if P r then f r else r) ` set rows"
  by (simp add: update_def)

lemma set_delete [simp]: "set (delete P rows) = {r \<in> set rows. \<not> P r}"
  by (auto simp: delete_def)

lemma map_update: "(\<And>r. P r \<Longrightarrow> k (f r) = k r) \<Longrightarrow> map k (update P f rows) = map k rows"
  by (auto simp: update_def)

lemma distinct_map_delete: "distinct (map k rows) \<Longrightarrow> distinct (map k (delete P rows))"
  by (simp add: delete_def distinct_map_filter)

lemma lookup_update:
  assumes "\<And>r. Q (if P r then f r else r) = Q r"
  shows "lookup Q (update P f rows) = map_option (\<lambda>r. if P r then f r else r) (lookup Q rows)"
  using assms by (induction rows) (auto simp: update_def split: if_splits)

lemma lookup_delete: "(\<And>r. Q r \<Longrightarrow> \<not> P r) \<Longrightarrow> lookup Q (delete P rows) = lookup Q rows"
  by (induction rows) (auto simp: delete_def)

lemma transact_error [simp]: "m db = (db', Inl e) \<Longrightarrow> transact m db = (db, Inl e)"
  by (simp add: transact_def)

lemma transact_ok [simp]: "m db = (db', Inr x) \<Longrightarrow> transact m db = (db', Inr x)"
  by (simp add: transact_def)

lemma transact_cases:
  assumes "transact m db = (db', r)"
  obtains (commit) x where "m db = (db', Inr x)" "r = Inr x" | (rollback) e where "db' = db" "r = Inl e"
  using assms by (auto simp: transact_def split: prod.splits sum.splits)

text \<open>An invariant of the rows a transaction touches survives it if its body keeps it when it succeeds.\<close>

lemma transact_inv: "transact m db = (db', r) \<Longrightarrow> P db \<Longrightarrow> (\<And>x. m db = (db', Inr x) \<Longrightarrow> P db') \<Longrightarrow> P db'"
  by (erule transact_cases) auto

text \<open>The triggers change generations only.\<close>

lemma bump_frames [simp]:
  "t_file (bump_vlogs P db) = t_file db" "t_head (bump_vlogs P db) = t_head db" "t_dir (bump_vlogs P db) = t_dir db"
  "t_snapshot (bump_vlogs P db) = t_snapshot db" "t_snapshot_file (bump_vlogs P db) = t_snapshot_file db"
  "t_snapshot_dir (bump_vlogs P db) = t_snapshot_dir db" "t_chunk (bump_vlogs P db) = t_chunk db"
  "t_write_op (bump_vlogs P db) = t_write_op db" "t_result_root (bump_vlogs P db) = t_result_root db"
  "t_lease (bump_vlogs P db) = t_lease db" "t_vlog_plog (bump_vlogs P db) = t_vlog_plog db"
  "t_plog (bump_vlogs P db) = t_plog db" "t_disk (bump_vlogs P db) = t_disk db" "t_node (bump_vlogs P db) = t_node db"
  "file_seq (bump_vlogs P db) = file_seq db" "t_retention (bump_vlogs P db) = t_retention db"
  "snapshot_seq (bump_vlogs P db) = snapshot_seq db" "write_op_seq (bump_vlogs P db) = write_op_seq db"
  "vlog_seq (bump_vlogs P db) = vlog_seq db" "plog_seq (bump_vlogs P db) = plog_seq db"
  "t_job (bump_vlogs P db) = t_job db" "t_bucket (bump_vlogs P db) = t_bucket db" "job_seq (bump_vlogs P db) = job_seq db"
  by (simp_all add: bump_vlogs_def)

lemma bump_plogs_frames [simp]:
  "t_file (bump_plogs P db) = t_file db" "t_head (bump_plogs P db) = t_head db" "t_dir (bump_plogs P db) = t_dir db"
  "t_snapshot (bump_plogs P db) = t_snapshot db" "t_snapshot_file (bump_plogs P db) = t_snapshot_file db"
  "t_snapshot_dir (bump_plogs P db) = t_snapshot_dir db" "t_chunk (bump_plogs P db) = t_chunk db"
  "t_write_op (bump_plogs P db) = t_write_op db" "t_result_root (bump_plogs P db) = t_result_root db"
  "t_lease (bump_plogs P db) = t_lease db" "t_vlog_plog (bump_plogs P db) = t_vlog_plog db"
  "t_vlog (bump_plogs P db) = t_vlog db" "t_disk (bump_plogs P db) = t_disk db" "t_node (bump_plogs P db) = t_node db"
  "file_seq (bump_plogs P db) = file_seq db" "t_retention (bump_plogs P db) = t_retention db"
  "snapshot_seq (bump_plogs P db) = snapshot_seq db" "write_op_seq (bump_plogs P db) = write_op_seq db"
  "vlog_seq (bump_plogs P db) = vlog_seq db" "plog_seq (bump_plogs P db) = plog_seq db"
  "t_job (bump_plogs P db) = t_job db" "t_bucket (bump_plogs P db) = t_bucket db" "job_seq (bump_plogs P db) = job_seq db"
  by (simp_all add: bump_plogs_def)

text \<open>Deleting leases leaves every table but the leases and the generations as it is.\<close>

definition same_but_leases :: "DB \<Rightarrow> DB \<Rightarrow> bool" where
  "same_but_leases db db' \<longleftrightarrow> (\<exists>ls vs. db' = db\<lparr>t_lease := ls, t_vlog := vs\<rparr> \<and>
     map (\<lambda>v. v\<lparr>v_epoch := 0\<rparr>) vs = map (\<lambda>v. v\<lparr>v_epoch := 0\<rparr>) (t_vlog db))"

lemma same_but_leases_refl [simp]: "same_but_leases db db"
  unfolding same_but_leases_def by (rule exI [of _ "t_lease db"], rule exI [of _ "t_vlog db"]) simp

lemma same_but_leases_trans: "same_but_leases a b \<Longrightarrow> same_but_leases b c \<Longrightarrow> same_but_leases a c"
  unfolding same_but_leases_def by (elim exE conjE, intro exI conjI) (assumption | simp)+

lemma same_but_leases_bump: "same_but_leases db (bump_vlogs P (db\<lparr>t_lease := x\<rparr>))"
  unfolding same_but_leases_def
  by (rule exI [of _ x], rule exI [of _ "t_vlog (bump_vlogs P db)"]) (auto simp: bump_vlogs_def update_def)

lemma fold_delete_leases:
  "same_but_leases db (fold (\<lambda>l db. bump_vlogs (\<lambda>i. i = l_vlog l) (db\<lparr>t_lease := delete ((=) l) (t_lease db)\<rparr>)) ls db) \<and>
   t_lease (fold (\<lambda>l db. bump_vlogs (\<lambda>i. i = l_vlog l) (db\<lparr>t_lease := delete ((=) l) (t_lease db)\<rparr>)) ls db)
     = filter (\<lambda>l. l \<notin> set ls) (t_lease db)"
proof (induction ls arbitrary: db)
  case (Cons l ls)
  let ?db = "bump_vlogs (\<lambda>i. i = l_vlog l) (db\<lparr>t_lease := delete ((=) l) (t_lease db)\<rparr>)"
  have "same_but_leases db ?db" by (rule same_but_leases_bump)
  with Cons.IH [of ?db] show ?case
    by (auto simp: delete_def intro: same_but_leases_trans intro!: filter_cong)
qed simp

lemma delete_leases_frame: "same_but_leases db (delete_leases P db)"
  unfolding delete_leases_def using fold_delete_leases by blast

lemma t_lease_delete_leases [simp]: "t_lease (delete_leases P db) = filter (\<lambda>l. \<not> P l) (t_lease db)"
  unfolding delete_leases_def using fold_delete_leases [of db "filter P (t_lease db)"] by (auto intro!: filter_cong)

lemma same_but_leasesD:
  assumes "same_but_leases db db'"
  shows "t_file db' = t_file db" "t_head db' = t_head db" "t_dir db' = t_dir db" "t_snapshot db' = t_snapshot db"
    "t_snapshot_file db' = t_snapshot_file db" "t_chunk db' = t_chunk db" "t_write_op db' = t_write_op db"
    "t_result_root db' = t_result_root db" "file_seq db' = file_seq db" "t_snapshot_dir db' = t_snapshot_dir db"
    "snapshot_seq db' = snapshot_seq db" "write_op_seq db' = write_op_seq db"
  using assms by (auto simp: same_but_leases_def)

lemmas delete_leases_tables [simp] = same_but_leasesD [OF delete_leases_frame]

end
