(* ===== verification/Rose_Paths.thy ===== *)
theory Rose_Paths
  imports Rose_Prelude
begin

text \<open>
  Namespace paths (\<^verbatim>\<open>meta/namespace.go\<close>) and the LIKE patterns the catalog matches them with: the
  canonical form of a path, its parent and name, its ancestors.
\<close>

section \<open>Cleaning\<close>

abbreviation slash :: char where "slash \<equiv> CHR ''/''"

fun split_slash :: "string \<Rightarrow> string list" where
  "split_slash [] = [[]]"
| "split_slash (c # cs) =
     (if c = slash then [] # split_slash cs
      else case split_slash cs of [] \<Rightarrow> [[c]] | w # ws \<Rightarrow> (c # w) # ws)"

fun join_slash :: "string list \<Rightarrow> string" where
  "join_slash [] = []"
| "join_slash [w] = w"
| "join_slash (w # ws) = w @ slash # join_slash ws"

text \<open>\<^verbatim>\<open>path.Clean\<close> of a rooted path: empty and \<^verbatim>\<open>.\<close> elements go, \<^verbatim>\<open>..\<close> removes the element before it, or nothing at the root.\<close>

fun clean_parts :: "string list \<Rightarrow> string list \<Rightarrow> string list" where
  "clean_parts acc [] = rev acc"
| "clean_parts acc (w # ws) =
     (if w = [] \<or> w = ''.'' then clean_parts acc ws
      else if w = ''..'' then clean_parts (tl acc) ws
      else clean_parts (w # acc) ws)"

definition path_Clean_rooted :: "string \<Rightarrow> string" where
  "path_Clean_rooted p = slash # join_slash (clean_parts [] (split_slash p))"

definition trim_prefix :: "string \<Rightarrow> string \<Rightarrow> string" where
  "trim_prefix pre s = (if take (length pre) s = pre then drop (length pre) s else s)"

definition cleanPath :: "string \<Rightarrow> string" where
  "cleanPath path =
     (let cleaned = trim_prefix ''/'' (path_Clean_rooted path)
      in if cleaned = ''.'' then [] else cleaned)"

definition splitPath :: "string \<Rightarrow> string \<times> string" where
  "splitPath path =
     (let path = dropWhile ((=) slash) path;
          name = rev (takeWhile ((\<noteq>) slash) (rev path))
      in if slash \<in> set path then (take (length path - length name - 1) path, name) else ([], path))"

lemma splitPath_parent_shorter: "fst (splitPath path) \<noteq> [] \<Longrightarrow> length (fst (splitPath path)) < length path"
proof -
  let ?p = "dropWhile ((=) slash) path"
  assume "fst (splitPath path) \<noteq> []"
  then have "?p \<noteq> []" by (auto simp: splitPath_def Let_def split: if_splits)
  then have "length (fst (splitPath path)) < length ?p" by (cases ?p) (simp_all add: splitPath_def Let_def less_Suc_eq_le)
  also have "\<dots> \<le> length path" by (rule length_dropWhile_le)
  finally show ?thesis .
qed

function ancestors_loop :: "string \<Rightarrow> string list" where
  "ancestors_loop path =
     (let parent = fst (splitPath path)
      in if parent = [] then [] else parent # ancestors_loop parent)"
  by pat_completeness auto
termination
  by (relation "measure length") (auto dest: splitPath_parent_shorter)

declare ancestors_loop.simps [simp del]

definition ancestorsOf :: "string \<Rightarrow> string list" where
  "ancestorsOf path = ancestors_loop (cleanPath path)"

section \<open>LIKE\<close>

text \<open>
  \<^verbatim>\<open>LIKE ... ESCAPE '\'\<close>: \<^verbatim>\<open>%\<close> matches any sequence, \<^verbatim>\<open>_\<close> any character, an escaped character itself; letters
  of the ASCII range match in either case, which is how SQLite compares them unless told otherwise.
\<close>

definition ascii_lower :: "char \<Rightarrow> char" where
  "ascii_lower c = (if 65 \<le> (of_char c :: nat) \<and> (of_char c :: nat) \<le> 90 then char_of (of_char c + 32 :: nat) else c)"

definition backslash :: char where "backslash = char_of (92 :: nat)"

function sql_like :: "string \<Rightarrow> string \<Rightarrow> bool" where
  "sql_like [] s = (s = [])"
| "sql_like (c # ps) s =
     (if c = CHR ''%'' then sql_like ps s \<or> (case s of [] \<Rightarrow> False | _ # xs \<Rightarrow> sql_like (c # ps) xs)
      else if c = backslash
      then (case (ps, s) of (d # ps', x # xs) \<Rightarrow> ascii_lower x = ascii_lower d \<and> sql_like ps' xs | _ \<Rightarrow> False)
      else (case s of
              [] \<Rightarrow> False
            | x # xs \<Rightarrow> (c = CHR ''_'' \<or> ascii_lower x = ascii_lower c) \<and> sql_like ps xs))"
  by pat_completeness auto
termination
  by (relation "measure (\<lambda>(ps, s). length ps + length s)") auto

definition escapeLike :: "string \<Rightarrow> string" where
  "escapeLike s =
     concat (map (\<lambda>c. if c = backslash \<or> c = CHR ''%'' \<or> c = CHR ''_'' then [backslash, c] else [c]) s)"

text \<open>The rows under a directory, as the catalog selects them.\<close>

definition in_subtree :: "string \<Rightarrow> string \<Rightarrow> bool" where
  "in_subtree dir path \<longleftrightarrow> path = dir \<or> sql_like (escapeLike dir @ ''/%'') path"

section \<open>What cleaning and matching do\<close>

declare sql_like.simps [simp del]

lemma split_slash_nonempty [simp]: "split_slash p \<noteq> []"
  by (cases p) (auto split: list.splits)

lemma split_slash_elems: "w \<in> set (split_slash p) \<Longrightarrow> slash \<notin> set w"
proof (induction p arbitrary: w)
  case (Cons c p)
  then show ?case by (cases "split_slash p") (auto split: if_splits)
qed simp

lemma split_slash_word: "slash \<notin> set w \<Longrightarrow> split_slash w = [w]"
  by (induction w) auto

lemma split_slash_append: "slash \<notin> set w \<Longrightarrow> split_slash (w @ slash # p) = w # split_slash p"
  by (induction w) auto

lemma split_join: "ws \<noteq> [] \<Longrightarrow> \<forall>w \<in> set ws. slash \<notin> set w \<Longrightarrow> split_slash (join_slash ws) = ws"
  by (induction ws rule: join_slash.induct) (auto simp: split_slash_word split_slash_append)

definition proper :: "string \<Rightarrow> bool" where
  "proper w \<longleftrightarrow> w \<noteq> [] \<and> w \<noteq> ''.'' \<and> w \<noteq> ''..'' \<and> slash \<notin> set w"

lemma clean_parts_proper:
  "list_all proper acc \<Longrightarrow> \<forall>w \<in> set ws. slash \<notin> set w \<Longrightarrow> list_all proper (clean_parts acc ws)"
proof (induction acc ws rule: clean_parts.induct)
  case (2 acc w ws)
  then show ?case by (cases acc) (auto simp: proper_def)
qed simp

lemma clean_parts_id: "list_all proper ws \<Longrightarrow> clean_parts acc ws = rev acc @ ws"
  by (induction ws arbitrary: acc) (auto simp: proper_def)

lemma cleanPath_eq: "cleanPath p = join_slash (clean_parts [] (split_slash p))"
proof -
  let ?ws = "clean_parts [] (split_slash p)"
  have "list_all proper ?ws" by (rule clean_parts_proper) (auto dest: split_slash_elems)
  then have "join_slash ?ws \<noteq> ''.''"
    by (cases ?ws rule: join_slash.cases) (auto simp: proper_def append_eq_Cons_conv Cons_eq_append_conv)
  then show ?thesis by (simp add: cleanPath_def path_Clean_rooted_def trim_prefix_def Let_def)
qed

definition canonical :: "string \<Rightarrow> bool" where
  "canonical p \<longleftrightarrow> (\<exists>ws. list_all proper ws \<and> p = join_slash ws)"

lemma cleanPath_canonical: "canonical (cleanPath p)"
  unfolding canonical_def cleanPath_eq
  by (intro exI [of _ "clean_parts [] (split_slash p)"] conjI clean_parts_proper refl) (auto dest: split_slash_elems)

lemma cleanPath_of_canonical: "canonical p \<Longrightarrow> cleanPath p = p"
proof -
  assume "canonical p"
  then obtain ws where ws: "list_all proper ws" "p = join_slash ws" by (auto simp: canonical_def)
  show ?thesis
  proof (cases "ws = []")
    case False
    then have "split_slash p = ws" using ws by (auto simp: list_all_iff proper_def intro!: split_join)
    with ws show ?thesis by (simp add: cleanPath_eq clean_parts_id)
  qed (simp add: ws cleanPath_eq)
qed

end
