(* ===== verification/Rose_Namespace.thy ===== *)
theory Rose_Namespace
  imports Rose_Catalog Rose_Paths "HOL-Library.Char_ord" "HOL-Library.List_Lexorder"
begin

text \<open>
  The live namespace (\<^verbatim>\<open>meta/namespace.go\<close>): directories and file heads, addressed by canonical path.
  Reads are functions of the database; operations that write are transactions on it.
\<close>

section \<open>Chunk blobs\<close>

text \<open>
  A file version stores its chunks as one blob, 15 bytes of hash and 4 bytes of length each; a trailing
  partial entry is ignored. The sizes add up in an \<^verbatim>\<open>int64\<close>: a blob would need over \<open>2 ^ 31\<close> entries to
  overflow it.
\<close>

function chunkHashes :: "bytes \<Rightarrow> bytes list" where
  "chunkHashes chunks = (if 19 \<le> length chunks then take 15 chunks # chunkHashes (drop 19 chunks) else [])"
  by pat_completeness auto
termination
  by (relation "measure length") auto

function chunksLogicalSize :: "bytes \<Rightarrow> int" where
  "chunksLogicalSize chunks =
     (if 19 \<le> length chunks then int (le_get (bslice 15 19 chunks)) + chunksLogicalSize (drop 19 chunks) else 0)"
  by pat_completeness auto
termination
  by (relation "measure length") auto

declare chunkHashes.simps [simp del] chunksLogicalSize.simps [simp del]

section \<open>Reading the namespace\<close>

record DirEntry =
  e_Name :: string
  e_IsDir :: bool
  e_Size :: int
  e_Mtime :: int

definition head_at :: "string \<Rightarrow> DB \<Rightarrow> head_row option" where
  "head_at path db = lookup (\<lambda>h. h_path h = path) (t_head db)"

definition dir_at :: "string \<Rightarrow> DB \<Rightarrow> dir_row option" where
  "dir_at path db = lookup (\<lambda>d. d_path d = path) (t_dir db)"

definition file_by_id :: "int \<Rightarrow> DB \<Rightarrow> file_row option" where
  "file_by_id i db = lookup (\<lambda>f. f_id f = i) (t_file db)"

definition StatPath :: "string \<Rightarrow> DB \<Rightarrow> DirEntry option" where
  "StatPath path db =
     (let path = cleanPath path; name = snd (splitPath path) in
      if path = [] then Some \<lparr>e_Name = [], e_IsDir = True, e_Size = 0, e_Mtime = 0\<rparr>
      else case Option.bind (head_at path db) (\<lambda>h. map_option (\<lambda>f. (h, f)) (file_by_id (h_file h) db)) of
        Some (h, f) \<Rightarrow>
          Some \<lparr>e_Name = name, e_IsDir = False, e_Size = chunksLogicalSize (f_chunks f), e_Mtime = h_mtime h\<rparr>
      | None \<Rightarrow>
          map_option (\<lambda>d. \<lparr>e_Name = name, e_IsDir = True, e_Size = 0, e_Mtime = d_mtime d\<rparr>) (dir_at path db))"

definition dir_entries :: "string \<Rightarrow> DB \<Rightarrow> DirEntry list" where
  "dir_entries dir db =
     map (\<lambda>d. \<lparr>e_Name = d_name d, e_IsDir = True, e_Size = 0, e_Mtime = d_mtime d\<rparr>)
       (sort_key d_name (filter (\<lambda>d. d_parent d = dir) (t_dir db)))"

definition file_entries :: "string \<Rightarrow> DB \<Rightarrow> DirEntry list" where
  "file_entries dir db =
     concat (map (\<lambda>h. case file_by_id (h_file h) db of
         None \<Rightarrow> []
       | Some f \<Rightarrow> [\<lparr>e_Name = h_name h, e_IsDir = False, e_Size = chunksLogicalSize (f_chunks f), e_Mtime = h_mtime h\<rparr>])
       (sort_key h_name (filter (\<lambda>h. h_parent h = dir) (t_head db))))"

definition ListDir :: "string \<Rightarrow> DB \<Rightarrow> DirEntry list result" where
  "ListDir dir db =
     (let dir = cleanPath dir; out = dir_entries dir db @ file_entries dir db in
      if dir = [] then Inr out
      else case StatPath dir db of
        None \<Rightarrow> Inl (Err ''list directory: path not found'')
      | Some entry \<Rightarrow>
          if e_IsDir entry then Inr out else Inl (Err ''list directory: path is a regular file''))"

section \<open>Changing the namespace\<close>

text \<open>\<^verbatim>\<open>INSERT INTO dir ... ON CONFLICT(path) DO NOTHING\<close>.\<close>

definition insert_dir :: "string \<Rightarrow> int \<Rightarrow> DB \<Rightarrow> DB" where
  "insert_dir path mtime db =
     (if dir_at path db = None
      then db\<lparr>t_dir := t_dir db @ [\<lparr>d_path = path, d_parent = fst (splitPath path), d_name = snd (splitPath path), d_mtime = mtime\<rparr>]\<rparr>
      else db)"

fun ensure_each :: "string list \<Rightarrow> int \<Rightarrow> (DB, unit) io" where
  "ensure_each [] mtime = ret ()"
| "ensure_each (dir # dirs) mtime =
     bind (gets (head_at dir)) (\<lambda>h.
     case h of
       Some _ \<Rightarrow> raise (Err ''file cannot be used as a parent directory'')
     | None \<Rightarrow> seq (modify (insert_dir dir mtime)) (ensure_each dirs mtime))"

definition ensureDirs :: "string \<Rightarrow> int \<Rightarrow> (DB, unit) io" where
  "ensureDirs path mtime = ensure_each (ancestorsOf path) mtime"

definition Mkdir :: "string \<Rightarrow> int \<Rightarrow> (DB, unit) io" where
  "Mkdir path mtime =
     (let path = cleanPath path in
      if path = [] then ret ()
      else transact (
        bind (gets (head_at path)) (\<lambda>h.
        if h \<noteq> None then raise (Err ''mkdir: a file exists at that path'')
        else seq (ensureDirs path mtime) (modify (insert_dir path mtime)))))"

definition SetMtime :: "string \<Rightarrow> int \<Rightarrow> DB \<Rightarrow> DB \<times> bool" where
  "SetMtime path mtime db =
     (let path = cleanPath path in
      if path = [] then (db, True)
      else if head_at path db \<noteq> None
      then (db\<lparr>t_head := update (\<lambda>h. h_path h = path) (\<lambda>h. h\<lparr>h_mtime := mtime\<rparr>) (t_head db)\<rparr>, True)
      else (db\<lparr>t_dir := update (\<lambda>d. d_path d = path) (\<lambda>d. d\<lparr>d_mtime := mtime\<rparr>) (t_dir db)\<rparr>, dir_at path db \<noteq> None))"

section \<open>Write operations that namespace changes cancel\<close>

definition WriteOpPrepared :: string where "WriteOpPrepared = ''prepared''"
definition WriteOpCommitted :: string where "WriteOpCommitted = ''committed''"
definition WriteOpAbandoned :: string where "WriteOpAbandoned = ''abandoned''"
definition WriteOpCancelled :: string where "WriteOpCancelled = ''cancelled''"
definition WriteOpExpired :: string where "WriteOpExpired = ''expired''"

text \<open>
  The two statements by which a namespace change ends the prepared writes of the paths it removes: their
  leases go, then their rows become cancelled.
\<close>

definition prepared_under :: "(string \<Rightarrow> bool) \<Rightarrow> write_op_row \<Rightarrow> bool" where
  "prepared_under P w \<longleftrightarrow> w_state w = WriteOpPrepared \<and> P (w_path w)"

definition cancel_prepared :: "(string \<Rightarrow> bool) \<Rightarrow> DB \<Rightarrow> DB" where
  "cancel_prepared P db =
     (let db1 = delete_leases (\<lambda>l. list_ex (\<lambda>w. w_id w = l_op l \<and> prepared_under P w) (t_write_op db)) db
      in db1\<lparr>t_write_op := update (prepared_under P) (\<lambda>w. w\<lparr>w_state := WriteOpCancelled\<rparr>) (t_write_op db1)\<rparr>)"

definition has_child :: "string \<Rightarrow> DB \<Rightarrow> bool" where
  "has_child path db \<longleftrightarrow> list_ex (\<lambda>h. h_parent h = path) (t_head db) \<or> list_ex (\<lambda>d. d_parent d = path) (t_dir db)"

definition Rmdir :: "string \<Rightarrow> (DB, unit) io" where
  "Rmdir path =
     (let path = cleanPath path in
      if path = [] then raise (Err ''rmdir: cannot remove the namespace root'')
      else transact (
        seq (modify (cancel_prepared (in_subtree path)))
       (bind (gets (has_child path)) (\<lambda>child.
        if child then raise (Err ''rmdir: directory not empty'')
        else modify (\<lambda>db. db\<lparr>t_dir := delete (\<lambda>d. d_path d = path) (t_dir db)\<rparr>)))))"

fun backfill_each :: "string list \<Rightarrow> (DB, unit) io" where
  "backfill_each [] = ret ()"
| "backfill_each (p # ps) =
     seq (modify (\<lambda>db. db\<lparr>t_head := update (\<lambda>h. h_path h = p)
            (\<lambda>h. h\<lparr>h_parent := fst (splitPath p), h_name := snd (splitPath p)\<rparr>) (t_head db)\<rparr>))
    (seq (ensureDirs p 0) (backfill_each ps))"

definition backfillNamespace :: "(DB, unit) io" where
  "backfillNamespace db =
     (let paths = map h_path (filter (\<lambda>h. h_name h = [] \<and> h_path h \<noteq> []) (t_head db)) in
      if paths = [] then (db, Inr ()) else transact (backfill_each paths) db)"

section \<open>Snapshots of the namespace\<close>

definition snapshotStat :: "int \<Rightarrow> string \<Rightarrow> DB \<Rightarrow> DirEntry option result" where
  "snapshotStat i path db =
     (if \<not> list_ex (\<lambda>s. s_id s = i) (t_snapshot db) then Inl (Err ''snapshot not found'')
      else let path = cleanPath path; name = snd (splitPath path) in
        if path = [] then Inr (Some \<lparr>e_Name = [], e_IsDir = True, e_Size = 0, e_Mtime = 0\<rparr>)
        else case Option.bind (lookup (\<lambda>s. sf_snapshot s = i \<and> sf_path s = path) (t_snapshot_file db))
                (\<lambda>s. map_option (\<lambda>f. (s, f)) (file_by_id (sf_file s) db)) of
          Some (s, f) \<Rightarrow>
            Inr (Some \<lparr>e_Name = name, e_IsDir = False, e_Size = chunksLogicalSize (f_chunks f), e_Mtime = sf_mtime s\<rparr>)
        | None \<Rightarrow>
            Inr (map_option (\<lambda>d. \<lparr>e_Name = name, e_IsDir = True, e_Size = 0, e_Mtime = sd_mtime d\<rparr>)
              (lookup (\<lambda>d. sd_snapshot d = i \<and> sd_path d = path) (t_snapshot_dir db))))"

definition StatSnapshotPath :: "int \<Rightarrow> string \<Rightarrow> DB \<Rightarrow> DirEntry option result" where
  "StatSnapshotPath i path db = snapshotStat i path db"

definition ListSnapshotDir :: "int \<Rightarrow> string \<Rightarrow> DB \<Rightarrow> DirEntry list result" where
  "ListSnapshotDir i path db =
     (case snapshotStat i path db of
        Inl e \<Rightarrow> Inl e
      | Inr None \<Rightarrow> Inl (Err ''snapshot directory not found'')
      | Inr (Some e) \<Rightarrow>
          if \<not> e_IsDir e then Inl (Err ''snapshot directory not found'')
          else Inr (sort_key e_Name (
            map (\<lambda>d. \<lparr>e_Name = sd_name d, e_IsDir = True, e_Size = 0, e_Mtime = sd_mtime d\<rparr>)
              (filter (\<lambda>d. sd_snapshot d = i \<and> sd_parent d = cleanPath path) (t_snapshot_dir db))
            @ concat (map (\<lambda>s. case file_by_id (sf_file s) db of
                  None \<Rightarrow> []
                | Some f \<Rightarrow> [\<lparr>e_Name = sf_name s, e_IsDir = False, e_Size = chunksLogicalSize (f_chunks f), e_Mtime = sf_mtime s\<rparr>])
                (filter (\<lambda>s. sf_snapshot s = i \<and> sf_parent s = cleanPath path) (t_snapshot_file db))))))"

end
