(* ===== verification/Rose_Publish.thy ===== *)
theory Rose_Publish
  imports Rose_Namespace
begin

text \<open>
  File versions and what keeps them (\<^verbatim>\<open>meta/queries.go\<close>, \<^verbatim>\<open>meta/write_ops.go\<close>,
  \<^verbatim>\<open>meta/write_result_retention.go\<close>, \<^verbatim>\<open>meta/snapshot_retention.go\<close>, \<^verbatim>\<open>meta/version_gc.go\<close>): chunk
  references, publication, garbage collection, snapshots, unlink and rename, write operations and their
  leases.

  The clock (\<^verbatim>\<open>time.Now\<close>) is an argument of the operations that read it. \<open>publicationFault\<close> is the
  catalog's injected checkpoint function; with no function installed it returns no error.
\<close>

section \<open>Chunk references\<close>

record ChunkPlacement =
  cp_Hash :: bytes
  cp_VlogID :: int
  cp_VaddrOffset :: int
  cp_LogicalLen :: int
  cp_CompressedLen :: int

definition maxChunkUpsertRows :: nat where
  "maxChunkUpsertRows = 150"

text \<open>The loops that cut a list into batches of at most \<open>n\<close>.\<close>

function batches :: "nat \<Rightarrow> 'a list \<Rightarrow> 'a list list" where
  "batches n xs = (if xs = [] \<or> n = 0 then [] else take n xs # batches n (drop n xs))"
  by pat_completeness auto
termination
  by (relation "measure (length \<circ> snd)") auto

declare batches.simps [simp del]

definition chunk_at :: "bytes \<Rightarrow> DB \<Rightarrow> chunk_row option" where
  "chunk_at hash db = lookup (\<lambda>c. c_hash c = hash) (t_chunk db)"

definition upsert_chunk :: "ChunkPlacement \<Rightarrow> DB \<Rightarrow> DB" where
  "upsert_chunk p db =
     (if chunk_at (cp_Hash p) db = None
      then db\<lparr>t_chunk := t_chunk db @
             [\<lparr>c_hash = cp_Hash p, c_refcount = 1, c_vlog = cp_VlogID p, c_vaddr = cp_VaddrOffset p,
               c_logical = cp_LogicalLen p, c_compressed = cp_CompressedLen p\<rparr>]\<rparr>
      else db\<lparr>t_chunk := update (\<lambda>c. c_hash c = cp_Hash p)
             (\<lambda>c. \<lparr>c_hash = c_hash c, c_refcount = c_refcount c + 1,
                   c_vlog = (if c_refcount c = 0 then cp_VlogID p else c_vlog c),
                   c_vaddr = (if c_refcount c = 0 then cp_VaddrOffset p else c_vaddr c),
                   c_logical = (if c_refcount c = 0 then cp_LogicalLen p else c_logical c),
                   c_compressed = (if c_refcount c = 0 then cp_CompressedLen p else c_compressed c)\<rparr>) (t_chunk db)\<rparr>)"

definition upsertChunkRefs :: "ChunkPlacement list \<Rightarrow> DB \<Rightarrow> DB" where
  "upsertChunkRefs placements db = fold (fold upsert_chunk) (batches maxChunkUpsertRows placements) db"

definition adjustChunkRefs :: "bytes \<Rightarrow> int \<Rightarrow> DB \<Rightarrow> DB" where
  "adjustChunkRefs chunks delta db =
     fold (\<lambda>hash db. db\<lparr>t_chunk := update (\<lambda>c. c_hash c = hash) (\<lambda>c. c\<lparr>c_refcount := c_refcount c + delta\<rparr>) (t_chunk db)\<rparr>)
       (chunkHashes chunks) db"

definition fileChunks :: "int \<Rightarrow> (DB, bytes) io" where
  "fileChunks fileID =
     of_result (\<lambda>db. case file_by_id fileID db of None \<Rightarrow> Inl ErrNoRows | Some f \<Rightarrow> Inr (f_chunks f))"

text \<open>The pair of calls every removal or addition of a reference to a version makes.\<close>

definition adjust_version :: "int \<Rightarrow> int \<Rightarrow> (DB, unit) io" where
  "adjust_version fileID delta = bind (fileChunks fileID) (\<lambda>chunks. modify (adjustChunkRefs chunks delta))"

section \<open>Publication\<close>

definition chunk_entry :: "ChunkPlacement \<Rightarrow> bytes" where
  "chunk_entry p = cp_Hash p @ le_put 4 (nat (cp_LogicalLen p mod 2 ^ 32))"

definition insert_file :: "string \<Rightarrow> int \<Rightarrow> bytes \<Rightarrow> (DB, int) io" where
  "insert_file path mtime chunks db =
     (let i = file_seq db + 1
      in (db\<lparr>t_file := t_file db @ [\<lparr>f_id = i, f_path = path, f_mtime = mtime, f_chunks = chunks\<rparr>], file_seq := i\<rparr>, Inr i))"

text \<open>\<^verbatim>\<open>INSERT INTO file_head ... ON CONFLICT(path) DO UPDATE\<close>.\<close>

definition upsert_head :: "string \<Rightarrow> int \<Rightarrow> int \<Rightarrow> DB \<Rightarrow> DB" where
  "upsert_head path fileID mtime db =
     (let row = \<lparr>h_path = path, h_file = fileID, h_parent = fst (splitPath path), h_name = snd (splitPath path), h_mtime = mtime\<rparr>
      in if head_at path db = None then db\<lparr>t_head := t_head db @ [row]\<rparr>
         else db\<lparr>t_head := update (\<lambda>h. h_path h = path) (\<lambda>_. row) (t_head db)\<rparr>)"

definition publishFileVersion :: "string \<Rightarrow> int \<Rightarrow> ChunkPlacement list \<Rightarrow> (DB, int) io" where
  "publishFileVersion path mtime placements =
     (let path = cleanPath path in
      if path = [] then raise (Err ''cannot publish a file at the namespace root'')
      else bind (gets (dir_at path)) (\<lambda>isDir.
      if isDir \<noteq> None then raise (Err ''cannot publish file over directory'')
      else let chunks = concat (map chunk_entry placements) in
        bind (gets (head_at path)) (\<lambda>old.
        seq (case old of None \<Rightarrow> ret () | Some h \<Rightarrow> adjust_version (h_file h) (- 1))
       (seq (modify (upsertChunkRefs placements))
       (bind (insert_file path mtime chunks) (\<lambda>i.
        seq (modify (upsert_head path i mtime))
       (seq (ensureDirs path mtime)
       (ret i))))))))"

definition CommitFile :: "string \<Rightarrow> int \<Rightarrow> ChunkPlacement list \<Rightarrow> (DB, int) io" where
  "CommitFile path mtime placements = transact (publishFileVersion path mtime placements)"

section \<open>Reclaiming chunks\<close>

definition placement_of :: "chunk_row \<Rightarrow> ChunkPlacement" where
  "placement_of c =
     \<lparr>cp_Hash = c_hash c, cp_VlogID = c_vlog c, cp_VaddrOffset = c_vaddr c, cp_LogicalLen = c_logical c,
      cp_CompressedLen = c_compressed c\<rparr>"

definition GCChunks :: "bytes list \<Rightarrow> DB \<Rightarrow> DB \<times> ChunkPlacement list" where
  "GCChunks pinned db =
     (let dead = map placement_of (filter (\<lambda>c. c_refcount c \<le> 0) (t_chunk db));
          collected = filter (\<lambda>p. cp_Hash p \<notin> set pinned) dead
      in (if pinned = [] then db\<lparr>t_chunk := delete (\<lambda>c. c_refcount c \<le> 0) (t_chunk db)\<rparr>
          else fold (\<lambda>batch db. db\<lparr>t_chunk := delete (\<lambda>c. c_hash c \<in> cp_Hash ` set batch) (t_chunk db)\<rparr>)
                 (batches maxChunkUpsertRows collected) db,
          collected))"

definition VlogHoldsAnyHash :: "int \<Rightarrow> bytes list \<Rightarrow> DB \<Rightarrow> bool" where
  "VlogHoldsAnyHash vlogID hashes db =
     list_ex (\<lambda>batch. list_ex (\<lambda>c. c_vlog c = vlogID \<and> c_hash c \<in> set batch) (t_chunk db))
       (batches maxChunkUpsertRows hashes)"

section \<open>Reading versions\<close>

definition OpenFile :: "string \<Rightarrow> DB \<Rightarrow> int" where
  "OpenFile path db = (case head_at path db of None \<Rightarrow> 0 | Some h \<Rightarrow> h_file h)"

text \<open>The rows the batched queries find, by hash.\<close>

definition chunks_map :: "bytes list \<Rightarrow> DB \<Rightarrow> bytes \<Rightarrow> chunk_row option" where
  "chunks_map hashes db =
     fold (\<lambda>batch m. fold (\<lambda>c m. m(c_hash c := Some c)) (filter (\<lambda>c. c_hash c \<in> set batch) (t_chunk db)) m)
       (batches 500 hashes) (\<lambda>_. None)"

function placements_from :: "(bytes \<Rightarrow> chunk_row option) \<Rightarrow> bytes \<Rightarrow> ChunkPlacement list result" where
  "placements_from m blob =
     (if 19 \<le> length blob
      then case m (take 15 blob) of
             None \<Rightarrow> Inl (Err ''placement for chunk not found'')
           | Some c \<Rightarrow>
               (case placements_from m (drop 19 blob) of
                  Inl e \<Rightarrow> Inl e
                | Inr out \<Rightarrow>
                    Inr (\<lparr>cp_Hash = take 15 blob, cp_VlogID = c_vlog c, cp_VaddrOffset = c_vaddr c,
                          cp_LogicalLen = int (le_get (bslice 15 19 blob)), cp_CompressedLen = c_compressed c\<rparr> # out))
      else Inr [])"
  by pat_completeness auto
termination
  by (relation "measure (length \<circ> snd)") auto

declare placements_from.simps [simp del]

definition FileVersionChunks :: "int \<Rightarrow> DB \<Rightarrow> ChunkPlacement list result" where
  "FileVersionChunks fileID db =
     (if fileID = 0 then Inr []
      else case file_by_id fileID db of
        None \<Rightarrow> Inl ErrNoRows
      | Some f \<Rightarrow> placements_from (chunks_map (remdups (chunkHashes (f_chunks f))) db) (f_chunks f))"

definition FileVersionMtime :: "int \<Rightarrow> DB \<Rightarrow> int result" where
  "FileVersionMtime fileID db = (case file_by_id fileID db of None \<Rightarrow> Inl ErrNoRows | Some f \<Rightarrow> Inr (f_mtime f))"

definition ChunkByHash :: "bytes \<Rightarrow> DB \<Rightarrow> ChunkPlacement option" where
  "ChunkByHash hash db = map_option placement_of (chunk_at hash db)"

definition LiveChunkByHash :: "bytes \<Rightarrow> DB \<Rightarrow> ChunkPlacement option" where
  "LiveChunkByHash hash db =
     map_option placement_of (lookup (\<lambda>c. c_hash c = hash \<and> 0 < c_refcount c) (t_chunk db))"

definition GetFileSize :: "string \<Rightarrow> DB \<Rightarrow> int" where
  "GetFileSize path db =
     (case Option.bind (head_at path db) (\<lambda>h. file_by_id (h_file h) db) of
        None \<Rightarrow> 0
      | Some f \<Rightarrow> chunksLogicalSize (f_chunks f))"

definition chunkRecordHeaderSize :: int where
  "chunkRecordHeaderSize = 64"

record ChunkInfo =
  ci_Hash :: bytes
  ci_VaddrOffset :: int
  ci_LogicalLen :: int

definition GetChunksInVlogRange :: "int \<Rightarrow> int \<Rightarrow> int \<Rightarrow> DB \<Rightarrow> ChunkInfo list" where
  "GetChunksInVlogRange vlogID startVaddr endVaddr db =
     map (\<lambda>c. \<lparr>ci_Hash = c_hash c, ci_VaddrOffset = c_vaddr c, ci_LogicalLen = c_logical c\<rparr>)
       (sort_key c_vaddr (filter (\<lambda>c. c_vlog c = vlogID \<and>
            startVaddr < c_vaddr c + chunkRecordHeaderSize + c_logical c \<and>
            c_vaddr c + chunkRecordHeaderSize < endVaddr) (t_chunk db)))"

section \<open>Snapshots\<close>

definition snapshot_head :: "int \<Rightarrow> head_row \<Rightarrow> (DB, unit) io" where
  "snapshot_head i h =
     seq (modify (\<lambda>db. db\<lparr>t_snapshot_file := t_snapshot_file db @
            [\<lparr>sf_snapshot = i, sf_path = h_path h, sf_parent = fst (splitPath (h_path h)),
              sf_name = snd (splitPath (h_path h)), sf_file = h_file h, sf_mtime = h_mtime h\<rparr>]\<rparr>))
         (adjust_version (h_file h) 1)"

fun for_each :: "('a \<Rightarrow> (DB, unit) io) \<Rightarrow> 'a list \<Rightarrow> (DB, unit) io" where
  "for_each f [] = ret ()"
| "for_each f (x # xs) = seq (f x) (for_each f xs)"

definition CreateSnapshot :: "string \<Rightarrow> int \<Rightarrow> (DB, int) io" where
  "CreateSnapshot name createdAt = transact (
     bind (gets (\<lambda>db. lookup (\<lambda>s. s_name s = name) (t_snapshot db))) (\<lambda>existing.
     case existing of
       Some s \<Rightarrow> ret (s_id s)
     | None \<Rightarrow>
         bind (gets (\<lambda>db. snapshot_seq db + 1)) (\<lambda>i.
         seq (modify (\<lambda>db. db\<lparr>t_snapshot := t_snapshot db @ [\<lparr>s_id = i, s_name = name, s_created = createdAt\<rparr>], snapshot_seq := i\<rparr>))
        (bind (gets t_head) (\<lambda>heads.
         seq (for_each (snapshot_head i) heads)
        (seq (modify (\<lambda>db. db\<lparr>t_snapshot_dir := t_snapshot_dir db @
               map (\<lambda>d. \<lparr>sd_snapshot = i, sd_path = d_path d, sd_parent = d_parent d, sd_name = d_name d, sd_mtime = d_mtime d\<rparr>)
                 (t_dir db)\<rparr>))
        (ret i)))))))"

text \<open>Deleting a snapshot row takes its file and directory rows with it (\<^verbatim>\<open>ON DELETE CASCADE\<close>).\<close>

definition drop_snapshot :: "int \<Rightarrow> DB \<Rightarrow> DB" where
  "drop_snapshot i db =
     (if list_ex (\<lambda>s. s_id s = i) (t_snapshot db)
      then db\<lparr>t_snapshot := delete (\<lambda>s. s_id s = i) (t_snapshot db),
              t_snapshot_file := delete (\<lambda>s. sf_snapshot s = i) (t_snapshot_file db),
              t_snapshot_dir := delete (\<lambda>d. sd_snapshot d = i) (t_snapshot_dir db)\<rparr>
      else db)"

definition deleteSnapshotTx :: "int \<Rightarrow> (DB, unit) io" where
  "deleteSnapshotTx i =
     bind (gets (\<lambda>db. filter (\<lambda>s. sf_snapshot s = i) (t_snapshot_file db))) (\<lambda>rows.
     seq (for_each (\<lambda>s. adjust_version (sf_file s) (- 1)) rows)
         (modify (drop_snapshot i)))"

definition DeleteSnapshot :: "int \<Rightarrow> (DB, unit) io" where
  "DeleteSnapshot i = transact (deleteSnapshotTx i)"

definition OpenSnapshotFile :: "int \<Rightarrow> string \<Rightarrow> DB \<Rightarrow> int" where
  "OpenSnapshotFile i path db =
     (case lookup (\<lambda>s. sf_snapshot s = i \<and> sf_path s = path) (t_snapshot_file db) of None \<Rightarrow> 0 | Some s \<Rightarrow> sf_file s)"

definition SnapshotFileMtime :: "int \<Rightarrow> string \<Rightarrow> DB \<Rightarrow> int result" where
  "SnapshotFileMtime i path db =
     (case lookup (\<lambda>s. sf_snapshot s = i \<and> sf_path s = path) (t_snapshot_file db) of
        None \<Rightarrow> Inl ErrNoRows
      | Some s \<Rightarrow> Inr (sf_mtime s))"

definition listSnapshots :: "DB \<Rightarrow> snapshot_row list" where
  "listSnapshots db = sort_key (\<lambda>s. - s_created s) (sort_key (\<lambda>s. - s_id s) (t_snapshot db))"

definition SetSnapshotRetention :: "retention_row option \<Rightarrow> (DB, unit) io" where
  "SetSnapshotRetention p =
     (case p of
        None \<Rightarrow> modify (\<lambda>db. db\<lparr>t_retention := None\<rparr>)
      | Some r \<Rightarrow>
          if continuous_ns r < 0 \<or> daily_ns r < continuous_ns r \<or> weekly_ns r < daily_ns r
          then raise (Err ''snapshot retention requires 0 <= continuous <= daily <= weekly'')
          else modify (\<lambda>db. db\<lparr>t_retention := Some r\<rparr>))"

text \<open>
  Go's integer division truncates towards zero, which the bucket function corrects; \<^verbatim>\<open>Time.Sub\<close>
  saturates at the range of a \<^verbatim>\<open>Duration\<close>. Times are in nanoseconds since the epoch.
\<close>

definition go_quot :: "int \<Rightarrow> int \<Rightarrow> int" where
  "go_quot n width = (if n < 0 then - ((- n) div width) else n div width)"

definition go_rem :: "int \<Rightarrow> int \<Rightarrow> int" where
  "go_rem n width = n - width * go_quot n width"

definition bucket :: "int \<Rightarrow> int \<Rightarrow> int" where
  "bucket n width = (let q = go_quot n width in if n < 0 \<and> go_rem n width \<noteq> 0 then q - 1 else q)"

definition time_Sub :: "int \<Rightarrow> int \<Rightarrow> int" where
  "time_Sub t u = max (- (2 ^ 63)) (min MaxInt64 (t - u))"

definition day_ns :: int where "day_ns = 24 * 3600 * 1000000000"
definition week_ns :: int where "week_ns = 7 * day_ns"

fun expire_loop :: "retention_row \<Rightarrow> int \<Rightarrow> snapshot_row list \<Rightarrow> int list \<Rightarrow> int list \<Rightarrow> int list" where
  "expire_loop p now [] days weeks = []"
| "expire_loop p now (s # ss) days weeks =
     (if now < s_created s then expire_loop p now ss days weeks
      else let age = time_Sub now (s_created s);
               day = bucket (s_created s) day_ns;
               week = bucket (s_created s) week_ns;
               keep = age \<le> continuous_ns p \<or> (age \<le> daily_ns p \<and> day \<notin> set days) \<or> (age \<le> weekly_ns p \<and> week \<notin> set weeks);
               rest = expire_loop p now ss (day # days) (week # weeks)
           in if keep then rest else s_id s # rest)"

definition ExpireSnapshots :: "int \<Rightarrow> (DB, int list) io" where
  "ExpireSnapshots now = transact (
     bind (gets t_retention) (\<lambda>p.
     case p of
       None \<Rightarrow> ret []
     | Some p \<Rightarrow>
         bind (gets (\<lambda>db. expire_loop p now (listSnapshots db) [] [])) (\<lambda>expired.
         seq (for_each deleteSnapshotTx expired) (ret expired))))"

section \<open>Unlink and rename\<close>

definition UnlinkFile :: "string \<Rightarrow> (DB, unit) io" where
  "UnlinkFile path =
     (let path = cleanPath path in transact (
        seq (modify (cancel_prepared ((=) path)))
       (bind (gets (head_at path)) (\<lambda>h.
        case h of
          None \<Rightarrow> ret ()
        | Some h \<Rightarrow>
            seq (adjust_version (h_file h) (- 1))
                (modify (\<lambda>db. db\<lparr>t_head := delete (\<lambda>h. h_path h = path) (t_head db)\<rparr>))))))"

text \<open>
  One \<^verbatim>\<open>UPDATE ... SET path = np, parent = ?, name = ? WHERE path = p\<close> per selected row; \<^verbatim>\<open>path\<close> is the
  primary key, so moving onto another row fails.
\<close>

definition moved_path :: "string \<Rightarrow> string \<Rightarrow> string \<Rightarrow> string" where
  "moved_path oldPath newPath p = newPath @ drop (length oldPath) p"

definition move_dir :: "string \<Rightarrow> string \<Rightarrow> string \<Rightarrow> (DB, unit) io" where
  "move_dir oldPath newPath p =
     (let np = moved_path oldPath newPath p in
      bind (gets (dir_at np)) (\<lambda>clash.
      if clash \<noteq> None \<and> np \<noteq> p then raise constraint_failed
      else modify (\<lambda>db. db\<lparr>t_dir := update (\<lambda>d. d_path d = p)
             (\<lambda>d. d\<lparr>d_path := np, d_parent := fst (splitPath np), d_name := snd (splitPath np)\<rparr>) (t_dir db)\<rparr>)))"

definition move_head :: "string \<Rightarrow> string \<Rightarrow> string \<Rightarrow> (DB, unit) io" where
  "move_head oldPath newPath p =
     (let np = moved_path oldPath newPath p in
      bind (gets (head_at np)) (\<lambda>clash.
      if clash \<noteq> None \<and> np \<noteq> p then raise constraint_failed
      else modify (\<lambda>db. db\<lparr>t_head := update (\<lambda>h. h_path h = p)
             (\<lambda>h. h\<lparr>h_path := np, h_parent := fst (splitPath np), h_name := snd (splitPath np)\<rparr>) (t_head db)\<rparr>)))"

definition rewriteSubtreePaths_dir :: "string \<Rightarrow> string \<Rightarrow> (DB, unit) io" where
  "rewriteSubtreePaths_dir oldPath newPath =
     bind (gets (\<lambda>db. filter (in_subtree oldPath) (map d_path (t_dir db)))) (for_each (move_dir oldPath newPath))"

definition rewriteSubtreePaths_head :: "string \<Rightarrow> string \<Rightarrow> (DB, unit) io" where
  "rewriteSubtreePaths_head oldPath newPath =
     bind (gets (\<lambda>db. filter (in_subtree oldPath) (map h_path (t_head db)))) (for_each (move_head oldPath newPath))"

definition renameDirSubtree :: "int \<Rightarrow> string \<Rightarrow> string \<Rightarrow> (DB, unit) io" where
  "renameDirSubtree now oldPath newPath =
     seq (ensureDirs newPath now)
    (seq (rewriteSubtreePaths_dir oldPath newPath)
         (rewriteSubtreePaths_head oldPath newPath))"

definition rename_dir :: "int \<Rightarrow> string \<Rightarrow> string \<Rightarrow> (DB, unit) io" where
  "rename_dir now oldPath newPath =
     bind (gets (dir_at oldPath)) (\<lambda>isDir.
     if isDir = None then raise ErrNoRows
     else bind (gets (head_at newPath)) (\<lambda>destinationFile.
     if destinationFile \<noteq> None then raise (Err ''cannot replace file with a directory'')
     else bind (gets (dir_at newPath)) (\<lambda>destinationDir.
     seq (if destinationDir = None then ret ()
          else bind (gets (has_child newPath)) (\<lambda>child.
               if child then raise (Err ''cannot replace non-empty directory'')
               else modify (\<lambda>db. db\<lparr>t_dir := delete (\<lambda>d. d_path d = newPath) (t_dir db)\<rparr>)))
         (renameDirSubtree now oldPath newPath))))"

definition rename_head :: "int \<Rightarrow> string \<Rightarrow> string \<Rightarrow> head_row \<Rightarrow> (DB, unit) io" where
  "rename_head now oldPath newPath old =
     bind (gets (dir_at newPath)) (\<lambda>destinationDir.
     if destinationDir \<noteq> None then raise (Err ''cannot replace directory with a file'')
     else bind (gets (head_at newPath)) (\<lambda>replaced.
     seq (case replaced of None \<Rightarrow> ret () | Some h \<Rightarrow> adjust_version (h_file h) (- 1))
    (seq (modify (upsert_head newPath (h_file old) (h_mtime old)))
    (seq (modify (\<lambda>db. db\<lparr>t_head := delete (\<lambda>h. h_path h = oldPath) (t_head db)\<rparr>))
         (ensureDirs newPath now)))))"

definition retarget_prepared :: "string \<Rightarrow> string \<Rightarrow> DB \<Rightarrow> DB" where
  "retarget_prepared oldPath newPath db =
     db\<lparr>t_write_op := update (prepared_under ((=) oldPath)) (\<lambda>w. w\<lparr>w_path := newPath\<rparr>) (t_write_op db)\<rparr>"

definition has_prefix :: "string \<Rightarrow> string \<Rightarrow> bool" where
  "has_prefix s pre \<longleftrightarrow> take (length pre) s = pre"

definition RenameFile :: "int \<Rightarrow> string \<Rightarrow> string \<Rightarrow> (DB, unit) io" where
  "RenameFile now oldPath newPath =
     (let oldPath = cleanPath oldPath; newPath = cleanPath newPath in
      if oldPath = [] \<or> newPath = [] then raise (Err ''cannot rename the namespace root'')
      else if oldPath = newPath
      then bind (gets (StatPath oldPath)) (\<lambda>st. if st = None then raise ErrNoRows else ret ())
      else if has_prefix newPath (oldPath @ ''/'') then raise (Err ''cannot rename into its own subtree'')
      else transact (
        seq (modify (cancel_prepared ((=) newPath)))
       (seq (modify (retarget_prepared oldPath newPath))
       (bind (gets (head_at oldPath)) (\<lambda>old.
        case old of
          None \<Rightarrow> rename_dir now oldPath newPath
        | Some h \<Rightarrow> rename_head now oldPath newPath h)))))"

section \<open>Write operations\<close>

record WriteOp =
  op_ID :: int
  op_IdempotencyKey :: string
  op_Path :: string
  op_State :: string
  op_FileID :: int
  op_AcknowledgedOffset :: int
  op_Tail :: bytes
  op_RetryExpiresAt :: int

definition op_at :: "int \<Rightarrow> DB \<Rightarrow> write_op_row option" where
  "op_at i db = lookup (\<lambda>w. w_id w = i) (t_write_op db)"

definition WriteResultDeadline :: "int \<Rightarrow> DB \<Rightarrow> int" where
  "WriteResultDeadline opID db =
     (case lookup (\<lambda>r. r_op r = opID) (t_result_root db) of None \<Rightarrow> 0 | Some r \<Rightarrow> r_expires r)"

definition WriteOpByKey :: "string \<Rightarrow> DB \<Rightarrow> WriteOp result" where
  "WriteOpByKey key db =
     (case lookup (\<lambda>w. w_key w = key) (t_write_op db) of
        None \<Rightarrow> Inl ErrNoRows
      | Some w \<Rightarrow>
          Inr \<lparr>op_ID = w_id w, op_IdempotencyKey = w_key w, op_Path = w_path w, op_State = w_state w,
               op_FileID = w_file w, op_AcknowledgedOffset = w_ack w, op_Tail = w_tail w,
               op_RetryExpiresAt = WriteResultDeadline (w_id w) db\<rparr>)"

definition CreateWriteOp :: "int \<Rightarrow> string \<Rightarrow> string \<Rightarrow> (DB, WriteOp) io" where
  "CreateWriteOp now key path db =
     (let path = cleanPath path in
      if key = [] \<or> path = [] then (db, Inl (Err ''write operation key and path are required''))
      else if list_ex (\<lambda>w. w_key w = key) (t_write_op db) then (db, WriteOpByKey key db)
      else let i = write_op_seq db + 1 in
        (db\<lparr>t_write_op := t_write_op db @
             [\<lparr>w_id = i, w_key = key, w_path = path, w_state = WriteOpPrepared, w_created = now, w_file = 0, w_ack = 0, w_tail = []\<rparr>],
            write_op_seq := i\<rparr>,
         Inr \<lparr>op_ID = i, op_IdempotencyKey = key, op_Path = path, op_State = WriteOpPrepared, op_FileID = 0,
              op_AcknowledgedOffset = 0, op_Tail = [], op_RetryExpiresAt = 0\<rparr>))"

definition update_prepared :: "int \<Rightarrow> (write_op_row \<Rightarrow> write_op_row) \<Rightarrow> DB \<Rightarrow> DB" where
  "update_prepared i f db =
     db\<lparr>t_write_op := update (\<lambda>w. w_id w = i \<and> w_state w = WriteOpPrepared) f (t_write_op db)\<rparr>"

definition SetWriteOpTail :: "int \<Rightarrow> bytes \<Rightarrow> DB \<Rightarrow> DB" where
  "SetWriteOpTail i tail db = update_prepared i (\<lambda>w. w\<lparr>w_tail := tail\<rparr>) db"

definition RetargetPreparedWriteOp :: "int \<Rightarrow> string \<Rightarrow> (DB, unit) io" where
  "RetargetPreparedWriteOp i path =
     (let path = cleanPath path in
      if path = [] then raise (Err ''write operation path is required'')
      else modify (update_prepared i (\<lambda>w. w\<lparr>w_path := path\<rparr>)))"

definition ClaimVlogLease :: "int \<Rightarrow> int \<Rightarrow> int \<Rightarrow> (DB, unit) io" where
  "ClaimVlogLease vlogID opID ordinal = transact (
     bind (gets (op_at opID)) (\<lambda>w.
     case w of
       None \<Rightarrow> raise ErrNoRows
     | Some w \<Rightarrow>
         if w_state w \<noteq> WriteOpPrepared then raise (Err ''write operation is not prepared'')
         else bind (gets (\<lambda>db. list_ex (\<lambda>l. l_vlog l = vlogID \<or> l_op l = opID \<and> l_ordinal l = ordinal) (t_lease db) \<or>
                               \<not> list_ex (\<lambda>v. v_id v = vlogID) (t_vlog db))) (\<lambda>clash.
              if clash then raise constraint_failed
              else modify (insert_lease \<lparr>l_vlog = vlogID, l_op = opID, l_ordinal = ordinal\<rparr>))))"

definition ReleaseWriteOpLeases :: "int \<Rightarrow> DB \<Rightarrow> DB" where
  "ReleaseWriteOpLeases opID db = delete_leases (\<lambda>l. l_op l = opID) db"

definition WriteOpLeases :: "int \<Rightarrow> DB \<Rightarrow> int list" where
  "WriteOpLeases opID db = map l_vlog (sort_key l_ordinal (filter (\<lambda>l. l_op l = opID) (t_lease db)))"

definition VlogLeased :: "int \<Rightarrow> DB \<Rightarrow> bool" where
  "VlogLeased vlogID db = list_ex (\<lambda>l. l_vlog l = vlogID) (t_lease db)"

definition finishPreparedWriteOp :: "int \<Rightarrow> string \<Rightarrow> DB \<Rightarrow> DB" where
  "finishPreparedWriteOp i state db =
     delete_leases (\<lambda>l. l_op l = i) (update_prepared i (\<lambda>w. w\<lparr>w_state := state\<rparr>) db)"

definition AbandonWriteOp :: "int \<Rightarrow> DB \<Rightarrow> DB" where
  "AbandonWriteOp i = finishPreparedWriteOp i WriteOpAbandoned"

definition CancelWriteOp :: "int \<Rightarrow> DB \<Rightarrow> DB" where
  "CancelWriteOp i = finishPreparedWriteOp i WriteOpCancelled"

definition publicationCheckpoint :: "(string \<Rightarrow> err option) \<Rightarrow> string \<Rightarrow> (DB, unit) io" where
  "publicationCheckpoint publicationFault stage =
     (case publicationFault stage of None \<Rightarrow> ret () | Some e \<Rightarrow> raise e)"

definition commit_body ::
  "(string \<Rightarrow> err option) \<Rightarrow> int \<Rightarrow> string \<Rightarrow> int \<Rightarrow> ChunkPlacement list \<Rightarrow> int \<Rightarrow> (DB, int) io" where
  "commit_body publicationFault opID path mtime placements expiresAt =
     bind (publishFileVersion path mtime placements) (\<lambda>fileID.
     seq (publicationCheckpoint publicationFault ''version-written'')
    (seq (if expiresAt = 0 then ret ()
          else seq (adjust_version fileID 1)
             (bind (gets (\<lambda>db. list_ex (\<lambda>r. r_op r = opID) (t_result_root db) \<or> expiresAt \<le> 0)) (\<lambda>clash.
              if clash then raise constraint_failed
              else modify (\<lambda>db. db\<lparr>t_result_root := t_result_root db @ [\<lparr>r_op = opID, r_file = fileID, r_expires = expiresAt\<rparr>]\<rparr>))))
    (seq (modify (\<lambda>db. db\<lparr>t_write_op := update (\<lambda>w. w_id w = opID)
            (\<lambda>w. w\<lparr>w_state := WriteOpCommitted, w_file := fileID, w_ack := sum_list (map cp_LogicalLen placements), w_tail := []\<rparr>)
            (t_write_op db)\<rparr>))
    (seq (publicationCheckpoint publicationFault ''operation-written'')
    (seq (modify (delete_leases (\<lambda>l. l_op l = opID)))
    (seq (publicationCheckpoint publicationFault ''leases-released'')
         (ret fileID)))))))"

text \<open>The flag records that the transaction committed, which the last checkpoint follows.\<close>

definition commitWriteOpVersion ::
  "(string \<Rightarrow> err option) \<Rightarrow> int \<Rightarrow> string \<Rightarrow> int \<Rightarrow> ChunkPlacement list \<Rightarrow> int \<Rightarrow> (DB, int) io" where
  "commitWriteOpVersion publicationFault opID path mtime placements expiresAt =
     bind (transact (
       bind (gets (op_at opID)) (\<lambda>w.
       case w of
         None \<Rightarrow> raise ErrNoRows
       | Some w \<Rightarrow>
           if w_state w = WriteOpCommitted then ret (w_file w, False)
           else if w_state w \<noteq> WriteOpPrepared then raise (Err ''write operation is not prepared'')
           else bind (commit_body publicationFault opID path mtime placements expiresAt) (\<lambda>fileID. ret (fileID, True)))))
     (\<lambda>(fileID, committed).
       seq (if committed then publicationCheckpoint publicationFault ''committed'' else ret ())
           (ret fileID))"

definition CommitWriteOpVersion ::
  "(string \<Rightarrow> err option) \<Rightarrow> int \<Rightarrow> string \<Rightarrow> int \<Rightarrow> ChunkPlacement list \<Rightarrow> (DB, int) io" where
  "CommitWriteOpVersion publicationFault opID path mtime placements =
     commitWriteOpVersion publicationFault opID path mtime placements 0"

definition CommitWriteOpVersionWithRetention ::
  "(string \<Rightarrow> err option) \<Rightarrow> int \<Rightarrow> string \<Rightarrow> int \<Rightarrow> ChunkPlacement list \<Rightarrow> int \<Rightarrow> (DB, int) io" where
  "CommitWriteOpVersionWithRetention publicationFault opID path mtime placements expiresAt =
     (if expiresAt \<le> 0 then raise (Err ''retry retention deadline must be positive'')
      else commitWriteOpVersion publicationFault opID path mtime placements expiresAt)"

definition ListPreparedWriteOps :: "DB \<Rightarrow> (int \<times> int) list" where
  "ListPreparedWriteOps db =
     map (\<lambda>w. (w_id w, w_created w)) (sort_key w_id (filter (\<lambda>w. w_state w = WriteOpPrepared) (t_write_op db)))"

definition expire_root :: "result_root_row \<Rightarrow> (DB, unit) io" where
  "expire_root r =
     bind (gets (\<lambda>db. list_ex (\<lambda>w. w_id w = r_op r \<and> w_file w = r_file r \<and> w_state w = WriteOpCommitted) (t_write_op db))) (\<lambda>owned.
     if \<not> owned then raise (Err ''retry root does not own its committed result'')
     else seq (modify (\<lambda>db. db\<lparr>t_write_op := update (\<lambda>w. w_id w = r_op r \<and> w_file w = r_file r \<and> w_state w = WriteOpCommitted)
                 (\<lambda>w. w\<lparr>w_state := WriteOpExpired\<rparr>) (t_write_op db)\<rparr>))
         (seq (adjust_version (r_file r) (- 1))
              (modify (\<lambda>db. db\<lparr>t_result_root := delete (\<lambda>x. r_op x = r_op r) (t_result_root db)\<rparr>))))"

definition ExpireWriteResults :: "int \<Rightarrow> (DB, nat) io" where
  "ExpireWriteResults now = transact (
     bind (gets (\<lambda>db. sort_key r_op (filter (\<lambda>r. r_expires r \<le> now) (t_result_root db)))) (\<lambda>roots.
     seq (for_each expire_root roots) (ret (length roots))))"

section \<open>Collecting versions\<close>

definition version_owned :: "DB \<Rightarrow> int \<Rightarrow> bool" where
  "version_owned db i \<longleftrightarrow>
     list_ex (\<lambda>h. h_file h = i) (t_head db) \<or> list_ex (\<lambda>s. sf_file s = i) (t_snapshot_file db) \<or>
     list_ex (\<lambda>r. r_file r = i) (t_result_root db) \<or>
     list_ex (\<lambda>w. w_file w = i \<and> (w_state w = WriteOpPrepared \<or> w_state w = WriteOpCommitted)) (t_write_op db)"

definition GCFileVersions :: "int \<Rightarrow> (DB, nat) io" where
  "GCFileVersions limit =
     (if limit \<le> 0 then raise (Err ''version collection limit must be positive'')
      else bind (gets (\<lambda>db. take (nat limit) (sort (filter (\<lambda>i. \<not> version_owned db i) (map f_id (t_file db)))))) (\<lambda>ids.
           seq (modify (\<lambda>db. db\<lparr>t_file := delete (\<lambda>f. f_id f \<in> set ids) (t_file db)\<rparr>)) (ret (length ids))))"

end
