(* ===== verification/Rose_Placement.thy ===== *)
theory Rose_Placement
  imports Rose_Publish Rose_Uid Rose_Crypto
begin

text \<open>
  Where chunks live (\<^verbatim>\<open>meta/queries.go\<close>, \<^verbatim>\<open>meta/disks.go\<close>, \<^verbatim>\<open>meta/nodes.go\<close>, \<^verbatim>\<open>meta/buckets.go\<close>,
  \<^verbatim>\<open>meta/jobs.go\<close>, \<^verbatim>\<open>meta/catalog.go\<close> and the small files beside them): vlogs and their shards, disks and
  nodes, bucket policies, and the durable maintenance jobs that move chunks and shards.

  Identifiers are \<^verbatim>\<open>uint32\<close> in the code; an insert returns the truncated row id, and rows are found by the
  untruncated one, so the model writes the truncation out where the code does.
\<close>

section \<open>Virtual and physical logs\<close>

definition uint32_of :: "int \<Rightarrow> int" where
  "uint32_of i = i mod 2 ^ 32"

definition vlog_at :: "int \<Rightarrow> DB \<Rightarrow> vlog_row option" where
  "vlog_at i db = lookup (\<lambda>v. v_id v = i) (t_vlog db)"

definition plog_at :: "int \<Rightarrow> DB \<Rightarrow> plog_row option" where
  "plog_at i db = lookup (\<lambda>p. p_id p = i) (t_plog db)"

definition MakeVlogInDomain ::
  "uid \<Rightarrow> string \<Rightarrow> int \<Rightarrow> int \<Rightarrow> int \<Rightarrow> int \<Rightarrow> bytes \<Rightarrow> int \<Rightarrow> bool list \<Rightarrow> (DB, int) io" where
  "MakeVlogInDomain u protectionScheme dataShards parityShards targetDataShards targetParityShards domain requiredShards maintenanceOwned =
     (if requiredShards < 0 \<or> (length domain \<noteq> 0 \<and> requiredShards = 0)
      then raise (Err ''scoped vlog requires a positive durable shard requirement'')
      else if length domain \<noteq> 0 \<and> length domain \<noteq> 32 then raise (Err ''dedup domain must be empty or 32 bytes'')
      else bind (gets (\<lambda>db. vlog_seq db + 1)) (\<lambda>i.
        seq (modify (\<lambda>db. db\<lparr>t_vlog := t_vlog db @
               [\<lparr>v_id = i, v_uid = u, v_domain = domain, v_required = requiredShards,
                 v_owned = (maintenanceOwned \<noteq> [] \<and> hd maintenanceOwned), v_epoch = 1, v_length = 0, v_scheme = protectionScheme,
                 v_data = dataShards, v_parity = parityShards, v_target_data = targetDataShards,
                 v_target_parity = targetParityShards\<rparr>], vlog_seq := i\<rparr>))
            (ret (uint32_of i))))"

definition MakeStagingVlog :: "uid \<Rightarrow> string \<Rightarrow> int \<Rightarrow> int \<Rightarrow> int \<Rightarrow> int \<Rightarrow> (DB, int) io" where
  "MakeStagingVlog u protectionScheme dataShards parityShards targetDataShards targetParityShards =
     MakeVlogInDomain u protectionScheme dataShards parityShards targetDataShards targetParityShards [] 0 []"

definition MakeVlog :: "uid \<Rightarrow> string \<Rightarrow> int \<Rightarrow> int \<Rightarrow> (DB, int) io" where
  "MakeVlog u protectionScheme dataShards parityShards = MakeStagingVlog u protectionScheme dataShards parityShards 0 0"

text \<open>Deleting a vlog row takes its leases and shard mappings with it (\<^verbatim>\<open>ON DELETE CASCADE\<close>).\<close>

definition delete_vlog :: "int \<Rightarrow> DB \<Rightarrow> DB" where
  "delete_vlog i db =
     (let db' = delete_mappings (\<lambda>m. vp_vlog m = i)
                 (delete_leases (\<lambda>l. l_vlog l = i) (db\<lparr>t_vlog := delete (\<lambda>v. v_id v = i) (t_vlog db)\<rparr>))
      in if vlog_at i db = None then db else db')"

definition DiscardEmptyVlog :: "int \<Rightarrow> (DB, unit) io" where
  "DiscardEmptyVlog vlogID = transact (
     seq (modify (delete_mappings (\<lambda>m. vp_vlog m = vlogID)))
    (bind (gets (\<lambda>db. vlog_at vlogID db \<noteq> None \<and> \<not> list_ex (\<lambda>c. c_vlog c = vlogID) (t_chunk db))) (\<lambda>found.
     if found then modify (delete_vlog vlogID)
     else raise (Err ''discard vlog: vlog is missing or contains chunks''))))"

text \<open>\<^verbatim>\<open>INSERT INTO plog\<close> and its trigger.\<close>

definition insert_plog :: "uid \<Rightarrow> int \<Rightarrow> bool \<Rightarrow> (DB, int) io" where
  "insert_plog u diskID repair db =
     (let i = plog_seq db + 1;
          db' = db\<lparr>t_plog := t_plog db @
                  [\<lparr>p_id = i, p_uid = u, p_disk = diskID, p_repair = repair, p_epoch = 1, p_length = 0\<rparr>], plog_seq := i\<rparr>
      in (bump_vlogs (vlogs_on ((=) i) db') db', Inr i))"

definition MakePlog :: "uid \<Rightarrow> int \<Rightarrow> (DB, int) io" where
  "MakePlog u diskID = bind (insert_plog u diskID False) (\<lambda>i. ret (uint32_of i))"

definition MakeRepairPlog :: "uid \<Rightarrow> int \<Rightarrow> (DB, int) io" where
  "MakeRepairPlog u diskID = bind (insert_plog u diskID True) (\<lambda>i. ret (uint32_of i))"

definition mapped :: "int \<Rightarrow> DB \<Rightarrow> bool" where
  "mapped plogID db = list_ex (\<lambda>m. vp_plog m = plogID) (t_vlog_plog db)"

definition DiscardUnassignedPlog :: "int \<Rightarrow> (DB, unit) io" where
  "DiscardUnassignedPlog plogID =
     bind (gets (\<lambda>db. plog_at plogID db \<noteq> None \<and> \<not> mapped plogID db)) (\<lambda>found.
     if found then modify (delete_plog plogID)
     else raise (Err ''discard plog: plog is missing or assigned''))"

record PlogInfo =
  pi_ID :: int
  pi_UID :: uid
  pi_DiskID :: int
  pi_Length :: int

record VlogInfo =
  vi_PlacementEpoch :: int
  vi_MaintenanceOwned :: bool
  vi_ID :: int
  vi_UID :: uid
  vi_DedupDomain :: bytes
  vi_RequiredShards :: int
  vi_Length :: int
  vi_ProtectionScheme :: string
  vi_DataShards :: int
  vi_ParityShards :: int
  vi_TargetDataShards :: int
  vi_TargetParityShards :: int

definition IsStaging :: "VlogInfo \<Rightarrow> bool" where
  "IsStaging v \<longleftrightarrow> 0 < vi_TargetParityShards v \<or> 0 < vi_TargetDataShards v"

text \<open>A scan that decodes each row and stops at the first error.\<close>

fun scan :: "('r \<Rightarrow> 'a result) \<Rightarrow> 'r list \<Rightarrow> 'a list result" where
  "scan f [] = Inr []"
| "scan f (r # rs) =
     (case f r of Inl e \<Rightarrow> Inl e | Inr x \<Rightarrow> (case scan f rs of Inl e \<Rightarrow> Inl e | Inr xs \<Rightarrow> Inr (x # xs)))"

definition plog_info :: "plog_row \<Rightarrow> PlogInfo result" where
  "plog_info p =
     (case FromBytes (p_uid p) of
        Inl e \<Rightarrow> Inl e
      | Inr u \<Rightarrow> Inr \<lparr>pi_ID = p_id p, pi_UID = u, pi_DiskID = p_disk p, pi_Length = p_length p\<rparr>)"

definition ListPlogs :: "DB \<Rightarrow> PlogInfo list result" where
  "ListPlogs db = scan plog_info (sort_key p_id (t_plog db))"

definition PlogUID :: "int \<Rightarrow> DB \<Rightarrow> uid result" where
  "PlogUID plogID db = (case plog_at plogID db of None \<Rightarrow> Inr zero_uid | Some p \<Rightarrow> FromBytes (p_uid p))"

definition vlog_info :: "vlog_row \<Rightarrow> VlogInfo result" where
  "vlog_info v =
     (case FromBytes (v_uid v) of
        Inl e \<Rightarrow> Inl e
      | Inr u \<Rightarrow>
          Inr \<lparr>vi_PlacementEpoch = v_epoch v, vi_MaintenanceOwned = v_owned v, vi_ID = v_id v, vi_UID = u,
               vi_DedupDomain = v_domain v, vi_RequiredShards = v_required v, vi_Length = v_length v,
               vi_ProtectionScheme = v_scheme v, vi_DataShards = v_data v, vi_ParityShards = v_parity v,
               vi_TargetDataShards = v_target_data v, vi_TargetParityShards = v_target_parity v\<rparr>)"

definition ListVlogs :: "DB \<Rightarrow> VlogInfo list result" where
  "ListVlogs db = scan vlog_info (sort_key v_id (t_vlog db))"

definition GetVlog :: "int \<Rightarrow> DB \<Rightarrow> VlogInfo result" where
  "GetVlog vlogID db = (case vlog_at vlogID db of None \<Rightarrow> Inl ErrNoRows | Some v \<Rightarrow> vlog_info v)"

definition ListVlogPlogs :: "int \<Rightarrow> DB \<Rightarrow> (int \<times> int) list" where
  "ListVlogPlogs vlogID db =
     map (\<lambda>m. (vp_shard m, vp_plog m)) (sort_key vp_shard (filter (\<lambda>m. vp_vlog m = vlogID) (t_vlog_plog db)))"

definition VlogsForPlog :: "int \<Rightarrow> DB \<Rightarrow> int list" where
  "VlogsForPlog plogID db = sort (map vp_vlog (filter (\<lambda>m. vp_plog m = plogID) (t_vlog_plog db)))"

record VlogUsage =
  u_VlogID :: int
  u_TotalBytes :: int
  u_LiveBytes :: int

definition DeadBytes :: "VlogUsage \<Rightarrow> int" where
  "DeadBytes u = (let dead = u_TotalBytes u - u_LiveBytes u in if dead < 0 then 0 else dead)"

definition VlogUsages :: "DB \<Rightarrow> VlogUsage list" where
  "VlogUsages db =
     map (\<lambda>v. \<lparr>u_VlogID = v_id v, u_TotalBytes = v_length v,
               u_LiveBytes = sum_list (map (\<lambda>c. if 0 < c_refcount c then c_compressed c + chunkRecordHeaderSize else 0)
                 (filter (\<lambda>c. c_vlog c = v_id v) (t_chunk db)))\<rparr>)
       (sort_key v_id (t_vlog db))"

definition SetVlogLength :: "int \<Rightarrow> int \<Rightarrow> (DB, unit) io" where
  "SetVlogLength vlogID len =
     (if len < 0 then raise (Err ''negative durable vlog length'')
      else modify (\<lambda>db. vlog_changed vlogID
             (db\<lparr>t_vlog := update (\<lambda>v. v_id v = vlogID) (\<lambda>v. v\<lparr>v_length := max (v_length v) len\<rparr>) (t_vlog db)\<rparr>)))"

definition SetPlogLength :: "int \<Rightarrow> int \<Rightarrow> DB \<Rightarrow> DB" where
  "SetPlogLength plogID len db =
     (if plog_at plogID db = None then db
      else plog_changed plogID
             (db\<lparr>t_plog := update (\<lambda>p. p_id p = plogID) (\<lambda>p. p\<lparr>p_length := len\<rparr>) (t_plog db)\<rparr>))"

definition AssignPlogToVlog :: "int \<Rightarrow> int \<Rightarrow> int \<Rightarrow> (DB, unit) io" where
  "AssignPlogToVlog vlogID shardIdx plogID =
     bind (gets (\<lambda>db. list_ex (\<lambda>m. vp_vlog m = vlogID \<and> vp_shard m = shardIdx) (t_vlog_plog db) \<or> vlog_at vlogID db = None)) (\<lambda>clash.
     if clash then raise constraint_failed
     else modify (insert_mapping \<lparr>vp_vlog = vlogID, vp_shard = shardIdx, vp_plog = plogID\<rparr>))"

definition MakeAssignedPlog :: "uid \<Rightarrow> int \<Rightarrow> int \<Rightarrow> int \<Rightarrow> (DB, int) io" where
  "MakeAssignedPlog u diskID vlogID shardIdx = transact (
     bind (insert_plog u diskID False) (\<lambda>i.
     seq (AssignPlogToVlog vlogID shardIdx i)
         (ret (uint32_of i))))"

text \<open>\<open>disk_usable\<close> is \<^verbatim>\<open>JOIN disk d ... JOIN node n ... WHERE d.state IN (states) AND n.state='working'\<close>.\<close>

definition disk_usable :: "string list \<Rightarrow> int \<Rightarrow> DB \<Rightarrow> bool" where
  "disk_usable states i db \<longleftrightarrow>
     list_ex (\<lambda>k. k_id k = i \<and> k_state k \<in> set states \<and>
        list_ex (\<lambda>n. n_id n = k_node k \<and> n_state n = ''working'') (t_node db)) (t_disk db)"

definition replace_ok :: "int \<Rightarrow> int \<Rightarrow> int \<Rightarrow> int \<Rightarrow> int \<Rightarrow> int \<Rightarrow> DB \<Rightarrow> bool" where
  "replace_ok vlogID shardIdx oldPlogID newPlogID expectedEpoch destinationEpoch db \<longleftrightarrow>
     list_ex (\<lambda>v. v_id v = vlogID \<and> v_epoch v = expectedEpoch) (t_vlog db) \<and>
     \<not> list_ex (\<lambda>m. vp_plog m = oldPlogID \<and> (vp_vlog m \<noteq> vlogID \<or> vp_shard m \<noteq> shardIdx)) (t_vlog_plog db) \<and>
     list_ex (\<lambda>p. p_id p = newPlogID \<and> p_epoch p = destinationEpoch \<and> disk_usable [''active''] (p_disk p) db) (t_plog db) \<and>
     \<not> mapped newPlogID db \<and>
     \<not> list_ex (\<lambda>m. vp_vlog m = vlogID \<and> vp_shard m \<noteq> shardIdx \<and>
          list_ex (\<lambda>p. p_id p = vp_plog m \<and> list_ex (\<lambda>r. p_id r = newPlogID \<and> p_disk p = p_disk r) (t_plog db)) (t_plog db))
        (t_vlog_plog db)"

definition ReplaceShardPlog :: "int \<Rightarrow> int \<Rightarrow> int \<Rightarrow> int \<Rightarrow> int \<Rightarrow> int \<Rightarrow> (DB, unit) io" where
  "ReplaceShardPlog vlogID shardIdx oldPlogID newPlogID expectedEpoch destinationEpoch =
     (if oldPlogID = 0 \<or> newPlogID = 0 \<or> oldPlogID = newPlogID
      then raise (Err ''shard replacement requires distinct nonzero plogs'')
      else transact (
        bind (gets (\<lambda>db. if replace_ok vlogID shardIdx oldPlogID newPlogID expectedEpoch destinationEpoch db
                         then lookup (\<lambda>m. vp_vlog m = vlogID \<and> vp_shard m = shardIdx \<and> vp_plog m = oldPlogID) (t_vlog_plog db)
                         else None)) (\<lambda>row.
        case row of
          None \<Rightarrow> raise (Err ''repoint: stale generation, stale/shared source, or invalid destination'')
        | Some m \<Rightarrow> seq (modify (repoint_mapping m newPlogID)) (modify (delete_plog oldPlogID)))))"

definition RepairDestinationEpoch :: "int \<Rightarrow> DB \<Rightarrow> int result" where
  "RepairDestinationEpoch plogID db =
     (case plog_at plogID db of
        None \<Rightarrow> Inl ErrNoRows
      | Some p \<Rightarrow> if disk_usable [''active''] (p_disk p) db \<and> \<not> mapped plogID db then Inr (p_epoch p) else Inl ErrNoRows)"

definition RetireUnassignedRepairPlogs :: "DB \<Rightarrow> DB \<times> (int \<times> int) list" where
  "RetireUnassignedRepairPlogs db =
     (let rows = filter (\<lambda>p. p_repair p \<and> \<not> mapped (p_id p) db) (t_plog db)
      in (fold (\<lambda>p. delete_plog (p_id p)) rows db, map (\<lambda>p. (p_id p, p_disk p)) rows))"

definition RawPlogWritable :: "int \<Rightarrow> DB \<Rightarrow> bool" where
  "RawPlogWritable plogID db = (list_ex (\<lambda>p. p_id p = plogID \<and> \<not> p_repair p) (t_plog db) \<and> \<not> mapped plogID db)"

section \<open>Disks and nodes\<close>

definition disk_at :: "int \<Rightarrow> DB \<Rightarrow> disk_row option" where
  "disk_at i db = lookup (\<lambda>k. k_id k = i) (t_disk db)"

definition node_at :: "int \<Rightarrow> DB \<Rightarrow> node_row option" where
  "node_at i db = lookup (\<lambda>n. n_id n = i) (t_node db)"

definition RegisterDiskWithCapacity :: "int \<Rightarrow> int \<Rightarrow> int \<Rightarrow> uid \<Rightarrow> (DB, unit) io" where
  "RegisterDiskWithCapacity i nodeID totalBytes u =
     bind (gets (disk_at i)) (\<lambda>known.
     if known \<noteq> None then ret ()
     else bind (gets (node_at nodeID)) (\<lambda>node.
       if node = None then raise constraint_failed
       else modify (\<lambda>db. disk_changed i
              (db\<lparr>t_disk := t_disk db @ [\<lparr>k_id = i, k_uid = u, k_node = nodeID, k_epoch = 1, k_total = totalBytes, k_used = 0,
                                          k_state = ''active''\<rparr>]\<rparr>))))"

definition RegisterDisk :: "int \<Rightarrow> int \<Rightarrow> uid \<Rightarrow> (DB, unit) io" where
  "RegisterDisk i nodeID u = RegisterDiskWithCapacity i nodeID 0 u"

definition SetDiskState :: "int \<Rightarrow> string \<Rightarrow> (DB, unit) io" where
  "SetDiskState i state =
     bind (gets (disk_at i)) (\<lambda>k.
     if k = None then raise (Err ''set disk state: no such disk'')
     else modify (\<lambda>db. disk_changed i
            (db\<lparr>t_disk := update (\<lambda>k. k_id k = i) (\<lambda>k. k\<lparr>k_state := state\<rparr>) (t_disk db)\<rparr>)))"

record DiskInfo =
  di_ID :: int
  di_UID :: uid
  di_NodeID :: int
  di_State :: string

definition disk_info :: "disk_row \<Rightarrow> DiskInfo result" where
  "disk_info k =
     (case FromBytes (k_uid k) of
        Inl e \<Rightarrow> Inl e
      | Inr u \<Rightarrow> Inr \<lparr>di_ID = k_id k, di_UID = u, di_NodeID = k_node k, di_State = k_state k\<rparr>)"

definition ListDisks :: "DB \<Rightarrow> DiskInfo list result" where
  "ListDisks db = scan disk_info (sort_key k_id (t_disk db))"

definition DiskUID :: "int \<Rightarrow> DB \<Rightarrow> uid result" where
  "DiskUID diskID db = (case disk_at diskID db of None \<Rightarrow> Inr zero_uid | Some k \<Rightarrow> FromBytes (k_uid k))"

definition DiskCapacity :: "int \<Rightarrow> DB \<Rightarrow> int result" where
  "DiskCapacity diskID db =
     (case disk_at diskID db of None \<Rightarrow> Inl (Err ''disk is not registered'') | Some k \<Rightarrow> Inr (k_total k))"

definition CaptureDiskPlacement :: "int \<Rightarrow> DB \<Rightarrow> (int \<times> uid) result" where
  "CaptureDiskPlacement i db =
     (case disk_at i db of
        None \<Rightarrow> Inl ErrNoRows
      | Some k \<Rightarrow> (case FromBytes (k_uid k) of Inl e \<Rightarrow> Inl e | Inr u \<Rightarrow> Inr (k_epoch k, u)))"

record PlogOnDisk =
  pd_PlogID :: int
  pd_VlogID :: int
  pd_ShardIndex :: int
  pd_Length :: int

text \<open>\<^verbatim>\<open>plog p JOIN vlog_plog vp ON vp.plog_id = p.id\<close>.\<close>

definition mapped_plogs :: "DB \<Rightarrow> (plog_row \<times> vlog_plog_row) list" where
  "mapped_plogs db = concat (map (\<lambda>p. map (\<lambda>m. (p, m)) (filter (\<lambda>m. vp_plog m = p_id p) (t_vlog_plog db))) (t_plog db))"

definition PlogsOnDisk :: "int \<Rightarrow> DB \<Rightarrow> PlogOnDisk list" where
  "PlogsOnDisk diskID db =
     map (\<lambda>(p, m). \<lparr>pd_PlogID = p_id p, pd_VlogID = vp_vlog m, pd_ShardIndex = vp_shard m, pd_Length = p_length p\<rparr>)
       (sort_key (\<lambda>(p, m). p_id p) (filter (\<lambda>(p, m). p_disk p = diskID) (mapped_plogs db)))"

definition PlogPlacementEpoch :: "int \<Rightarrow> int \<Rightarrow> DB \<Rightarrow> int result" where
  "PlogPlacementEpoch plogID diskID db =
     (case lookup (\<lambda>p. p_id p = plogID \<and> p_disk p = diskID) (t_plog db) of None \<Rightarrow> Inl ErrNoRows | Some p \<Rightarrow> Inr (p_epoch p))"

record RelocationEpochs =
  re_Plog :: int
  re_Vlog :: int

definition owners :: "int \<Rightarrow> DB \<Rightarrow> int list" where
  "owners plogID db = map vp_vlog (filter (\<lambda>m. vp_plog m = plogID) (t_vlog_plog db))"

text \<open>The plog and the vlog that alone maps it, as the relocation queries join them.\<close>

definition sole_owner :: "int \<Rightarrow> int \<Rightarrow> DB \<Rightarrow> (plog_row \<times> vlog_row) option" where
  "sole_owner plogID vlogID db =
     (case (plog_at plogID db, vlog_at vlogID db) of
        (Some p, Some v) \<Rightarrow> if owners plogID db = [vlogID] then Some (p, v) else None
      | _ \<Rightarrow> None)"

definition CapturePlogRelocation :: "int \<Rightarrow> int \<Rightarrow> int \<Rightarrow> DB \<Rightarrow> RelocationEpochs result" where
  "CapturePlogRelocation plogID vlogID diskID db =
     (case sole_owner plogID vlogID db of
        None \<Rightarrow> Inl ErrNoRows
      | Some (p, v) \<Rightarrow> if p_disk p = diskID then Inr \<lparr>re_Plog = p_epoch p, re_Vlog = v_epoch v\<rparr> else Inl ErrNoRows)"

definition move_ok :: "int \<Rightarrow> int \<Rightarrow> int \<Rightarrow> int \<Rightarrow> RelocationEpochs \<Rightarrow> int \<Rightarrow> DB \<Rightarrow> bool" where
  "move_ok plogID vlogID oldDiskID newDiskID expected destinationEpoch db \<longleftrightarrow>
     list_ex (\<lambda>p. p_id p = plogID \<and> p_disk p = oldDiskID \<and> p_epoch p = re_Plog expected) (t_plog db) \<and>
     list_ex (\<lambda>v. v_id v = vlogID \<and> v_epoch v = re_Vlog expected) (t_vlog db) \<and> vlogID \<in> set (owners plogID db) \<and>
     length (owners plogID db) = 1 \<and>
     list_ex (\<lambda>k. k_id k = newDiskID \<and> k_epoch k = destinationEpoch) (t_disk db) \<and>
     disk_usable [''active'', ''draining''] newDiskID db \<and>
     \<not> list_ex (\<lambda>ow. vp_plog ow = plogID \<and>
          list_ex (\<lambda>m. vp_vlog m = vp_vlog ow \<and> vp_plog m \<noteq> plogID \<and> plog_on ((=) newDiskID) db (vp_plog m)) (t_vlog_plog db))
        (t_vlog_plog db)"

definition MovePlogToDisk ::
  "int \<Rightarrow> int \<Rightarrow> int \<Rightarrow> int \<Rightarrow> RelocationEpochs \<Rightarrow> int \<Rightarrow> (DB, RelocationEpochs) io" where
  "MovePlogToDisk plogID vlogID oldDiskID newDiskID expected destinationEpoch =
     (if plogID = 0 \<or> oldDiskID = 0 \<or> newDiskID = 0 \<or> oldDiskID = newDiskID
      then raise (Err ''relocation requires a plog and distinct nonzero disks'')
      else transact (
        bind (gets (move_ok plogID vlogID oldDiskID newDiskID expected destinationEpoch)) (\<lambda>ok.
        if \<not> ok then raise (Err ''relocate plog: stale source or unavailable/colocated destination'')
        else seq (modify (\<lambda>db. plog_changed plogID
               (db\<lparr>t_plog := update (\<lambda>p. p_id p = plogID) (\<lambda>p. p\<lparr>p_disk := newDiskID\<rparr>) (t_plog db)\<rparr>)))
            (of_result (\<lambda>db. case (plog_at plogID db, vlog_at vlogID db) of
                 (Some p, Some v) \<Rightarrow> Inr \<lparr>re_Plog = p_epoch p, re_Vlog = v_epoch v\<rparr>
               | _ \<Rightarrow> Inl ErrNoRows)))))"

definition ResolvePlogRelocation ::
  "int \<Rightarrow> int \<Rightarrow> int \<Rightarrow> int \<Rightarrow> RelocationEpochs \<Rightarrow> RelocationEpochs \<Rightarrow> DB \<Rightarrow> int result" where
  "ResolvePlogRelocation plogID vlogID source destination before after db =
     (case sole_owner plogID vlogID db of
        None \<Rightarrow> Inl ErrNoRows
      | Some (p, v) \<Rightarrow>
          let disk = p_disk p; current = \<lparr>re_Plog = p_epoch p, re_Vlog = v_epoch v\<rparr> in
          if (disk = source \<and> current = before) \<or> (disk = destination \<and> current = after) then Inr disk
          else Inl (Err ''relocation placement changed during outcome resolution''))"

definition VlogShardDisks :: "int \<Rightarrow> DB \<Rightarrow> (int \<times> int \<times> int) list" where
  "VlogShardDisks vlogID db =
     map (\<lambda>(p, m). (vp_shard m, vp_plog m, p_disk p))
       (sort_key (\<lambda>(p, m). vp_shard m) (filter (\<lambda>(p, m). vp_vlog m = vlogID) (mapped_plogs db)))"

fun decimal :: "nat \<Rightarrow> string" where
  "decimal n = (if n < 10 then [char_of (48 + n)] else decimal (n div 10) @ [char_of (48 + n mod 10)])"

declare decimal.simps [simp del]

definition decimal_int :: "int \<Rightarrow> string" where
  "decimal_int i = (if i < 0 then ''-'' @ decimal (nat (- i)) else decimal (nat i))"

definition RegisterNode :: "int \<Rightarrow> DB \<Rightarrow> DB" where
  "RegisterNode i db =
     (if node_at i db \<noteq> None then db
      else node_changed i
        (db\<lparr>t_node := t_node db @ [\<lparr>n_id = i, n_mac = ''node-'' @ decimal_int i @ ''-mac'', n_host = ''node-'' @ decimal_int i,
                                    n_state = ''working''\<rparr>]\<rparr>))"

definition SetNodeState :: "int \<Rightarrow> string \<Rightarrow> (DB, unit) io" where
  "SetNodeState i state =
     bind (gets (node_at i)) (\<lambda>n.
     if n = None then raise (Err ''set node state: no such node'')
     else modify (\<lambda>db. node_changed i
            (db\<lparr>t_node := update (\<lambda>n. n_id n = i) (\<lambda>n. n\<lparr>n_state := state\<rparr>) (t_node db)\<rparr>)))"

definition ListNodes :: "DB \<Rightarrow> (int \<times> string) list" where
  "ListNodes db = map (\<lambda>n. (n_id n, n_state n)) (sort_key n_id (t_node db))"

section \<open>Bucket policies\<close>

definition DedupDomain :: "bucket_row \<Rightarrow> bytes" where
  "DedupDomain p =
     sha256 (str_bytes (''rose content domain v1:'' @ decimal (length (b_name p)) @ '':'' @ b_name p @ '':'' @ b_scheme p @ '':'' @
       decimal_int (b_data p) @ '':'' @ decimal_int (b_parity p)))"

definition DefaultBucketPolicy :: "string \<Rightarrow> bucket_row" where
  "DefaultBucketPolicy name = \<lparr>b_name = name, b_scheme = ''DUPLICATE'', b_data = 1, b_parity = 0\<rparr>"

text \<open>\<^verbatim>\<open>INSERT INTO bucket ... ON CONFLICT(name) DO UPDATE\<close>.\<close>

definition upsert_bucket :: "bucket_row \<Rightarrow> DB \<Rightarrow> DB" where
  "upsert_bucket p db =
     (if list_ex (\<lambda>b. b_name b = b_name p) (t_bucket db)
      then db\<lparr>t_bucket := update (\<lambda>b. b_name b = b_name p) (\<lambda>_. p) (t_bucket db)\<rparr>
      else db\<lparr>t_bucket := t_bucket db @ [p]\<rparr>)"

definition SetBucketPolicy :: "bucket_row \<Rightarrow> (DB, unit) io" where
  "SetBucketPolicy p =
     (let p = p\<lparr>b_name := cleanPath (b_name p)\<rparr> in
      if slash \<in> set (b_name p) then raise (Err ''bucket name is not a top-level path component'')
      else if b_scheme p = ''NONE'' \<or> b_scheme p = ''DUPLICATE''
      then (if b_data p \<noteq> 1 \<or> b_parity p \<noteq> 0 then raise (Err ''invalid bucket geometry: want 1+0'') else modify (upsert_bucket p))
      else if b_scheme p = ''EC''
      then (if b_data p \<le> 0 \<or> b_parity p \<le> 0 then raise (Err ''invalid EC bucket geometry: both shard counts must be positive'') else modify (upsert_bucket p))
      else raise (Err ''unknown bucket protection scheme''))"

definition GetBucketPolicy :: "string \<Rightarrow> DB \<Rightarrow> bucket_row option" where
  "GetBucketPolicy name db = lookup (\<lambda>b. b_name b = name) (t_bucket db)"

definition ListBucketPolicies :: "DB \<Rightarrow> bucket_row list" where
  "ListBucketPolicies db = sort_key b_name (t_bucket db)"

end
