(* ===== verification/Rose_Jobs.thy ===== *)
theory Rose_Jobs
  imports Rose_Placement
begin

text \<open>
  The durable maintenance jobs (\<^verbatim>\<open>meta/jobs.go\<close>, \<^verbatim>\<open>meta/job_gc.go\<close>, \<^verbatim>\<open>meta/maintenance_orphans.go\<close>), the
  catalog side of moving chunks and retiring a vlog, and the whole-catalog aggregates of
  \<^verbatim>\<open>meta/catalog.go\<close>.
\<close>

section \<open>Jobs\<close>

record Job =
  job_ID :: int
  job_Kind :: string
  job_State :: string
  job_TargetVlog :: int
  job_DestVlog :: int
  job_TargetDisk :: int
  job_DestDisk :: int

definition JobCompact :: string where "JobCompact = ''compact''"
definition JobPromote :: string where "JobPromote = ''promote''"
definition JobDrain :: string where "JobDrain = ''drain''"
definition JobReprotect :: string where "JobReprotect = ''reprotect''"
definition JobReplace :: string where "JobReplace = ''replace''"
definition JobRebalance :: string where "JobRebalance = ''rebalance''"
definition JobScrubRepair :: string where "JobScrubRepair = ''scrubrepair''"
definition JobRunning :: string where "JobRunning = ''running''"
definition JobDone :: string where "JobDone = ''done''"
definition JobCancelled :: string where "JobCancelled = ''cancelled''"

definition scanJob :: "job_row \<Rightarrow> Job" where
  "scanJob j =
     \<lparr>job_ID = j_id j, job_Kind = j_kind j, job_State = j_state j, job_TargetVlog = j_target_vlog j,
      job_DestVlog = j_dest_vlog j, job_TargetDisk = j_target_disk j, job_DestDisk = j_dest_disk j\<rparr>"

text \<open>
  An insert into the job table; the partial unique index \<^verbatim>\<open>idx_job_running_vlog\<close> admits one running
  rewrite of a kind per vlog.
\<close>

definition vlog_kinds :: "string list" where
  "vlog_kinds = [''compact'', ''promote'', ''scrubrepair'']"

definition insert_job :: "int \<Rightarrow> string \<Rightarrow> int \<Rightarrow> int \<Rightarrow> int \<Rightarrow> (DB, Job) io" where
  "insert_job now kind targetVlog targetDisk destDisk db =
     (let i = job_seq db + 1;
          row = \<lparr>j_id = i, j_kind = kind, j_state = JobRunning, j_target_vlog = targetVlog, j_dest_vlog = 0,
                 j_target_disk = targetDisk, j_dest_disk = destDisk, j_created = now\<rparr>
      in if kind \<in> set vlog_kinds \<and>
            list_ex (\<lambda>j. j_kind j = kind \<and> j_state j = JobRunning \<and> j_target_vlog j = targetVlog) (t_job db)
         then (db, Inl constraint_failed)
         else (db\<lparr>t_job := t_job db @ [row], job_seq := i\<rparr>, Inr (scanJob row)))"

definition getOrCreateVlogJob :: "int \<Rightarrow> string \<Rightarrow> int \<Rightarrow> (DB, Job) io" where
  "getOrCreateVlogJob now kind targetVlog = transact (
     bind (gets (\<lambda>db. lookup (\<lambda>j. j_kind j = kind \<and> j_state j = JobRunning \<and> j_target_vlog j = targetVlog) (t_job db))) (\<lambda>j.
     case j of
       Some j \<Rightarrow> ret (scanJob j)
     | None \<Rightarrow> insert_job now kind targetVlog 0 0))"

definition GetOrCreateCompactionJob :: "int \<Rightarrow> int \<Rightarrow> (DB, Job) io" where
  "GetOrCreateCompactionJob now targetVlog = getOrCreateVlogJob now JobCompact targetVlog"

definition GetOrCreatePromoteJob :: "int \<Rightarrow> int \<Rightarrow> (DB, Job) io" where
  "GetOrCreatePromoteJob now stagingVlog = getOrCreateVlogJob now JobPromote stagingVlog"

definition GetOrCreateScrubRepairJob :: "int \<Rightarrow> int \<Rightarrow> (DB, Job) io" where
  "GetOrCreateScrubRepairJob now targetVlog = getOrCreateVlogJob now JobScrubRepair targetVlog"

text \<open>\<^verbatim>\<open>UPDATE job SET state = ? WHERE kind = ? AND state = 'running' AND ...\<close>, and whether a row matched.\<close>

definition close_jobs :: "(job_row \<Rightarrow> bool) \<Rightarrow> string \<Rightarrow> DB \<Rightarrow> DB \<times> bool" where
  "close_jobs P state db =
     (db\<lparr>t_job := update (\<lambda>j. j_state j = JobRunning \<and> P j) (\<lambda>j. j\<lparr>j_state := state\<rparr>) (t_job db)\<rparr>,
      list_ex (\<lambda>j. j_state j = JobRunning \<and> P j) (t_job db))"

definition FinishRunningScrubRepairJob :: "int \<Rightarrow> DB \<Rightarrow> DB" where
  "FinishRunningScrubRepairJob targetVlog db = fst (close_jobs (\<lambda>j. j_kind j = JobScrubRepair \<and> j_target_vlog j = targetVlog) JobDone db)"

definition FinishRunningPromoteJob :: "int \<Rightarrow> DB \<Rightarrow> DB \<times> bool" where
  "FinishRunningPromoteJob stagingVlog = close_jobs (\<lambda>j. j_kind j = JobPromote \<and> j_target_vlog j = stagingVlog) JobDone"

definition FinishRunningCompactionJob :: "int \<Rightarrow> DB \<Rightarrow> DB \<times> bool" where
  "FinishRunningCompactionJob sourceVlog = close_jobs (\<lambda>j. j_kind j = JobCompact \<and> j_target_vlog j = sourceVlog) JobDone"

definition CancelRunningReprotect :: "int \<Rightarrow> DB \<Rightarrow> DB \<times> bool" where
  "CancelRunningReprotect targetDisk = close_jobs (\<lambda>j. j_kind j = JobReprotect \<and> j_target_disk j = targetDisk) JobCancelled"

definition MarkJobDone :: "int \<Rightarrow> DB \<Rightarrow> DB" where
  "MarkJobDone jobID db = db\<lparr>t_job := update (\<lambda>j. j_id j = jobID) (\<lambda>j. j\<lparr>j_state := JobDone\<rparr>) (t_job db)\<rparr>"

definition getOrCreateDiskJob :: "int \<Rightarrow> string \<Rightarrow> int \<Rightarrow> int \<Rightarrow> (DB, Job) io" where
  "getOrCreateDiskJob now kind targetDisk destDisk = transact (
     bind (gets (\<lambda>db. lookup (\<lambda>j. (if kind = JobDrain \<or> kind = JobReplace then j_kind j = JobDrain \<or> j_kind j = JobReplace
                                   else j_kind j = kind) \<and> j_state j = JobRunning \<and> j_target_disk j = targetDisk) (t_job db))) (\<lambda>j.
     case j of
       Some j \<Rightarrow>
         if j_kind j \<noteq> kind then raise (Err ''disk already has a running job'')
         else if kind = JobReplace \<and> j_dest_disk j \<noteq> destDisk then raise (Err ''disk already has a running replacement'')
         else ret (scanJob j)
     | None \<Rightarrow> insert_job now kind 0 targetDisk destDisk))"

definition GetOrCreateDrainJob :: "int \<Rightarrow> int \<Rightarrow> (DB, Job) io" where
  "GetOrCreateDrainJob now targetDisk = getOrCreateDiskJob now JobDrain targetDisk 0"

definition GetOrCreateReprotectJob :: "int \<Rightarrow> int \<Rightarrow> (DB, Job) io" where
  "GetOrCreateReprotectJob now targetDisk = getOrCreateDiskJob now JobReprotect targetDisk 0"

definition GetOrCreateReplaceJob :: "int \<Rightarrow> int \<Rightarrow> int \<Rightarrow> (DB, Job) io" where
  "GetOrCreateReplaceJob now targetDisk destDisk =
     (if targetDisk = 0 \<or> destDisk = 0 \<or> targetDisk = destDisk
      then raise (Err ''replacement requires distinct nonzero source and destination disks'')
      else getOrCreateDiskJob now JobReplace targetDisk destDisk)"

definition GetOrCreateRebalanceJob :: "int \<Rightarrow> (DB, Job) io" where
  "GetOrCreateRebalanceJob now = getOrCreateDiskJob now JobRebalance 0 0"

definition LatestDiskJob :: "string \<Rightarrow> int \<Rightarrow> DB \<Rightarrow> Job option" where
  "LatestDiskJob kind targetDisk db =
     (case sort_key (\<lambda>j. - j_id j) (filter (\<lambda>j. j_kind j = kind \<and> j_target_disk j = targetDisk) (t_job db)) of
        [] \<Rightarrow> None
      | j # _ \<Rightarrow> Some (scanJob j))"

definition claimable :: "int \<Rightarrow> int \<Rightarrow> DB \<Rightarrow> job_row \<Rightarrow> bool" where
  "claimable jobID destVlog db j \<longleftrightarrow>
     j_id j = jobID \<and> j_state j = JobRunning \<and> j_target_vlog j \<noteq> destVlog \<and> (j_dest_vlog j = 0 \<or> j_dest_vlog j = destVlog) \<and>
     \<not> list_ex (\<lambda>ow. j_dest_vlog ow = destVlog \<and> j_id ow \<noteq> jobID) (t_job db)"

definition SetJobDest :: "int \<Rightarrow> int \<Rightarrow> (DB, unit) io" where
  "SetJobDest jobID destVlog =
     (if destVlog = 0 then raise (Err ''maintenance destination must be nonzero'')
      else transact (
        bind (gets (vlog_at destVlog)) (\<lambda>v.
        if v = None then raise (Err ''maintenance destination does not exist'')
        else seq (modify (\<lambda>db. vlog_changed destVlog
               (db\<lparr>t_vlog := update (\<lambda>v. v_id v = destVlog) (\<lambda>v. v\<lparr>v_owned := True\<rparr>) (t_vlog db)\<rparr>)))
            (bind (gets (\<lambda>db. list_ex (claimable jobID destVlog db) (t_job db))) (\<lambda>ok.
             if \<not> ok then raise (Err ''maintenance job cannot claim destination'')
             else modify (\<lambda>db. db\<lparr>t_job := update (claimable jobID destVlog db) (\<lambda>j. j\<lparr>j_dest_vlog := destVlog\<rparr>) (t_job db)\<rparr>))))))"

definition VlogHasRunningJob :: "int \<Rightarrow> DB \<Rightarrow> bool" where
  "VlogHasRunningJob i db = list_ex (\<lambda>j. j_state j = JobRunning \<and> j_target_vlog j = i) (t_job db)"

definition VlogIsRunningDestination :: "int \<Rightarrow> DB \<Rightarrow> bool" where
  "VlogIsRunningDestination i db = list_ex (\<lambda>j. j_state j = JobRunning \<and> j_dest_vlog j = i) (t_job db)"

definition RunningJobs :: "DB \<Rightarrow> Job list" where
  "RunningJobs db = map scanJob (sort_key j_id (filter (\<lambda>j. j_state j = JobRunning) (t_job db)))"

definition GetJob :: "int \<Rightarrow> DB \<Rightarrow> Job result" where
  "GetJob i db =
     (case lookup (\<lambda>j. j_id j = i) (t_job db) of None \<Rightarrow> Inl (Err ''job not found'') | Some j \<Rightarrow> Inr (scanJob j))"

definition collectable_job :: "DB \<Rightarrow> job_row \<Rightarrow> bool" where
  "collectable_job db j \<longleftrightarrow>
     (j_state j = JobDone \<or> j_state j = JobCancelled) \<and> j_kind j \<in> set vlog_kinds \<and> j_target_disk j = 0 \<and> j_dest_disk j = 0 \<and>
     vlog_at (j_dest_vlog j) db = None"

definition GCTerminalVlogJobs :: "int \<Rightarrow> (DB, nat) io" where
  "GCTerminalVlogJobs limit =
     (if limit \<le> 0 then raise (Err ''job collection limit must be positive'')
      else bind (gets (\<lambda>db. take (nat limit) (sort (map j_id (filter (collectable_job db) (t_job db)))))) (\<lambda>ids.
           seq (modify (\<lambda>db. db\<lparr>t_job := delete (\<lambda>j. j_id j \<in> set ids) (t_job db)\<rparr>)) (ret (length ids))))"

section \<open>Moving chunks and retiring a vlog\<close>

record ChunkLoc =
  cl_Hash :: bytes
  cl_VaddrOffset :: int
  cl_LogicalLen :: int

definition LiveChunksInVlog :: "int \<Rightarrow> DB \<Rightarrow> ChunkLoc list" where
  "LiveChunksInVlog vlogID db =
     map (\<lambda>c. \<lparr>cl_Hash = c_hash c, cl_VaddrOffset = c_vaddr c, cl_LogicalLen = c_logical c\<rparr>)
       (sort_key c_vaddr (filter (\<lambda>c. c_vlog c = vlogID \<and> 0 < c_refcount c) (t_chunk db)))"

definition RelocateChunk :: "bytes \<Rightarrow> int \<Rightarrow> int \<Rightarrow> DB \<Rightarrow> DB" where
  "RelocateChunk hash destVlog newOffset db =
     db\<lparr>t_chunk := update (\<lambda>c. c_hash c = hash) (\<lambda>c. c\<lparr>c_vlog := destVlog, c_vaddr := newOffset\<rparr>) (t_chunk db)\<rparr>"

definition retireVlogTx :: "int \<Rightarrow> (DB, (int \<times> int \<times> int) list) io" where
  "retireVlogTx vlogID =
     bind (gets (VlogIsRunningDestination vlogID)) (\<lambda>destinationHeld.
     if destinationHeld then raise (Err ''refusing to retire vlog owned as a running job destination'')
     else bind (gets (\<lambda>db. length (filter (\<lambda>c. c_vlog c = vlogID \<and> 0 < c_refcount c) (t_chunk db)))) (\<lambda>liveRemaining.
     if 0 < liveRemaining then raise (Err ''refusing to retire vlog with live chunks'')
     else bind (gets (\<lambda>db. map (\<lambda>(p, m). (p_id p, p_disk p, p_length p))
              (sort_key (\<lambda>(p, m). p_id p) (filter (\<lambda>(p, m). vp_vlog m = vlogID) (mapped_plogs db))))) (\<lambda>plogs.
     seq (modify (\<lambda>db. db\<lparr>t_chunk := delete (\<lambda>c. c_vlog c = vlogID) (t_chunk db)\<rparr>))
    (seq (modify (delete_mappings (\<lambda>m. vp_vlog m = vlogID)))
    (seq (modify (fold (\<lambda>(i, _). delete_plog i) plogs))
    (seq (modify (delete_vlog vlogID))
    (seq (modify (\<lambda>db. fst (close_jobs (\<lambda>j. j_kind j = JobScrubRepair \<and> j_target_vlog j = vlogID) JobCancelled db)))
         (ret plogs))))))))"

definition RetireVlog :: "int \<Rightarrow> (DB, (int \<times> int \<times> int) list) io" where
  "RetireVlog vlogID = transact (retireVlogTx vlogID)"

fun retire_each :: "int list \<Rightarrow> (DB, (int \<times> int \<times> int) list) io" where
  "retire_each [] = ret []"
| "retire_each (i # is) = bind (retireVlogTx i) (\<lambda>plogs. bind (retire_each is) (\<lambda>rest. ret (plogs @ rest)))"

definition retireUnassignedMaintenance :: "int \<Rightarrow> (DB, bool \<times> (int \<times> int \<times> int) list) io" where
  "retireUnassignedMaintenance only = transact (
     bind (gets (\<lambda>db. map v_id (filter (\<lambda>v. v_owned v \<and> v_length v = 0 \<and> (only = 0 \<or> v_id v = only) \<and>
            \<not> list_ex (\<lambda>j. j_dest_vlog j = v_id v) (t_job db) \<and> \<not> list_ex (\<lambda>c. c_vlog c = v_id v) (t_chunk db) \<and>
            \<not> list_ex (\<lambda>l. l_vlog l = v_id v) (t_lease db)) (t_vlog db)))) (\<lambda>ids.
     bind (retire_each ids) (\<lambda>removed. ret (ids \<noteq> [], removed))))"

definition RetireUnassignedMaintenanceVlogs :: "(DB, (int \<times> int \<times> int) list) io" where
  "RetireUnassignedMaintenanceVlogs = bind (retireUnassignedMaintenance 0) (\<lambda>(_, plogs). ret plogs)"

definition RetireUnassignedMaintenanceDestination :: "int \<Rightarrow> (DB, bool \<times> (int \<times> int \<times> int) list) io" where
  "RetireUnassignedMaintenanceDestination i = (if i = 0 then ret (False, []) else retireUnassignedMaintenance i)"

section \<open>Aggregates over the catalog\<close>

definition AllShardPlacements :: "DB \<Rightarrow> (int \<times> int \<times> int) list" where
  "AllShardPlacements db =
     map (\<lambda>(p, m). (vp_vlog m, vp_shard m, p_disk p))
       (sort_key (\<lambda>(p, m). vp_vlog m) (sort_key (\<lambda>(p, m). vp_shard m) (mapped_plogs db)))"

definition PlogCountsByDisk :: "DB \<Rightarrow> int \<Rightarrow> nat option" where
  "PlogCountsByDisk db disk =
     (let rows = filter (\<lambda>(p, m). p_disk p = disk) (mapped_plogs db) in if rows = [] then None else Some (length rows))"

definition DiskUsageBytes :: "DB \<Rightarrow> int \<Rightarrow> int option" where
  "DiskUsageBytes db disk =
     (let rows = filter (\<lambda>(p, m). p_disk p = disk) (mapped_plogs db)
      in if rows = [] then None else Some (sum_list (map (\<lambda>(p, m). p_length p) rows)))"

text \<open>
  The joined shards of a vlog, and those on an active disk of a working node. A vlog with no joined shard
  has no group and is not reported.
\<close>

definition joined_shards :: "int \<Rightarrow> DB \<Rightarrow> disk_row list" where
  "joined_shards vlogID db =
     concat (map (\<lambda>(p, m). filter (\<lambda>k. k_id k = p_disk p \<and> node_at (k_node k) db \<noteq> None) (t_disk db))
       (filter (\<lambda>(p, m). vp_vlog m = vlogID) (mapped_plogs db)))"

definition shard_live :: "DB \<Rightarrow> disk_row \<Rightarrow> bool" where
  "shard_live db k \<longleftrightarrow> k_state k = ''active'' \<and> map_option n_state (node_at (k_node k) db) = Some ''working''"

definition readiness :: "(int \<Rightarrow> bool) \<Rightarrow> DB \<Rightarrow> (int \<times> bool \<times> bool) list" where
  "readiness touched db =
     map (\<lambda>v. let shards = joined_shards (v_id v) db; live = length (filter (shard_live db) shards)
              in (v_id v, live = length shards, v_data v \<le> int live))
       (filter (\<lambda>v. touched (v_id v) \<and> joined_shards (v_id v) db \<noteq> []) (t_vlog db))"

definition EachVlogReadiness :: "DB \<Rightarrow> (int \<times> bool \<times> bool) list" where
  "EachVlogReadiness db = readiness (\<lambda>_. True) db"

definition EachVlogReadinessOnDisk :: "int \<Rightarrow> DB \<Rightarrow> (int \<times> bool \<times> bool) list" where
  "EachVlogReadinessOnDisk diskID db = readiness (vlogs_on (plog_on ((=) diskID) db) db) db"

definition EachVlogReadinessOnNode :: "int \<Rightarrow> DB \<Rightarrow> (int \<times> bool \<times> bool) list" where
  "EachVlogReadinessOnNode nodeID db = readiness (vlogs_on (plog_on (disk_on nodeID db) db) db) db"

end
