(* ===== verification/Rose_Catalog_Step.thy ===== *)
theory Rose_Catalog_Step
  imports Rose_Jobs
begin

text \<open>
  The catalog as a state machine: one step per operation of \<^verbatim>\<open>package meta\<close> that changes the database.
  SQLite runs on one connection, so the operations of concurrent requests are interleaved whole
  transactions, which is what the steps are. An operation that fails rolls back, which is a step too.
\<close>

datatype namespace_op =
    MkdirOp string int
  | SetMtimeOp string int
  | RmdirOp string
  | BackfillOp
  | UnlinkOp string
  | RenameOp int string string

datatype version_op =
    CommitFileOp string int "ChunkPlacement list"
  | GCChunksOp "bytes list"
  | GCVersionsOp int
  | CreateSnapshotOp string int
  | DeleteSnapshotOp int
  | SetRetentionOp "retention_row option"
  | ExpireSnapshotsOp int
  | RelocateOp bytes int int
  | RetireVlogOp int
  | RetireOrphansOp int

datatype write_op =
    CreateWriteOpOp int string string
  | SetTailOp int bytes
  | RetargetOp int string
  | ClaimLeaseOp int int int
  | ReleaseLeasesOp int
  | AbandonOp int
  | CancelOp int
  | CommitWriteOp "string \<Rightarrow> err option" int string int "ChunkPlacement list" int
  | ExpireResultsOp int

datatype shard_op =
    MakeVlogOp uid string int int int int bytes int "bool list"
  | DiscardVlogOp int
  | MakePlogOp uid int
  | MakeRepairPlogOp uid int
  | DiscardPlogOp int
  | SetVlogLengthOp int int
  | SetPlogLengthOp int int
  | AssignOp int int int
  | MakeAssignedOp uid int int int
  | ReplaceShardOp int int int int int int
  | RetireRepairOp

datatype disk_op =
    RegisterDiskOp int int int uid
  | SetDiskStateOp int string
  | MovePlogOp int int int int RelocationEpochs int
  | RegisterNodeOp int
  | SetNodeStateOp int string
  | SetBucketOp bucket_row

datatype job_op =
    VlogJobOp int string int
  | DiskJobOp int string int int
  | FinishScrubRepairOp int
  | FinishPromoteOp int
  | FinishCompactionOp int
  | CancelReprotectOp int
  | MarkJobDoneOp int
  | SetJobDestOp int int
  | GCJobsOp int

datatype catalog_op =
    Namespace namespace_op
  | Version version_op
  | Write write_op
  | Shard shard_op
  | Disk disk_op
  | Jobs job_op

fun namespace_step :: "namespace_op \<Rightarrow> DB \<Rightarrow> DB" where
  "namespace_step (MkdirOp path mtime) db = fst (Mkdir path mtime db)"
| "namespace_step (SetMtimeOp path mtime) db = fst (SetMtime path mtime db)"
| "namespace_step (RmdirOp path) db = fst (Rmdir path db)"
| "namespace_step BackfillOp db = fst (backfillNamespace db)"
| "namespace_step (UnlinkOp path) db = fst (UnlinkFile path db)"
| "namespace_step (RenameOp now a b) db = fst (RenameFile now a b db)"

fun version_step :: "version_op \<Rightarrow> DB \<Rightarrow> DB" where
  "version_step (CommitFileOp path mtime ps) db = fst (CommitFile path mtime ps db)"
| "version_step (GCChunksOp pinned) db = fst (GCChunks pinned db)"
| "version_step (GCVersionsOp limit) db = fst (GCFileVersions limit db)"
| "version_step (CreateSnapshotOp name t) db = fst (CreateSnapshot name t db)"
| "version_step (DeleteSnapshotOp i) db = fst (DeleteSnapshot i db)"
| "version_step (SetRetentionOp p) db = fst (SetSnapshotRetention p db)"
| "version_step (ExpireSnapshotsOp now) db = fst (ExpireSnapshots now db)"
| "version_step (RelocateOp h v off) db = RelocateChunk h v off db"
| "version_step (RetireVlogOp v) db = fst (RetireVlog v db)"
| "version_step (RetireOrphansOp only) db = fst (retireUnassignedMaintenance only db)"

fun write_step :: "write_op \<Rightarrow> DB \<Rightarrow> DB" where
  "write_step (CreateWriteOpOp now key path) db = fst (CreateWriteOp now key path db)"
| "write_step (SetTailOp i tail) db = SetWriteOpTail i tail db"
| "write_step (RetargetOp i path) db = fst (RetargetPreparedWriteOp i path db)"
| "write_step (ClaimLeaseOp v i n) db = fst (ClaimVlogLease v i n db)"
| "write_step (ReleaseLeasesOp i) db = ReleaseWriteOpLeases i db"
| "write_step (AbandonOp i) db = AbandonWriteOp i db"
| "write_step (CancelOp i) db = CancelWriteOp i db"
| "write_step (CommitWriteOp fault i path mtime ps e) db = fst (commitWriteOpVersion fault i path mtime ps e db)"
| "write_step (ExpireResultsOp now) db = fst (ExpireWriteResults now db)"

fun shard_step :: "shard_op \<Rightarrow> DB \<Rightarrow> DB" where
  "shard_step (MakeVlogOp u s a b c d g n own) db = fst (MakeVlogInDomain u s a b c d g n own db)"
| "shard_step (DiscardVlogOp i) db = fst (DiscardEmptyVlog i db)"
| "shard_step (MakePlogOp u d) db = fst (MakePlog u d db)"
| "shard_step (MakeRepairPlogOp u d) db = fst (MakeRepairPlog u d db)"
| "shard_step (DiscardPlogOp i) db = fst (DiscardUnassignedPlog i db)"
| "shard_step (SetVlogLengthOp i n) db = fst (SetVlogLength i n db)"
| "shard_step (SetPlogLengthOp i n) db = SetPlogLength i n db"
| "shard_step (AssignOp v s p) db = fst (AssignPlogToVlog v s p db)"
| "shard_step (MakeAssignedOp u d v s) db = fst (MakeAssignedPlog u d v s db)"
| "shard_step (ReplaceShardOp v s a b e f) db = fst (ReplaceShardPlog v s a b e f db)"
| "shard_step RetireRepairOp db = fst (RetireUnassignedRepairPlogs db)"

fun disk_step :: "disk_op \<Rightarrow> DB \<Rightarrow> DB" where
  "disk_step (RegisterDiskOp i n c u) db = fst (RegisterDiskWithCapacity i n c u db)"
| "disk_step (SetDiskStateOp i s) db = fst (SetDiskState i s db)"
| "disk_step (MovePlogOp p v a b e d) db = fst (MovePlogToDisk p v a b e d db)"
| "disk_step (RegisterNodeOp i) db = RegisterNode i db"
| "disk_step (SetNodeStateOp i s) db = fst (SetNodeState i s db)"
| "disk_step (SetBucketOp p) db = fst (SetBucketPolicy p db)"

fun job_step :: "job_op \<Rightarrow> DB \<Rightarrow> DB" where
  "job_step (VlogJobOp now kind v) db = fst (getOrCreateVlogJob now kind v db)"
| "job_step (DiskJobOp now kind t d) db = fst (getOrCreateDiskJob now kind t d db)"
| "job_step (FinishScrubRepairOp v) db = FinishRunningScrubRepairJob v db"
| "job_step (FinishPromoteOp v) db = fst (FinishRunningPromoteJob v db)"
| "job_step (FinishCompactionOp v) db = fst (FinishRunningCompactionJob v db)"
| "job_step (CancelReprotectOp d) db = fst (CancelRunningReprotect d db)"
| "job_step (MarkJobDoneOp i) db = MarkJobDone i db"
| "job_step (SetJobDestOp i v) db = fst (SetJobDest i v db)"
| "job_step (GCJobsOp limit) db = fst (GCTerminalVlogJobs limit db)"

fun perform :: "catalog_op \<Rightarrow> DB \<Rightarrow> DB" where
  "perform (Namespace p) db = namespace_step p db"
| "perform (Version p) db = version_step p db"
| "perform (Write p) db = write_step p db"
| "perform (Shard p) db = shard_step p db"
| "perform (Disk p) db = disk_step p db"
| "perform (Jobs p) db = job_step p db"

text \<open>What callers keep: a published chunk is named by its 15-byte content hash.\<close>

definition hash_sized :: "ChunkPlacement \<Rightarrow> bool" where
  "hash_sized p \<longleftrightarrow> length (cp_Hash p) = 15"

fun op_ok :: "catalog_op \<Rightarrow> bool" where
  "op_ok (Version (CommitFileOp path mtime ps)) = list_all hash_sized ps"
| "op_ok (Write (CommitWriteOp fault i path mtime ps e)) = list_all hash_sized ps"
| "op_ok _ = True"

inductive reachable :: "DB \<Rightarrow> bool" where
  empty: "reachable empty_db"
| step: "reachable db \<Longrightarrow> op_ok p \<Longrightarrow> reachable (perform p db)"

inductive steps :: "DB \<Rightarrow> DB \<Rightarrow> bool" where
  none: "steps db db"
| more: "steps db db' \<Longrightarrow> op_ok p \<Longrightarrow> steps db (perform p db')"

section \<open>Frames\<close>

text \<open>
  Most operations touch few tables. \<open>placement_frame\<close>: only the tables of logs, shards, disks, nodes,
  jobs and buckets, and their counters, may differ.
\<close>

definition version_tables ::
  "DB \<Rightarrow> file_row list \<times> head_row list \<times> snapshot_row list \<times> snapshot_file_row list \<times> result_root_row list \<times> chunk_row list \<times> int" where
  "version_tables db =
     (t_file db, t_head db, t_snapshot db, t_snapshot_file db, t_result_root db, t_chunk db, file_seq db)"

definition op_tables :: "DB \<Rightarrow> write_op_row list \<times> result_root_row list \<times> int" where
  "op_tables db = (t_write_op db, t_result_root db, write_op_seq db)"

definition dir_tables :: "DB \<Rightarrow> dir_row list \<times> snapshot_dir_row list \<times> retention_row option \<times> int" where
  "dir_tables db = (t_dir db, t_snapshot_dir db, t_retention db, snapshot_seq db)"

definition placement_frame :: "DB \<Rightarrow> DB \<Rightarrow> bool" where
  "placement_frame db db' \<longleftrightarrow>
     version_tables db' = version_tables db \<and> op_tables db' = op_tables db \<and> dir_tables db' = dir_tables db"

lemmas frame_defs = version_tables_def op_tables_def dir_tables_def

lemma placement_frameI:
  "db' = db\<lparr>t_vlog := a, t_vlog_plog := b, t_plog := c, t_lease := l\<rparr> \<Longrightarrow> placement_frame db db'"
  by (simp add: placement_frame_def frame_defs)

lemma placement_frame_refl [simp]: "placement_frame db db"
  by (simp add: placement_frame_def)

lemma placement_frame_trans: "placement_frame a b \<Longrightarrow> placement_frame b c \<Longrightarrow> placement_frame a c"
  by (simp add: placement_frame_def)

lemma placement_frame_updates [simp]:
  "placement_frame db (db'\<lparr>t_vlog := a\<rparr>) = placement_frame db db'"
  "placement_frame db (db'\<lparr>t_vlog_plog := b\<rparr>) = placement_frame db db'"
  "placement_frame db (db'\<lparr>t_plog := c\<rparr>) = placement_frame db db'"
  "placement_frame db (db'\<lparr>t_lease := l\<rparr>) = placement_frame db db'"
  "placement_frame db (db'\<lparr>t_disk := d\<rparr>) = placement_frame db db'"
  "placement_frame db (db'\<lparr>t_node := n\<rparr>) = placement_frame db db'"
  "placement_frame db (db'\<lparr>t_job := j\<rparr>) = placement_frame db db'"
  "placement_frame db (db'\<lparr>t_bucket := bu\<rparr>) = placement_frame db db'"
  "placement_frame db (db'\<lparr>vlog_seq := i\<rparr>) = placement_frame db db'"
  "placement_frame db (db'\<lparr>plog_seq := i\<rparr>) = placement_frame db db'"
  "placement_frame db (db'\<lparr>job_seq := i\<rparr>) = placement_frame db db'"
  "placement_frame db (db'\<lparr>placement_clock := i\<rparr>) = placement_frame db db'"
  by (simp_all add: placement_frame_def frame_defs)

lemma placement_frame_bump [simp]:
  "placement_frame db (bump_vlogs P db') = placement_frame db db'"
  "placement_frame db (bump_plogs P db') = placement_frame db db'"
  by (simp_all add: bump_vlogs_def bump_plogs_def)

lemma placement_frame_fold:
  "(\<And>x s. placement_frame db s \<Longrightarrow> placement_frame db (f x s)) \<Longrightarrow> placement_frame db db' \<Longrightarrow> placement_frame db (fold f xs db')"
  by (induction xs arbitrary: db') auto

lemma placement_frame_leases [simp]: "placement_frame db db' \<Longrightarrow> placement_frame db (delete_leases P db')"
  unfolding delete_leases_def by (rule placement_frame_fold) simp_all

lemma placement_frame_mappings [simp]: "placement_frame db db' \<Longrightarrow> placement_frame db (delete_mappings P db')"
  unfolding delete_mappings_def by (rule placement_frame_fold) simp_all

lemma placement_frame_delete_plog [simp]: "placement_frame db db' \<Longrightarrow> placement_frame db (delete_plog i db')"
  by (simp add: delete_plog_def)

lemma placement_frame_changed [simp]:
  "placement_frame db (insert_mapping m db') = placement_frame db db'"
  "placement_frame db (repoint_mapping m i db') = placement_frame db db'"
  "placement_frame db (insert_lease l db') = placement_frame db db'"
  "placement_frame db (plog_changed i db') = placement_frame db db'"
  "placement_frame db (disks_changed D db') = placement_frame db db'"
  "placement_frame db (new_generation D db') = placement_frame db db'"
  "placement_frame db (disk_changed i db') = placement_frame db db'"
  "placement_frame db (node_changed i db') = placement_frame db db'"
  "placement_frame db (vlog_changed i db') = placement_frame db db'"
  by (simp_all add: insert_mapping_def repoint_mapping_def insert_lease_def plog_changed_def disks_changed_def new_generation_def
      disk_changed_def node_changed_def vlog_changed_def Let_def)

lemma placement_frame_delete_vlog [simp]: "placement_frame db db' \<Longrightarrow> placement_frame db (delete_vlog i db')"
  by (simp add: delete_vlog_def Let_def)

lemma transact_frame: "(\<And>db' x. m db = (db', x) \<Longrightarrow> placement_frame db db') \<Longrightarrow> placement_frame db (fst (transact m db))"
  by (auto simp: transact_def split: prod.splits sum.splits)

lemmas vlog_op_defs =
  MakeVlogInDomain_def DiscardEmptyVlog_def MakePlog_def MakeRepairPlog_def DiscardUnassignedPlog_def SetVlogLength_def
  SetPlogLength_def AssignPlogToVlog_def MakeAssignedPlog_def ReplaceShardPlog_def insert_plog_def
  RetireUnassignedRepairPlogs_def ClaimVlogLease_def ReleaseWriteOpLeases_def

lemmas disk_op_defs =
  RegisterDiskWithCapacity_def SetDiskState_def MovePlogToDisk_def RegisterNode_def SetNodeState_def SetBucketPolicy_def upsert_bucket_def

lemmas job_op_defs =
  getOrCreateVlogJob_def getOrCreateDiskJob_def insert_job_def close_jobs_def FinishRunningScrubRepairJob_def FinishRunningPromoteJob_def
  FinishRunningCompactionJob_def CancelRunningReprotect_def MarkJobDone_def SetJobDest_def GCTerminalVlogJobs_def

lemma shard_step_frame: "placement_frame db (shard_step p db)"
  by (cases p)
     (auto simp: vlog_op_defs Let_def io_simps intro!: transact_frame placement_frame_fold
       split: option.splits if_splits prod.splits sum.splits)

lemma disk_step_frame: "placement_frame db (disk_step p db)"
  by (cases p) (auto simp: disk_op_defs Let_def io_simps intro!: transact_frame split: option.splits if_splits prod.splits sum.splits)

lemma job_step_frame: "placement_frame db (job_step p db)"
  by (cases p) (auto simp: job_op_defs Let_def io_simps intro!: transact_frame split: option.splits if_splits prod.splits sum.splits)

lemma lease_step_frame:
  "placement_frame db (fst (ClaimVlogLease v i n db))" "placement_frame db (ReleaseWriteOpLeases i db)"
  by (auto simp: vlog_op_defs io_simps intro!: transact_frame split: option.splits if_splits)

end
