(* ===== verification/Rose_Refs.thy ===== *)
theory Rose_Refs
  imports Rose_Catalog_Step
begin

text \<open>
  Chunk reference counts. The count of a chunk row equals the number of its occurrences in the versions
  that file heads, snapshots and retained results hold, after any sequence of catalog operations; hence
  collecting chunks and retiring vlogs never takes a chunk that a held version needs.
\<close>

section \<open>Counting references\<close>

definition hashes_of :: "DB \<Rightarrow> int \<Rightarrow> bytes list" where
  "hashes_of db i = (case file_by_id i db of None \<Rightarrow> [] | Some f \<Rightarrow> chunkHashes (f_chunks f))"

definition root_files :: "DB \<Rightarrow> int list" where
  "root_files db = map h_file (t_head db) @ map sf_file (t_snapshot_file db) @ map r_file (t_result_root db)"

definition occurs :: "DB \<Rightarrow> int \<Rightarrow> bytes \<Rightarrow> int" where
  "occurs db i h = int (count_list (hashes_of db i) h)"

definition refs :: "DB \<Rightarrow> bytes \<Rightarrow> int" where
  "refs db h = sum_list (map (\<lambda>i. occurs db i h) (root_files db))"

definition refcount_of :: "DB \<Rightarrow> bytes \<Rightarrow> int" where
  "refcount_of db h = (case chunk_at h db of None \<Rightarrow> 0 | Some c \<Rightarrow> c_refcount c)"

definition keys_ok :: "DB \<Rightarrow> bool" where
  "keys_ok db \<longleftrightarrow>
     distinct (map h_path (t_head db)) \<and> distinct (map f_id (t_file db)) \<and> distinct (map c_hash (t_chunk db)) \<and>
     distinct (map r_op (t_result_root db)) \<and> 0 \<le> file_seq db \<and>
     (\<forall>f \<in> set (t_file db). 0 < f_id f \<and> f_id f \<le> file_seq db) \<and>
     (\<forall>s \<in> set (t_snapshot_file db). sf_snapshot s \<in> s_id ` set (t_snapshot db))"

definition rooted_ok :: "DB \<Rightarrow> bool" where
  "rooted_ok db \<longleftrightarrow> (\<forall>i \<in> set (root_files db). file_by_id i db \<noteq> None \<and> (\<forall>h \<in> set (hashes_of db i). chunk_at h db \<noteq> None))"

text \<open>Inside a transaction counts and references may differ; \<open>D\<close> is by how much.\<close>

definition counted :: "(bytes \<Rightarrow> int) \<Rightarrow> DB \<Rightarrow> bool" where
  "counted D db \<longleftrightarrow> keys_ok db \<and> rooted_ok db \<and> (\<forall>h. refcount_of db h = refs db h + D h)"

definition refcounts_exact :: "DB \<Rightarrow> bool" where
  "refcounts_exact db \<longleftrightarrow> counted (\<lambda>_. 0) db"

lemma counted_cong: "counted D db \<Longrightarrow> (\<And>h. D h = D' h) \<Longrightarrow> counted D' db"
  by (simp add: counted_def)

lemma version_tables_counted: "version_tables db' = version_tables db \<Longrightarrow> counted D db' = counted D db"
  by (simp add: version_tables_def counted_def keys_ok_def rooted_ok_def refs_def occurs_def hashes_of_def root_files_def
      refcount_of_def file_by_id_def chunk_at_def)

lemma placement_frame_counted: "placement_frame db db' \<Longrightarrow> counted D db' = counted D db"
  by (rule version_tables_counted) (simp add: placement_frame_def)

section \<open>Chunk rows\<close>

text \<open>Only the chunk table differs.\<close>

definition only_chunks :: "DB \<Rightarrow> DB \<Rightarrow> bool" where
  "only_chunks db db' \<longleftrightarrow> (\<exists>cs. db' = db\<lparr>t_chunk := cs\<rparr>)"

lemma only_chunks_refl [simp]: "only_chunks db db"
  unfolding only_chunks_def by (rule exI [of _ "t_chunk db"]) simp

lemma only_chunks_update [simp]: "only_chunks db (db\<lparr>t_chunk := cs\<rparr>)"
  by (auto simp: only_chunks_def)

lemma only_chunks_trans: "only_chunks a b \<Longrightarrow> only_chunks b c \<Longrightarrow> only_chunks a c"
  by (auto simp: only_chunks_def)

lemma only_chunksD:
  assumes "only_chunks db db'"
  shows "t_head db' = t_head db" "t_file db' = t_file db" "t_dir db' = t_dir db" "t_snapshot db' = t_snapshot db"
    "t_snapshot_file db' = t_snapshot_file db" "t_result_root db' = t_result_root db" "file_seq db' = file_seq db"
    "t_write_op db' = t_write_op db" "t_lease db' = t_lease db" "file_by_id i db' = file_by_id i db" "head_at p db' = head_at p db"
    "dir_at p db' = dir_at p db" "hashes_of db' i = hashes_of db i" "root_files db' = root_files db" "refs db' = refs db" "occurs db' = occurs db"
    "snapshot_seq db' = snapshot_seq db" "t_snapshot_dir db' = t_snapshot_dir db" "write_op_seq db' = write_op_seq db" "t_vlog db' = t_vlog db"
  using assms
  by (auto simp: only_chunks_def file_by_id_def head_at_def dir_at_def hashes_of_def root_files_def refs_def occurs_def fun_eq_iff)

text \<open>A change of chunk rows that keeps their keys and adds \<open>\<delta>\<close> to the counts.\<close>

lemma counted_chunks:
  assumes c: "counted D db" and o: "only_chunks db db'"
    and k: "distinct (map c_hash (t_chunk db'))"
    and p: "\<And>h. chunk_at h db \<noteq> None \<Longrightarrow> chunk_at h db' \<noteq> None"
    and d: "\<And>h. refcount_of db' h = refcount_of db h + \<delta> h"
  shows "counted (\<lambda>h. D h + \<delta> h) db'"
  using c k p d unfolding counted_def keys_ok_def rooted_ok_def by (auto simp: only_chunksD [OF o])

definition bump_ref :: "int \<Rightarrow> bytes \<Rightarrow> DB \<Rightarrow> DB" where
  "bump_ref delta hash db =
     db\<lparr>t_chunk := update (\<lambda>c. c_hash c = hash) (\<lambda>c. c\<lparr>c_refcount := c_refcount c + delta\<rparr>) (t_chunk db)\<rparr>"

lemma adjustChunkRefs_eq: "adjustChunkRefs chunks delta db = fold (bump_ref delta) (chunkHashes chunks) db"
  by (simp add: adjustChunkRefs_def bump_ref_def [abs_def])

lemma chunk_at_bump_ref:
  "chunk_at h (bump_ref d x db) = map_option (\<lambda>c. if c_hash c = x then c\<lparr>c_refcount := c_refcount c + d\<rparr> else c) (chunk_at h db)"
  unfolding chunk_at_def bump_ref_def by (simp add: lookup_update)

lemma chunk_at_hash: "chunk_at h db = Some c \<Longrightarrow> c_hash c = h"
  unfolding chunk_at_def by (drule lookup_SomeD) simp

lemma refcount_of_bump_ref:
  "chunk_at x db \<noteq> None \<Longrightarrow> refcount_of (bump_ref d x db) h = refcount_of db h + (if h = x then d else 0)"
  by (auto simp: refcount_of_def chunk_at_bump_ref dest: chunk_at_hash split: option.splits)

lemma bump_ref_chunks: "only_chunks db (bump_ref d x db)" "map c_hash (t_chunk (bump_ref d x db)) = map c_hash (t_chunk db)"
  by (simp_all add: bump_ref_def map_update)

lemma fold_bump_ref:
  "(\<forall>h \<in> set hs. chunk_at h db \<noteq> None) \<Longrightarrow>
   only_chunks db (fold (bump_ref d) hs db) \<and> map c_hash (t_chunk (fold (bump_ref d) hs db)) = map c_hash (t_chunk db) \<and>
   (\<forall>h. (chunk_at h (fold (bump_ref d) hs db) = None) = (chunk_at h db = None)) \<and>
   (\<forall>h. refcount_of (fold (bump_ref d) hs db) h = refcount_of db h + d * int (count_list hs h))"
proof (induction hs arbitrary: db)
  case (Cons x hs)
  let ?db = "bump_ref d x db"
  have "\<forall>h \<in> set hs. chunk_at h ?db \<noteq> None" using Cons.prems by (simp add: chunk_at_bump_ref)
  from Cons.IH [OF this] have IH: "only_chunks ?db (fold (bump_ref d) hs ?db)"
    "map c_hash (t_chunk (fold (bump_ref d) hs ?db)) = map c_hash (t_chunk ?db)"
    "\<And>h. (chunk_at h (fold (bump_ref d) hs ?db) = None) = (chunk_at h ?db = None)"
    "\<And>h. refcount_of (fold (bump_ref d) hs ?db) h = refcount_of ?db h + d * int (count_list hs h)"
    by auto
  have "chunk_at x db \<noteq> None" using Cons.prems by simp
  with IH show ?case
    by (auto simp: bump_ref_chunks chunk_at_bump_ref refcount_of_bump_ref algebra_simps intro: only_chunks_trans [OF bump_ref_chunks(1)])
qed simp

lemma adjust_version_counted:
  assumes c: "counted D db" and i: "i \<in> set (root_files db)"
  obtains db' where "adjust_version i d db = (db', Inr ())" "only_chunks db db'" "counted (\<lambda>h. D h + d * occurs db i h) db'"
proof -
  from c i have r: "file_by_id i db \<noteq> None" "\<forall>h \<in> set (hashes_of db i). chunk_at h db \<noteq> None"
    by (auto simp: counted_def rooted_ok_def)
  then obtain f where f: "file_by_id i db = Some f" by blast
  then have h: "hashes_of db i = chunkHashes (f_chunks f)" by (simp add: hashes_of_def)
  let ?db = "fold (bump_ref d) (hashes_of db i) db"
  note F = fold_bump_ref [where d = d, OF r(2)]
  have "adjust_version i d db = (?db, Inr ())"
    by (simp add: adjust_version_def fileChunks_def f io_simps adjustChunkRefs_eq h)
  moreover have "counted (\<lambda>x. D x + d * occurs db i x) ?db"
    using F c by (intro counted_chunks [OF c]) (auto simp: occurs_def counted_def keys_ok_def)
  ultimately show thesis using F that by blast
qed

text \<open>The same for a version that is not yet a root, as long as its chunks have rows.\<close>

lemma adjust_version_new:
  assumes c: "counted D db" and i: "file_by_id i db \<noteq> None" "\<forall>h \<in> set (hashes_of db i). chunk_at h db \<noteq> None"
  obtains db' where "adjust_version i d db = (db', Inr ())" "only_chunks db db'" "counted (\<lambda>h. D h + d * occurs db i h) db'"
    "\<And>h. (chunk_at h db' = None) = (chunk_at h db = None)"
proof -
  from i obtain f where f: "file_by_id i db = Some f" by blast
  then have h: "hashes_of db i = chunkHashes (f_chunks f)" by (simp add: hashes_of_def)
  let ?db = "fold (bump_ref d) (hashes_of db i) db"
  note F = fold_bump_ref [where d = d, OF i(2)]
  have "adjust_version i d db = (?db, Inr ())"
    by (simp add: adjust_version_def fileChunks_def f io_simps adjustChunkRefs_eq h)
  moreover have "counted (\<lambda>x. D x + d * occurs db i x) ?db"
    using F c by (intro counted_chunks [OF c]) (auto simp: occurs_def counted_def keys_ok_def)
  ultimately show thesis using F that by blast
qed

section \<open>Upserts\<close>

lemma concat_batches: "0 < n \<Longrightarrow> concat (batches n xs) = xs"
proof (induction n xs rule: batches.induct)
  case (1 n xs)
  then show ?case by (subst batches.simps) auto
qed

lemma upsertChunkRefs_eq: "upsertChunkRefs ps db = fold upsert_chunk ps db"
proof -
  have "fold (fold upsert_chunk) bs db = fold upsert_chunk (concat bs) db" for bs
    by (induction bs arbitrary: db) auto
  then show ?thesis by (simp add: upsertChunkRefs_def concat_batches maxChunkUpsertRows_def)
qed

lemma upsert_chunk_effect:
  assumes "distinct (map c_hash (t_chunk db))"
  shows "only_chunks db (upsert_chunk p db)" "distinct (map c_hash (t_chunk (upsert_chunk p db)))"
    "chunk_at h (upsert_chunk p db) = None \<longleftrightarrow> h \<noteq> cp_Hash p \<and> chunk_at h db = None"
    "refcount_of (upsert_chunk p db) h = refcount_of db h + (if h = cp_Hash p then 1 else 0)"
proof -
  show "only_chunks db (upsert_chunk p db)" by (simp add: upsert_chunk_def)
  show "distinct (map c_hash (t_chunk (upsert_chunk p db)))"
    using assms by (auto simp: upsert_chunk_def chunk_at_def map_update lookup_None_iff)
  have at: "chunk_at h (upsert_chunk p db) =
      (if chunk_at (cp_Hash p) db = None \<and> h = cp_Hash p
       then Some \<lparr>c_hash = cp_Hash p, c_refcount = 1, c_vlog = cp_VlogID p, c_vaddr = cp_VaddrOffset p, c_logical = cp_LogicalLen p,
                  c_compressed = cp_CompressedLen p\<rparr>
       else map_option (\<lambda>c. if c_hash c = cp_Hash p then
             \<lparr>c_hash = c_hash c, c_refcount = c_refcount c + 1,
              c_vlog = (if c_refcount c = 0 then cp_VlogID p else c_vlog c),
              c_vaddr = (if c_refcount c = 0 then cp_VaddrOffset p else c_vaddr c),
              c_logical = (if c_refcount c = 0 then cp_LogicalLen p else c_logical c),
              c_compressed = (if c_refcount c = 0 then cp_CompressedLen p else c_compressed c)\<rparr> else c) (chunk_at h db))"
    unfolding upsert_chunk_def
    by (auto simp: chunk_at_def lookup_append lookup_update lookup_None_iff dest: lookup_SomeD split: option.splits)
  show "chunk_at h (upsert_chunk p db) = None \<longleftrightarrow> h \<noteq> cp_Hash p \<and> chunk_at h db = None"
    using at by auto
  show "refcount_of (upsert_chunk p db) h = refcount_of db h + (if h = cp_Hash p then 1 else 0)"
    by (auto simp: refcount_of_def at dest: chunk_at_hash split: option.splits)
qed

lemma upsertChunkRefs_effect:
  "distinct (map c_hash (t_chunk db)) \<Longrightarrow>
   only_chunks db (upsertChunkRefs ps db) \<and> distinct (map c_hash (t_chunk (upsertChunkRefs ps db))) \<and>
   (\<forall>h. chunk_at h (upsertChunkRefs ps db) = None \<longleftrightarrow> h \<notin> cp_Hash ` set ps \<and> chunk_at h db = None) \<and>
   (\<forall>h. refcount_of (upsertChunkRefs ps db) h = refcount_of db h + int (count_list (map cp_Hash ps) h))"
  unfolding upsertChunkRefs_eq
proof (induction ps arbitrary: db)
  case (Cons p ps)
  let ?db = "upsert_chunk p db"
  note E = upsert_chunk_effect [where p = p, OF Cons.prems]
  from Cons.IH [OF E(2)] show ?case
    by (auto simp: E(3,4) intro: only_chunks_trans [OF E(1)])
qed simp

lemma upsertChunkRefs_counted:
  assumes c: "counted D db"
  shows "only_chunks db (upsertChunkRefs ps db)" "counted (\<lambda>h. D h + int (count_list (map cp_Hash ps) h)) (upsertChunkRefs ps db)"
    "\<forall>h \<in> cp_Hash ` set ps. chunk_at h (upsertChunkRefs ps db) \<noteq> None"
proof -
  have k: "distinct (map c_hash (t_chunk db))" using c by (simp add: counted_def keys_ok_def)
  note E = upsertChunkRefs_effect [where ps = ps, OF k]
  show "only_chunks db (upsertChunkRefs ps db)" using E by blast
  then show "counted (\<lambda>h. D h + int (count_list (map cp_Hash ps) h)) (upsertChunkRefs ps db)"
    using E by (intro counted_chunks [OF c]) auto
  show "\<forall>h \<in> cp_Hash ` set ps. chunk_at h (upsertChunkRefs ps db) \<noteq> None" using E by blast
qed

section \<open>Roots\<close>

lemma update_none: "\<forall>x \<in> set xs. \<not> P x \<Longrightarrow> update P f xs = xs"
  by (simp add: update_def map_idI)

lemma delete_none: "\<forall>x \<in> set xs. \<not> P x \<Longrightarrow> delete P xs = xs"
  by (simp add: delete_def filter_id_conv)

lemma sum_update_key:
  "distinct (map k xs) \<Longrightarrow> lookup (\<lambda>x. k x = v) xs = Some x \<Longrightarrow>
   sum_list (map g (update (\<lambda>x. k x = v) f xs)) = sum_list (map g xs) + g (f x) - (g x :: int)"
proof (induction xs)
  case (Cons y ys)
  show ?case
  proof (cases "k y = v")
    case True
    then have "x = y" using Cons.prems by simp
    have "\<forall>z \<in> set ys. k z \<noteq> v" using Cons.prems True by (auto simp: rev_image_eqI)
    then have "update (\<lambda>x. k x = v) f ys = ys" by (rule update_none)
    moreover have "update (\<lambda>x. k x = v) f (y # ys) = f y # update (\<lambda>x. k x = v) f ys" using True by (simp add: update_def)
    ultimately show ?thesis using \<open>x = y\<close> by simp
  next
    case False
    then show ?thesis using Cons by (simp add: update_def)
  qed
qed simp

lemma sum_delete_key:
  "distinct (map k xs) \<Longrightarrow> lookup (\<lambda>x. k x = v) xs = Some x \<Longrightarrow>
   sum_list (map g (delete (\<lambda>x. k x = v) xs)) = sum_list (map g xs) - (g x :: int)"
proof (induction xs)
  case (Cons y ys)
  show ?case
  proof (cases "k y = v")
    case True
    then have "x = y" using Cons.prems by simp
    moreover have "\<forall>z \<in> set ys. k z \<noteq> v" using Cons.prems True by (auto simp: rev_image_eqI)
    ultimately show ?thesis using True delete_none [of ys "\<lambda>x. k x = v"] by (simp add: delete_def)
  next
    case False
    then show ?thesis using Cons by (simp add: delete_def)
  qed
qed simp

lemma sum_delete: "sum_list (map g (delete P xs)) = sum_list (map g xs) - (sum_list (map g (filter P xs)) :: int)"
  by (induction xs) (auto simp: delete_def)

text \<open>A change of the tables of roots.\<close>

lemma counted_roots:
  assumes c: "counted D db" and t: "t_file db' = t_file db" "t_chunk db' = t_chunk db" and k: "keys_ok db'"
    and r: "\<And>i. i \<in> set (root_files db') \<Longrightarrow> i \<in> set (root_files db) \<or>
         (file_by_id i db \<noteq> None \<and> (\<forall>h \<in> set (hashes_of db i). chunk_at h db \<noteq> None))"
    and d: "\<And>h. refs db' h = refs db h + \<delta> h"
  shows "counted (\<lambda>h. D h - \<delta> h) db'"
proof -
  have f: "file_by_id i db' = file_by_id i db" "chunk_at h db' = chunk_at h db" "hashes_of db' i = hashes_of db i" for i h
    using t by (simp_all add: file_by_id_def chunk_at_def hashes_of_def)
  then have "refcount_of db' h = refcount_of db h" for h by (simp add: refcount_of_def)
  moreover have "rooted_ok db'" using c r unfolding rooted_ok_def counted_def f by blast
  ultimately show ?thesis using c k d by (simp add: counted_def)
qed

lemma occurs_tables: "t_file db' = t_file db \<Longrightarrow> occurs db' = occurs db"
  by (simp add: fun_eq_iff occurs_def hashes_of_def file_by_id_def)

lemma refs_split:
  "refs db h = sum_list (map (\<lambda>x. occurs db (h_file x) h) (t_head db)) + sum_list (map (\<lambda>x. occurs db (sf_file x) h) (t_snapshot_file db)) +
     sum_list (map (\<lambda>x. occurs db (r_file x) h) (t_result_root db))"
  by (simp add: refs_def root_files_def o_def)

text \<open>Storing a version.\<close>

lemma insert_file_counted:
  assumes c: "counted D db" and e: "insert_file path mtime chunks db = (db', r)"
  obtains i where "r = Inr i" "i = file_seq db + 1" "counted D db'" "file_by_id i db' \<noteq> None" "hashes_of db' i = chunkHashes chunks"
    "\<And>j. j \<noteq> i \<Longrightarrow> file_by_id j db' = file_by_id j db" "i \<notin> set (root_files db)"
    "db' = db\<lparr>t_file := t_file db @ [\<lparr>f_id = i, f_path = path, f_mtime = mtime, f_chunks = chunks\<rparr>], file_seq := i\<rparr>"
proof -
  let ?i = "file_seq db + 1"
  have k: "keys_ok db" and ro: "rooted_ok db" using c by (simp_all add: counted_def)
  then have new: "file_by_id ?i db = None" by (fastforce simp: keys_ok_def file_by_id_def lookup_None_iff)
  have db': "db' = db\<lparr>t_file := t_file db @ [\<lparr>f_id = ?i, f_path = path, f_mtime = mtime, f_chunks = chunks\<rparr>], file_seq := ?i\<rparr>"
    and r: "r = Inr ?i" using e by (simp_all add: insert_file_def Let_def)
  have at: "file_by_id j db' = (if j = ?i then Some \<lparr>f_id = ?i, f_path = path, f_mtime = mtime, f_chunks = chunks\<rparr> else file_by_id j db)" for j
    using new by (auto simp: db' file_by_id_def lookup_append split: option.splits)
  have nr: "?i \<notin> set (root_files db)" using new ro by (auto simp: rooted_ok_def)
  have ho: "hashes_of db' j = hashes_of db j" if "j \<in> set (root_files db)" for j
    using that nr by (auto simp: hashes_of_def at)
  have roots: "root_files db' = root_files db" "chunk_at h db' = chunk_at h db" "refcount_of db' h = refcount_of db h" for h
    by (simp_all add: db' root_files_def chunk_at_def refcount_of_def)
  have "refs db' h = refs db h" for h
    unfolding refs_def roots occurs_def by (rule arg_cong [where f = sum_list], rule map_cong) (simp_all add: ho)
  moreover have "keys_ok db'" using k by (fastforce simp: keys_ok_def db')
  moreover have "rooted_ok db'" using ro nr by (auto simp: rooted_ok_def roots ho at)
  ultimately have "counted D db'" using c by (simp add: counted_def roots)
  moreover have "file_by_id ?i db' \<noteq> None" "hashes_of db' ?i = chunkHashes chunks" "\<And>j. j \<noteq> ?i \<Longrightarrow> file_by_id j db' = file_by_id j db"
    by (simp_all add: at hashes_of_def)
  ultimately show thesis using r nr db' by (intro that [of ?i]) (rule refl | assumption)+
qed

text \<open>Heads.\<close>

lemma head_at_root: "head_at p db = Some h \<Longrightarrow> h_file h \<in> set (root_files db)"
  unfolding head_at_def root_files_def by (drule lookup_SomeD) simp

lemma keys_ok_heads:
  "keys_ok db \<Longrightarrow> distinct (map h_path hs) \<Longrightarrow> keys_ok (db\<lparr>t_head := hs\<rparr>)"
  by (simp add: keys_ok_def)

lemma upsert_head_tables [simp]:
  "t_file (upsert_head path i mtime db) = t_file db" "t_chunk (upsert_head path i mtime db) = t_chunk db"
  "t_snapshot_file (upsert_head path i mtime db) = t_snapshot_file db" "t_result_root (upsert_head path i mtime db) = t_result_root db"
  "t_snapshot (upsert_head path i mtime db) = t_snapshot db" "file_seq (upsert_head path i mtime db) = file_seq db"
  "t_write_op (upsert_head path i mtime db) = t_write_op db" "t_lease (upsert_head path i mtime db) = t_lease db"
  by (simp_all add: upsert_head_def Let_def)

lemma upsert_head_counted:
  assumes c: "counted D db" and i: "file_by_id i db \<noteq> None" "\<forall>h \<in> set (hashes_of db i). chunk_at h db \<noteq> None"
  shows "counted (\<lambda>h. D h - occurs db i h + (case head_at path db of None \<Rightarrow> 0 | Some old \<Rightarrow> occurs db (h_file old) h)) (upsert_head path i mtime db)"
proof -
  let ?row = "\<lparr>h_path = path, h_file = i, h_parent = fst (splitPath path), h_name = snd (splitPath path), h_mtime = mtime\<rparr>"
  let ?db = "upsert_head path i mtime db"
  have k: "keys_ok db" "distinct (map h_path (t_head db))" using c by (simp_all add: counted_def keys_ok_def)
  have db: "?db = db\<lparr>t_head := t_head ?db\<rparr>" by (simp add: upsert_head_def Let_def)
  have same: "t_file ?db = t_file db" "t_chunk ?db = t_chunk db" "t_snapshot_file ?db = t_snapshot_file db" "t_result_root ?db = t_result_root db"
    by (simp_all add: upsert_head_def Let_def)
  have kd: "distinct (map h_path (t_head ?db))"
    using k(2) by (auto simp: upsert_head_def Let_def head_at_def lookup_None_iff map_update)
  have keys: "keys_ok ?db" by (subst db, rule keys_ok_heads [OF k(1) kd])
  have roots: "x \<in> set (root_files ?db) \<Longrightarrow> x = i \<or> x \<in> set (root_files db)" for x
    by (auto simp: root_files_def upsert_head_def Let_def set_update split: if_splits)
  have "refs ?db h = refs db h + (occurs db i h - (case head_at path db of None \<Rightarrow> 0 | Some old \<Rightarrow> occurs db (h_file old) h))" for h
  proof (cases "head_at path db")
    case None
    then show ?thesis unfolding refs_split occurs_tables [OF same(1)] by (simp add: upsert_head_def Let_def)
  next
    case (Some old)
    then have "sum_list (map (\<lambda>x. occurs db (h_file x) h) (t_head ?db)) =
        sum_list (map (\<lambda>x. occurs db (h_file x) h) (t_head db)) + occurs db i h - occurs db (h_file old) h"
      using sum_update_key [where k = h_path and v = path and g = "\<lambda>x. occurs db (h_file x) h" and f = "\<lambda>_. ?row", OF k(2)]
      by (simp add: upsert_head_def Let_def head_at_def)
    then show ?thesis unfolding refs_split occurs_tables [OF same(1)] by (simp add: same Some)
  qed
  then have "counted (\<lambda>h. D h - (occurs db i h - (case head_at path db of None \<Rightarrow> 0 | Some old \<Rightarrow> occurs db (h_file old) h))) ?db"
    using i by (intro counted_roots [OF c same(1,2) keys]) (auto dest: roots)
  then show ?thesis by (rule counted_cong) (simp split: option.splits)
qed

lemma delete_head_counted:
  assumes c: "counted D db" and h: "head_at path db = Some old"
  shows "counted (\<lambda>x. D x + occurs db (h_file old) x) (db\<lparr>t_head := delete (\<lambda>h. h_path h = path) (t_head db)\<rparr>)" (is "counted _ ?db")
proof -
  have k: "keys_ok db" "distinct (map h_path (t_head db))" using c by (simp_all add: counted_def keys_ok_def)
  have "refs ?db x = refs db x + - occurs db (h_file old) x" for x
    unfolding refs_split using sum_delete_key [OF k(2) h [unfolded head_at_def], where g = "\<lambda>y. occurs db (h_file y) x"]
    by (simp add: occurs_def hashes_of_def file_by_id_def)
  then have "counted (\<lambda>x. D x - - occurs db (h_file old) x) ?db"
    using k by (intro counted_roots [OF c]) (auto simp: root_files_def intro: keys_ok_heads distinct_map_delete)
  then show ?thesis by simp
qed

text \<open>Directories, operations and the other tables outside \<open>version_tables\<close> play no part.\<close>

lemma ensure_each_frame: "ensure_each dirs mtime db = (db', r) \<Longrightarrow> version_tables db' = version_tables db"
  by (induction dirs arbitrary: db)
     (auto simp: io_simps insert_dir_def version_tables_def split: option.splits if_splits)

lemma ensureDirs_frame: "ensureDirs path mtime db = (db', r) \<Longrightarrow> version_tables db' = version_tables db"
  unfolding ensureDirs_def by (rule ensure_each_frame)

lemma cancel_prepared_frame [simp]: "version_tables (cancel_prepared P db) = version_tables db"
  by (simp add: cancel_prepared_def version_tables_def)

section \<open>Publication\<close>

definition release_head :: "string \<Rightarrow> (DB, unit) io" where
  "release_head path db = (case head_at path db of None \<Rightarrow> (db, Inr ()) | Some h \<Rightarrow> adjust_version (h_file h) (- 1) db)"

lemma publish_cases:
  assumes "publishFileVersion path mtime ps db = (db', Inr i)"
  obtains db1 db3 where "cleanPath path \<noteq> []" "dir_at (cleanPath path) db = None" "release_head (cleanPath path) db = (db1, Inr ())"
    "insert_file (cleanPath path) mtime (concat (map chunk_entry ps)) (upsertChunkRefs ps db1) = (db3, Inr i)"
    "ensureDirs (cleanPath path) mtime (upsert_head (cleanPath path) i mtime db3) = (db', Inr ())"
  using assms unfolding publishFileVersion_def release_head_def
  by (auto simp: Let_def io_simps split: if_splits option.splits prod.splits sum.splits)

lemma chunk_entry_len: "hash_sized p \<Longrightarrow> length (chunk_entry p) = 19"
  by (simp add: chunk_entry_def hash_sized_def)

lemma chunkHashes_entries: "list_all hash_sized ps \<Longrightarrow> chunkHashes (concat (map chunk_entry ps)) = map cp_Hash ps"
proof (induction ps)
  case Nil
  show ?case by (simp add: chunkHashes.simps [of "[]"])
next
  case (Cons p ps)
  then have p: "length (chunk_entry p) = 19" "\<And>rest. take 15 (chunk_entry p @ rest) = cp_Hash p"
    by (simp_all add: chunk_entry_def hash_sized_def)
  then show ?case using Cons by (subst chunkHashes.simps) simp
qed

lemma release_head_counted:
  assumes c: "counted D db"
  obtains db' where "release_head path db = (db', Inr ())" "only_chunks db db'"
    "counted (\<lambda>h. D h - (case head_at path db of None \<Rightarrow> 0 | Some old \<Rightarrow> occurs db (h_file old) h)) db'"
proof (cases "head_at path db")
  case None
  then show thesis using c that [of db] by (simp add: release_head_def)
next
  case (Some old)
  from adjust_version_counted [OF c head_at_root [OF Some], of "- 1"] obtain db' where
    "adjust_version (h_file old) (- 1) db = (db', Inr ())" "only_chunks db db'" "counted (\<lambda>h. D h + - 1 * occurs db (h_file old) h) db'"
    by blast
  then show thesis using Some that [of db'] by (simp add: release_head_def)
qed

lemma upsert_head_at: "head_at p (upsert_head path i mtime db) =
   (if p = path then Some \<lparr>h_path = path, h_file = i, h_parent = fst (splitPath path), h_name = snd (splitPath path), h_mtime = mtime\<rparr>
    else head_at p db)"
proof (cases "head_at path db")
  case None
  then show ?thesis by (auto simp: upsert_head_def Let_def head_at_def lookup_append split: option.splits)
next
  case (Some old)
  then have "lookup (\<lambda>h. h_path h = p) (update (\<lambda>h. h_path h = path) (\<lambda>_. row) (t_head db)) =
      map_option (\<lambda>h. if h_path h = path then row else h) (lookup (\<lambda>h. h_path h = p) (t_head db))"
    if "h_path row = path" for row
    using that by (intro lookup_update) auto
  with Some show ?thesis
    by (cases "lookup (\<lambda>h. h_path h = p) (t_head db)") (auto simp: upsert_head_def Let_def head_at_def dest: lookup_SomeD)
qed

lemma publish_counted:
  assumes c: "counted D db" and s: "list_all hash_sized ps" and e: "publishFileVersion path mtime ps db = (db', Inr i)"
  shows "counted D db'" "i = file_seq db + 1" "file_by_id i db' = Some \<lparr>f_id = i, f_path = cleanPath path, f_mtime = mtime, f_chunks = concat (map chunk_entry ps)\<rparr>"
    "hashes_of db' i = map cp_Hash ps" "t_result_root db' = t_result_root db" "i \<notin> set (root_files db)"
    "head_at (cleanPath path) db' = Some \<lparr>h_path = cleanPath path, h_file = i, h_parent = fst (splitPath (cleanPath path)), h_name = snd (splitPath (cleanPath path)), h_mtime = mtime\<rparr>"
    "\<forall>h \<in> cp_Hash ` set ps. chunk_at h db' \<noteq> None"
proof -
  let ?p = "cleanPath path" and ?old = "\<lambda>h. case head_at (cleanPath path) db of None \<Rightarrow> 0 | Some old \<Rightarrow> occurs db (h_file old) h"
  from publish_cases [OF e] obtain db1 db3 where e1: "release_head ?p db = (db1, Inr ())"
    and e3: "insert_file ?p mtime (concat (map chunk_entry ps)) (upsertChunkRefs ps db1) = (db3, Inr i)"
    and e5: "ensureDirs ?p mtime (upsert_head ?p i mtime db3) = (db', Inr ())" by blast
  let ?db2 = "upsertChunkRefs ps db1"
  have o1: "only_chunks db db1" and c1: "counted (\<lambda>h. D h - ?old h) db1"
    using release_head_counted [OF c, of ?p] e1 by auto
  note U = upsertChunkRefs_counted [OF c1, of ps]
  have o2: "only_chunks db ?db2" by (rule only_chunks_trans [OF o1 U(1)])
  note O = only_chunksD [OF o2]
  obtain c3: "counted (\<lambda>h. D h - ?old h + int (count_list (map cp_Hash ps) h)) db3" and f3: "file_by_id i db3 \<noteq> None"
    and h3: "hashes_of db3 i = map cp_Hash ps" and i: "i = file_seq ?db2 + 1" "i \<notin> set (root_files ?db2)"
    and other: "\<And>j. j \<noteq> i \<Longrightarrow> file_by_id j db3 = file_by_id j ?db2"
    and d3: "db3 = ?db2\<lparr>t_file := t_file ?db2 @ [\<lparr>f_id = i, f_path = ?p, f_mtime = mtime, f_chunks = concat (map chunk_entry ps)\<rparr>], file_seq := i\<rparr>"
    using insert_file_counted [OF U(2) e3] by (auto simp: chunkHashes_entries [OF s])
  have ch: "chunk_at h db3 = chunk_at h ?db2" for h by (simp add: d3 chunk_at_def)
  have hd: "head_at ?p db3 = head_at ?p db" by (simp add: d3 head_at_def O)
  have old: "occurs db3 (h_file old) h = occurs db (h_file old) h" if "head_at ?p db = Some old" for old h
  proof -
    have "h_file old \<noteq> i" using i(2) head_at_root [OF that] by (auto simp: O)
    then show ?thesis by (simp add: occurs_def hashes_of_def other O)
  qed
  let ?db4 = "upsert_head ?p i mtime db3"
  have v: "version_tables db' = version_tables ?db4" by (rule ensureDirs_frame [OF e5])
  have "counted (\<lambda>h. D h - ?old h + int (count_list (map cp_Hash ps) h) - occurs db3 i h +
      (case head_at ?p db3 of None \<Rightarrow> 0 | Some old \<Rightarrow> occurs db3 (h_file old) h)) ?db4"
    using U(3) by (intro upsert_head_counted [OF c3 f3]) (simp add: h3 ch)
  then have "counted D ?db4"
    by (rule counted_cong) (simp add: hd old occurs_def [of db3 i] h3 split: option.splits)
  then show "counted D db'" using version_tables_counted [OF v] by simp
  show "i = file_seq db + 1" using i by (simp add: O)
  have fresh: "file_by_id i ?db2 = None"
    using c1 U(2) i(1) by (fastforce simp: counted_def keys_ok_def file_by_id_def lookup_None_iff)
  show f': "file_by_id i db' = Some \<lparr>f_id = i, f_path = ?p, f_mtime = mtime, f_chunks = concat (map chunk_entry ps)\<rparr>"
    using v fresh by (simp add: version_tables_def file_by_id_def d3 lookup_append)
  show "hashes_of db' i = map cp_Hash ps" by (simp add: hashes_of_def f' chunkHashes_entries [OF s])
  show "t_result_root db' = t_result_root db" using v by (simp add: version_tables_def d3 O)
  show "i \<notin> set (root_files db)" using i(2) by (simp add: O)
  have "head_at ?p db' = head_at ?p ?db4" using v by (simp add: version_tables_def head_at_def)
  then show "head_at ?p db' = Some \<lparr>h_path = ?p, h_file = i, h_parent = fst (splitPath ?p), h_name = snd (splitPath ?p), h_mtime = mtime\<rparr>"
    by (simp add: upsert_head_at)
  show "\<forall>h \<in> cp_Hash ` set ps. chunk_at h db' \<noteq> None"
    using v U(3) by (auto simp: version_tables_def chunk_at_def d3)
qed

lemma transact_counted: "counted D db \<Longrightarrow> (\<And>db' x. m db = (db', Inr x) \<Longrightarrow> counted D db') \<Longrightarrow> counted D (fst (transact m db))"
  by (auto simp: transact_def split: prod.splits sum.splits)

lemma CommitFile_counted: "counted D db \<Longrightarrow> list_all hash_sized ps \<Longrightarrow> counted D (fst (CommitFile path mtime ps db))"
  unfolding CommitFile_def by (rule transact_counted) (auto intro: publish_counted(1))

section \<open>Snapshots\<close>

lemma for_each_inv:
  "(\<And>x db db'. x \<in> set xs \<Longrightarrow> I db \<Longrightarrow> f x db = (db', Inr ()) \<Longrightarrow> I db') \<Longrightarrow> I db \<Longrightarrow> for_each f xs db = (db', Inr ()) \<Longrightarrow> I db'"
  by (induction xs arbitrary: db) (auto simp: io_simps split: prod.splits sum.splits)

lemma add_snapshot_file_counted:
  assumes c: "counted D db" and r: "sf_file s \<in> set (root_files db)" and i: "sf_snapshot s \<in> s_id ` set (t_snapshot db)"
  shows "counted (\<lambda>h. D h - occurs db (sf_file s) h) (db\<lparr>t_snapshot_file := t_snapshot_file db @ [s]\<rparr>)" (is "counted _ ?db")
proof -
  have "refs ?db h = refs db h + occurs db (sf_file s) h" for h
    unfolding refs_split by (simp add: occurs_def hashes_of_def file_by_id_def)
  then show ?thesis using c r i by (intro counted_roots [OF c]) (auto simp: root_files_def counted_def keys_ok_def)
qed

lemma snapshot_head_counted:
  assumes c: "counted D db" and h: "h \<in> set (t_head db)" and i: "i \<in> s_id ` set (t_snapshot db)"
    and e: "snapshot_head i h db = (db', Inr ())"
  shows "counted D db'" "t_head db' = t_head db" "t_snapshot db' = t_snapshot db"
proof -
  let ?s = "\<lparr>sf_snapshot = i, sf_path = h_path h, sf_parent = fst (splitPath (h_path h)), sf_name = snd (splitPath (h_path h)), sf_file = h_file h, sf_mtime = h_mtime h\<rparr>"
  let ?db = "db\<lparr>t_snapshot_file := t_snapshot_file db @ [?s]\<rparr>"
  have r: "h_file h \<in> set (root_files db)" using h by (simp add: root_files_def)
  have c1: "counted (\<lambda>x. D x - occurs db (h_file h) x) ?db" using add_snapshot_file_counted [OF c, of ?s] r i by simp
  have r1: "h_file h \<in> set (root_files ?db)" using h by (simp add: root_files_def)
  have oc: "occurs ?db = occurs db" by (rule occurs_tables) simp
  obtain db2 where e2: "adjust_version (h_file h) 1 ?db = (db2, Inr ())" and o: "only_chunks ?db db2"
    and c2: "counted (\<lambda>x. D x - occurs db (h_file h) x + 1 * occurs ?db (h_file h) x) db2"
    using adjust_version_counted [OF c1 r1, of 1] by blast
  have "db' = db2" using e e2 by (simp add: snapshot_head_def io_simps)
  moreover have "counted D db2" using c2 by (simp add: oc)
  ultimately show "counted D db'" "t_head db' = t_head db" "t_snapshot db' = t_snapshot db" by (simp_all add: only_chunksD [OF o])
qed

lemma CreateSnapshot_counted: "counted D db \<Longrightarrow> counted D (fst (CreateSnapshot name t db))"
  unfolding CreateSnapshot_def
proof (rule transact_counted)
  fix db' x
  let ?i = "snapshot_seq db + 1"
  let ?db = "db\<lparr>t_snapshot := t_snapshot db @ [\<lparr>s_id = ?i, s_name = name, s_created = t\<rparr>], snapshot_seq := ?i\<rparr>"
  assume c: "counted D db"
    and "bind (gets (\<lambda>db. lookup (\<lambda>s. s_name s = name) (t_snapshot db))) (\<lambda>existing.
     case existing of
       Some s \<Rightarrow> ret (s_id s)
     | None \<Rightarrow>
         bind (gets (\<lambda>db. snapshot_seq db + 1)) (\<lambda>i.
         seq (modify (\<lambda>db. db\<lparr>t_snapshot := t_snapshot db @ [\<lparr>s_id = i, s_name = name, s_created = t\<rparr>], snapshot_seq := i\<rparr>))
        (bind (gets t_head) (\<lambda>heads.
         seq (for_each (snapshot_head i) heads)
        (seq (modify (\<lambda>db. db\<lparr>t_snapshot_dir := t_snapshot_dir db @
               map (\<lambda>d. \<lparr>sd_snapshot = i, sd_path = d_path d, sd_parent = d_parent d, sd_name = d_name d, sd_mtime = d_mtime d\<rparr>)
                 (t_dir db)\<rparr>))
        (ret i)))))) db = (db', Inr x)"
  then consider "db' = db" | db2 ds where "for_each (snapshot_head ?i) (t_head db) ?db = (db2, Inr ())" "db' = db2\<lparr>t_snapshot_dir := ds\<rparr>"
    by (auto simp: io_simps split: option.splits prod.splits sum.splits)
  then show "counted D db'"
  proof cases
    case 2
    have c1: "counted D ?db" using counted_roots [OF c, of ?db "\<lambda>_. 0"] c
      by (auto simp: root_files_def refs_split occurs_def hashes_of_def file_by_id_def counted_def keys_ok_def)
    have "counted D db2 \<and> t_head db2 = t_head db \<and> ?i \<in> s_id ` set (t_snapshot db2)"
      by (rule for_each_inv [where I = "\<lambda>s. counted D s \<and> t_head s = t_head db \<and> ?i \<in> s_id ` set (t_snapshot s)", OF _ _ 2(1)])
         (use c1 in \<open>auto dest: snapshot_head_counted\<close>)
    then show ?thesis using 2(2) version_tables_counted [of db' db2] by (simp add: version_tables_def)
  qed (simp add: c)
qed

lemma release_rows:
  "counted D db \<Longrightarrow> \<forall>x \<in> set xs. g x \<in> set (root_files db) \<Longrightarrow>
   \<exists>db'. for_each (\<lambda>x. adjust_version (g x) (- 1)) xs db = (db', Inr ()) \<and> only_chunks db db' \<and>
     counted (\<lambda>h. D h - sum_list (map (\<lambda>x. occurs db (g x) h) xs)) db'"
proof (induction xs arbitrary: D db)
  case Nil
  then show ?case by (auto simp: io_simps)
next
  case (Cons x xs)
  then have "g x \<in> set (root_files db)" by simp
  from adjust_version_counted [OF Cons.prems(1) this, of "- 1"] obtain db1 where
    1: "adjust_version (g x) (- 1) db = (db1, Inr ())" "only_chunks db db1" "counted (\<lambda>h. D h + - 1 * occurs db (g x) h) db1" by blast
  have "\<forall>x \<in> set xs. g x \<in> set (root_files db1)" using Cons.prems(2) by (simp add: only_chunksD [OF 1(2)])
  from Cons.IH [OF 1(3) this] obtain db' where
    2: "for_each (\<lambda>x. adjust_version (g x) (- 1)) xs db1 = (db', Inr ())" "only_chunks db1 db'"
      "counted (\<lambda>h. D h + - 1 * occurs db (g x) h - sum_list (map (\<lambda>x. occurs db1 (g x) h) xs)) db'" by blast
  have "counted (\<lambda>h. D h - sum_list (map (\<lambda>x. occurs db (g x) h) (x # xs))) db'"
    using 2(3) by (rule counted_cong) (simp add: only_chunksD [OF 1(2)])
  then show ?case using 1 2 by (auto simp: io_simps intro: only_chunks_trans)
qed

lemma drop_snapshot_counted:
  assumes c: "counted D db"
  shows "counted (\<lambda>h. D h + sum_list (map (\<lambda>s. occurs db (sf_file s) h) (filter (\<lambda>s. sf_snapshot s = i) (t_snapshot_file db)))) (drop_snapshot i db)"
proof (cases "list_ex (\<lambda>s. s_id s = i) (t_snapshot db)")
  case False
  then have "filter (\<lambda>s. sf_snapshot s = i) (t_snapshot_file db) = []"
    using c by (fastforce simp: counted_def keys_ok_def list_ex_iff filter_empty_conv)
  then show ?thesis using False c by (simp add: drop_snapshot_def)
next
  case True
  let ?db = "drop_snapshot i db" and ?rows = "filter (\<lambda>s. sf_snapshot s = i) (t_snapshot_file db)"
  have t: "t_file ?db = t_file db" "t_chunk ?db = t_chunk db" "t_head ?db = t_head db" "t_result_root ?db = t_result_root db"
    "file_seq ?db = file_seq db" "t_snapshot_file ?db = delete (\<lambda>s. sf_snapshot s = i) (t_snapshot_file db)"
    "t_snapshot ?db = delete (\<lambda>s. s_id s = i) (t_snapshot db)"
    using True by (simp_all add: drop_snapshot_def)
  have "refs ?db h = refs db h + - sum_list (map (\<lambda>s. occurs db (sf_file s) h) ?rows)" for h
    unfolding refs_split occurs_tables [OF t(1)] by (simp add: t sum_delete)
  then have "counted (\<lambda>h. D h - - sum_list (map (\<lambda>s. occurs db (sf_file s) h) ?rows)) ?db"
    using c by (intro counted_roots [OF c]) (auto simp: t root_files_def counted_def keys_ok_def image_iff)
  then show ?thesis by simp
qed

lemma deleteSnapshotTx_counted:
  assumes c: "counted D db"
  obtains db' where "deleteSnapshotTx i db = (db', Inr ())" "counted D db'"
proof -
  let ?rows = "filter (\<lambda>s. sf_snapshot s = i) (t_snapshot_file db)"
  have "\<forall>s \<in> set ?rows. sf_file s \<in> set (root_files db)" by (auto simp: root_files_def)
  from release_rows [where g = sf_file, OF c this] obtain db1 where
    1: "for_each (\<lambda>s. adjust_version (sf_file s) (- 1)) ?rows db = (db1, Inr ())" "only_chunks db db1"
      "counted (\<lambda>h. D h - sum_list (map (\<lambda>s. occurs db (sf_file s) h) ?rows)) db1" by blast
  have "counted D (drop_snapshot i db1)"
    by (rule counted_cong [OF drop_snapshot_counted [OF 1(3), of i]]) (simp add: only_chunksD [OF 1(2)])
  then show thesis using 1(1) that by (simp add: deleteSnapshotTx_def io_simps)
qed

lemma DeleteSnapshot_counted: "counted D db \<Longrightarrow> counted D (fst (DeleteSnapshot i db))"
  unfolding DeleteSnapshot_def by (rule transact_counted) (auto elim: deleteSnapshotTx_counted [where i = i])

lemma deleteSnapshotTx_keeps: "counted D db \<Longrightarrow> deleteSnapshotTx i db = (db', r) \<Longrightarrow> counted D db'"
  using deleteSnapshotTx_counted [of D db i] by auto

lemma deleteSnapshots_counted: "counted D db \<Longrightarrow> for_each deleteSnapshotTx is db = (db', Inr ()) \<Longrightarrow> counted D db'"
  using for_each_inv [where I = "counted D" and f = deleteSnapshotTx] deleteSnapshotTx_keeps by blast

lemma ExpireSnapshots_counted: "counted D db \<Longrightarrow> counted D (fst (ExpireSnapshots now db))"
  unfolding ExpireSnapshots_def
  by (rule transact_counted)
     (auto simp: io_simps split: option.splits prod.splits sum.splits intro: deleteSnapshots_counted)

section \<open>Unlink and rename\<close>

lemma UnlinkFile_counted: "counted D db \<Longrightarrow> counted D (fst (UnlinkFile path db))"
  unfolding UnlinkFile_def Let_def
proof (rule transact_counted)
  fix db' x
  let ?p = "cleanPath path" and ?db = "cancel_prepared ((=) (cleanPath path)) db"
  assume c: "counted D db"
    and e: "seq (modify (cancel_prepared ((=) ?p))) (bind (gets (head_at ?p)) (\<lambda>h. case h of
        None \<Rightarrow> ret ()
      | Some h \<Rightarrow> seq (adjust_version (h_file h) (- 1)) (modify (\<lambda>db. db\<lparr>t_head := delete (\<lambda>h. h_path h = ?p) (t_head db)\<rparr>)))) db = (db', Inr x)"
  have c0: "counted D ?db" using c version_tables_counted [OF cancel_prepared_frame] by simp
  show "counted D db'"
  proof (cases "head_at ?p ?db")
    case None
    then show ?thesis using e c0 by (simp add: io_simps)
  next
    case (Some h)
    obtain db1 where 1: "adjust_version (h_file h) (- 1) ?db = (db1, Inr ())" "only_chunks ?db db1"
      "counted (\<lambda>x. D x + - 1 * occurs ?db (h_file h) x) db1"
      using adjust_version_counted [OF c0 head_at_root [OF Some], of "- 1"] by blast
    have "counted D (db1\<lparr>t_head := delete (\<lambda>h. h_path h = ?p) (t_head db1)\<rparr>)"
      using delete_head_counted [OF 1(3), of ?p h] Some by (simp add: only_chunksD [OF 1(2)])
    then show ?thesis using e Some 1(1) by (simp add: io_simps)
  qed
qed

text \<open>Moving rows keeps the versions they point at.\<close>

lemma counted_heads:
  assumes c: "counted D db" and f: "map h_file hs = map h_file (t_head db)" and k: "distinct (map h_path hs)"
  shows "counted D (db\<lparr>t_head := hs\<rparr>)"
proof -
  let ?db = "db\<lparr>t_head := hs\<rparr>"
  have r: "root_files ?db = root_files db" using f by (simp add: root_files_def)
  have "refs ?db h = refs db h + 0" for h unfolding refs_def r by (simp add: occurs_def hashes_of_def file_by_id_def)
  then have "counted (\<lambda>h. D h - 0) ?db"
    using c k by (intro counted_roots [OF c]) (auto simp: r counted_def intro: keys_ok_heads)
  then show ?thesis by simp
qed

lemma distinct_move:
  "distinct (map k xs) \<Longrightarrow> (\<forall>x \<in> set xs. k x = np \<longrightarrow> np = p) \<Longrightarrow> (\<And>x. k (f x) = np) \<Longrightarrow> distinct (map k (update (\<lambda>x. k x = p) f xs))"
proof -
  let ?g = "\<lambda>v. if v = p then np else v"
  assume d: "distinct (map k xs)" and n: "\<forall>x \<in> set xs. k x = np \<longrightarrow> np = p" and f: "\<And>x. k (f x) = np"
  have "map k (update (\<lambda>x. k x = p) f xs) = map ?g (map k xs)" using f by (simp add: update_def)
  moreover have "inj_on ?g (set (map k xs))" using n by (auto simp: inj_on_def split: if_splits)
  ultimately show ?thesis using d by (simp only: distinct_map)
qed

lemma move_head_counted: "counted D db \<Longrightarrow> move_head a b p db = (db', Inr ()) \<Longrightarrow> counted D db'"
proof -
  let ?np = "moved_path a b p"
  let ?f = "\<lambda>h. h\<lparr>h_path := ?np, h_parent := fst (splitPath ?np), h_name := snd (splitPath ?np)\<rparr>"
  assume c: "counted D db" and e: "move_head a b p db = (db', Inr ())"
  from e have "head_at ?np db = None \<or> ?np = p" and db': "db' = db\<lparr>t_head := update (\<lambda>h. h_path h = p) ?f (t_head db)\<rparr>"
    by (auto simp: move_head_def Let_def io_simps split: if_splits)
  then have "\<forall>x \<in> set (t_head db). h_path x = ?np \<longrightarrow> ?np = p" by (auto simp: head_at_def lookup_None_iff)
  then have "distinct (map h_path (update (\<lambda>h. h_path h = p) ?f (t_head db)))"
    using c by (intro distinct_move [where np = ?np]) (simp_all add: counted_def keys_ok_def)
  then show ?thesis unfolding db' by (intro counted_heads [OF c]) (simp_all add: map_update)
qed

lemma move_dir_frame: "move_dir a b p db = (db', Inr ()) \<Longrightarrow> version_tables db' = version_tables db"
  by (auto simp: move_dir_def Let_def io_simps version_tables_def split: if_splits)

lemma rewrite_head_counted:
  assumes c: "counted D db" and e: "rewriteSubtreePaths_head a b db = (db', Inr ())"
  shows "counted D db'"
proof -
  have "for_each (move_head a b) (filter (in_subtree a) (map h_path (t_head db))) db = (db', Inr ())"
    using e by (simp add: rewriteSubtreePaths_head_def io_simps)
  then show ?thesis by (rule for_each_inv [where I = "counted D", OF _ c, rotated]) (rule move_head_counted)
qed

lemma rewrite_dir_frame:
  assumes e: "rewriteSubtreePaths_dir a b db = (db', Inr ())"
  shows "version_tables db' = version_tables db"
proof -
  have "for_each (move_dir a b) (filter (in_subtree a) (map d_path (t_dir db))) db = (db', Inr ())"
    using e by (simp add: rewriteSubtreePaths_dir_def io_simps)
  then show ?thesis
    by (rule for_each_inv [where I = "\<lambda>s. version_tables s = version_tables db", OF _ HOL.refl, rotated]) (simp add: move_dir_frame)
qed

lemma renameDirSubtree_counted: "counted D db \<Longrightarrow> renameDirSubtree now a b db = (db', Inr ()) \<Longrightarrow> counted D db'"
proof -
  assume c: "counted D db" and "renameDirSubtree now a b db = (db', Inr ())"
  then obtain db1 db2 where "ensureDirs b now db = (db1, Inr ())" "rewriteSubtreePaths_dir a b db1 = (db2, Inr ())" "rewriteSubtreePaths_head a b db2 = (db', Inr ())"
    by (auto simp: renameDirSubtree_def io_simps split: prod.splits sum.splits)
  then show ?thesis
    using c version_tables_counted [OF ensureDirs_frame] version_tables_counted [OF rewrite_dir_frame] rewrite_head_counted by blast
qed

lemma rename_dir_counted: "counted D db \<Longrightarrow> rename_dir now a b db = (db', Inr ()) \<Longrightarrow> counted D db'"
proof -
  assume c: "counted D db" and "rename_dir now a b db = (db', Inr ())"
  then obtain db1 where "db1 = db \<or> db1 = db\<lparr>t_dir := delete (\<lambda>d. d_path d = b) (t_dir db)\<rparr>" "renameDirSubtree now a b db1 = (db', Inr ())"
    by (auto simp: rename_dir_def io_simps split: if_splits prod.splits sum.splits)
  moreover have "counted D (db\<lparr>t_dir := ds\<rparr>)" for ds
    using c version_tables_counted [of "db\<lparr>t_dir := ds\<rparr>" db] by (simp add: version_tables_def)
  ultimately show ?thesis using c renameDirSubtree_counted by blast
qed

lemma rename_head_counted:
  assumes c: "counted D db" and h: "head_at a db = Some old" and ab: "a \<noteq> b" and e: "rename_head now a b old db = (db', Inr ())"
  shows "counted D db'"
proof -
  from e obtain db1 where e1: "release_head b db = (db1, Inr ())"
    and e4: "ensureDirs b now ((upsert_head b (h_file old) (h_mtime old) db1)\<lparr>t_head := delete (\<lambda>h. h_path h = a) (t_head (upsert_head b (h_file old) (h_mtime old) db1))\<rparr>) = (db', Inr ())"
    by (auto simp: rename_head_def release_head_def io_simps split: if_splits option.splits prod.splits sum.splits)
  let ?rep = "\<lambda>x. case head_at b db of None \<Rightarrow> 0 | Some r \<Rightarrow> occurs db (h_file r) x"
  have o1: "only_chunks db db1" and c1: "counted (\<lambda>x. D x - ?rep x) db1"
    using release_head_counted [OF c, of b] e1 by auto
  note O = only_chunksD [OF o1]
  have "file_by_id (h_file old) db1 \<noteq> None" "\<forall>x \<in> set (hashes_of db1 (h_file old)). chunk_at x db1 \<noteq> None"
    using c1 head_at_root [OF h] by (auto simp: counted_def rooted_ok_def O)
  note up = upsert_head_counted [OF c1 this, of b "h_mtime old"]
  let ?db2 = "upsert_head b (h_file old) (h_mtime old) db1"
  have c2: "counted (\<lambda>x. D x - occurs db (h_file old) x) ?db2"
    using up by (rule counted_cong) (simp add: O split: option.splits)
  have h2: "head_at a ?db2 = Some old" using h ab by (simp add: upsert_head_at O)
  have "counted D (?db2\<lparr>t_head := delete (\<lambda>h. h_path h = a) (t_head ?db2)\<rparr>)"
    using delete_head_counted [OF c2 h2] by (simp add: occurs_tables [of ?db2 db1] O)
  then show ?thesis using version_tables_counted [OF ensureDirs_frame [OF e4]] by simp
qed

lemma retarget_frame [simp]: "version_tables (retarget_prepared a b db) = version_tables db"
  by (simp add: retarget_prepared_def version_tables_def)

lemma RenameFile_counted: "counted D db \<Longrightarrow> counted D (fst (RenameFile now a b db))"
proof -
  let ?a = "cleanPath a" and ?b = "cleanPath b"
  let ?db = "retarget_prepared ?a ?b (cancel_prepared ((=) ?b) db)"
  assume c: "counted D db"
  have c0: "counted D ?db" using c version_tables_counted [of ?db db] by simp
  have "counted D db'"
    if ne: "?a \<noteq> ?b" and e: "(case head_at ?a ?db of None \<Rightarrow> rename_dir now ?a ?b | Some h \<Rightarrow> rename_head now ?a ?b h) ?db = (db', Inr ())" for db'
    using that rename_dir_counted [OF c0] rename_head_counted [OF c0 _ ne] by (auto split: option.splits)
  then show ?thesis using c unfolding RenameFile_def Let_def
    by (auto simp: io_simps intro!: transact_counted split: if_splits)
qed

section \<open>Write operations\<close>

lemma add_root_counted:
  assumes c: "counted D db" and f: "file_by_id (r_file r) db \<noteq> None" "\<forall>h \<in> set (hashes_of db (r_file r)). chunk_at h db \<noteq> None"
    and o: "r_op r \<notin> r_op ` set (t_result_root db)"
  shows "counted (\<lambda>h. D h - occurs db (r_file r) h) (db\<lparr>t_result_root := t_result_root db @ [r]\<rparr>)" (is "counted _ ?db")
proof -
  have "refs ?db h = refs db h + occurs db (r_file r) h" for h
    unfolding refs_split by (simp add: occurs_def hashes_of_def file_by_id_def)
  then show ?thesis using c f o by (intro counted_roots [OF c]) (auto simp: root_files_def counted_def keys_ok_def)
qed

lemma delete_root_counted:
  assumes c: "counted D db" and r: "r \<in> set (t_result_root db)"
  shows "counted (\<lambda>h. D h + occurs db (r_file r) h) (db\<lparr>t_result_root := delete (\<lambda>x. r_op x = r_op r) (t_result_root db)\<rparr>)" (is "counted _ ?db")
proof -
  have k: "distinct (map r_op (t_result_root db))" using c by (simp add: counted_def keys_ok_def)
  have "refs ?db h = refs db h + - occurs db (r_file r) h" for h
    unfolding refs_split using sum_delete_key [OF k lookup_unique [OF k r], where g = "\<lambda>x. occurs db (r_file x) h"]
    by (simp add: occurs_def hashes_of_def file_by_id_def)
  then have "counted (\<lambda>h. D h - - occurs db (r_file r) h) ?db"
    using c by (intro counted_roots [OF c]) (auto simp: root_files_def counted_def keys_ok_def intro: distinct_map_delete)
  then show ?thesis by simp
qed

text \<open>What a successful commit did, up to tables that hold no roots.\<close>

definition root_row :: "int \<Rightarrow> int \<Rightarrow> int \<Rightarrow> result_root_row" where
  "root_row opID fileID expiresAt = \<lparr>r_op = opID, r_file = fileID, r_expires = expiresAt\<rparr>"

lemma checkpoint_ok: "publicationCheckpoint fault stage db = (db', Inr ()) \<Longrightarrow> db' = db"
  by (auto simp: publicationCheckpoint_def io_simps split: option.splits)

lemma checkpoint_state: "fst (publicationCheckpoint fault stage db) = db"
  by (auto simp: publicationCheckpoint_def io_simps split: option.splits)

definition retain :: "int \<Rightarrow> int \<Rightarrow> int \<Rightarrow> (DB, unit) io" where
  "retain opID fileID expiresAt =
     (if expiresAt = 0 then ret ()
      else seq (adjust_version fileID 1)
         (bind (gets (\<lambda>db. list_ex (\<lambda>r. r_op r = opID) (t_result_root db) \<or> expiresAt \<le> 0)) (\<lambda>clash.
          if clash then raise constraint_failed
          else modify (\<lambda>db. db\<lparr>t_result_root := t_result_root db @ [root_row opID fileID expiresAt]\<rparr>))))"

definition mark_committed :: "int \<Rightarrow> int \<Rightarrow> ChunkPlacement list \<Rightarrow> DB \<Rightarrow> DB" where
  "mark_committed opID fileID placements db =
     db\<lparr>t_write_op := update (\<lambda>w. w_id w = opID)
       (\<lambda>w. w\<lparr>w_state := WriteOpCommitted, w_file := fileID, w_ack := sum_list (map cp_LogicalLen placements), w_tail := []\<rparr>) (t_write_op db)\<rparr>"

lemma commit_body_eq:
  "commit_body fault opID path mtime ps e =
     bind (publishFileVersion path mtime ps) (\<lambda>fileID.
     seq (publicationCheckpoint fault ''version-written'')
    (seq (retain opID fileID e)
    (seq (modify (mark_committed opID fileID ps))
    (seq (publicationCheckpoint fault ''operation-written'')
    (seq (modify (delete_leases (\<lambda>l. l_op l = opID)))
    (seq (publicationCheckpoint fault ''leases-released'')
         (ret fileID)))))))"
  unfolding commit_body_def retain_def mark_committed_def root_row_def by simp

lemma bind_okD: "bind m k s = (s', Inr y) \<Longrightarrow> \<exists>s1 x. m s = (s1, Inr x) \<and> k x s1 = (s', Inr y)"
  by (auto simp: bind_def split: prod.splits sum.splits)

lemma seq_okD: "seq m k s = (s', Inr y) \<Longrightarrow> \<exists>s1. m s = (s1, Inr ()) \<and> k s1 = (s', Inr y)"
  by (auto simp: seq_def dest: bind_okD)

lemma commit_body_cases:
  assumes "commit_body fault opID path mtime ps e db = (db', Inr i)"
  obtains db1 db2 where "publishFileVersion path mtime ps db = (db1, Inr i)" "retain opID i e db1 = (db2, Inr ())"
    "db' = delete_leases (\<lambda>l. l_op l = opID) (mark_committed opID i ps db2)"
proof -
  from assms obtain db1 j where 1: "publishFileVersion path mtime ps db = (db1, Inr j)"
    and r: "seq (publicationCheckpoint fault ''version-written'')
    (seq (retain opID j e)
    (seq (modify (mark_committed opID j ps))
    (seq (publicationCheckpoint fault ''operation-written'')
    (seq (modify (delete_leases (\<lambda>l. l_op l = opID)))
    (seq (publicationCheckpoint fault ''leases-released'')
         (ret j)))))) db1 = (db', Inr i)"
    unfolding commit_body_eq by (auto dest!: bind_okD)
  from seq_okD [OF r] obtain s1 where s1: "publicationCheckpoint fault ''version-written'' db1 = (s1, Inr ())"
    and r1: "seq (retain opID j e) (seq (modify (mark_committed opID j ps)) (seq (publicationCheckpoint fault ''operation-written'')
      (seq (modify (delete_leases (\<lambda>l. l_op l = opID))) (seq (publicationCheckpoint fault ''leases-released'') (ret j))))) s1 = (db', Inr i)"
    by blast
  from seq_okD [OF r1] obtain db2 where 2: "retain opID j e s1 = (db2, Inr ())"
    and r2: "seq (modify (mark_committed opID j ps)) (seq (publicationCheckpoint fault ''operation-written'')
      (seq (modify (delete_leases (\<lambda>l. l_op l = opID))) (seq (publicationCheckpoint fault ''leases-released'') (ret j)))) db2 = (db', Inr i)"
    by blast
  from r2 have "db' = delete_leases (\<lambda>l. l_op l = opID) (mark_committed opID j ps db2)" "i = j"
    by (auto dest!: seq_okD checkpoint_ok simp: modify_def ret_def)
  with 1 2 checkpoint_ok [OF s1] show thesis by (intro that) simp_all
qed

lemma mark_committed_frame [simp]: "version_tables (mark_committed opID i ps db) = version_tables db"
  by (simp add: mark_committed_def version_tables_def)

lemma delete_leases_version [simp]: "version_tables (delete_leases P db) = version_tables db"
  by (simp add: version_tables_def)

lemma retain_counted:
  assumes c: "counted D db" and f: "file_by_id i db \<noteq> None" "\<forall>h \<in> set (hashes_of db i). chunk_at h db \<noteq> None"
    and e: "retain opID i e db = (db', Inr ())"
  shows "counted D db'"
proof (cases "e = 0")
  case True
  then show ?thesis using c e by (simp add: retain_def io_simps)
next
  case False
  obtain db1 where 1: "adjust_version i 1 db = (db1, Inr ())" "only_chunks db db1" "counted (\<lambda>h. D h + 1 * occurs db i h) db1"
    "\<And>h. (chunk_at h db1 = None) = (chunk_at h db = None)"
    using adjust_version_new [OF c f, of 1] by blast
  note O = only_chunksD [OF 1(2)]
  have o: "opID \<notin> r_op ` set (t_result_root db1)" and db': "db' = db1\<lparr>t_result_root := t_result_root db1 @ [root_row opID i e]\<rparr>"
    using e False 1(1) by (auto simp: retain_def io_simps list_ex_iff split: if_splits)
  have "counted (\<lambda>h. D h + 1 * occurs db i h - occurs db1 i h) db'"
    using add_root_counted [OF 1(3), of "root_row opID i e"] f o 1(4) by (simp add: db' root_row_def O)
  then show ?thesis by (simp add: O)
qed

lemma commit_body_counted:
  assumes c: "counted D db" and s: "list_all hash_sized ps" and e: "commit_body fault opID path mtime ps x db = (db', Inr i)"
  shows "counted D db'"
proof -
  from commit_body_cases [OF e] obtain db1 db2 where 1: "publishFileVersion path mtime ps db = (db1, Inr i)"
    and 2: "retain opID i x db1 = (db2, Inr ())" and db': "db' = delete_leases (\<lambda>l. l_op l = opID) (mark_committed opID i ps db2)" by blast
  note P = publish_counted [OF c s 1]
  have "counted D db2" using P by (intro retain_counted [OF P(1) _ _ 2]) auto
  then show ?thesis using version_tables_counted [of db' db2] by (simp add: db')
qed

lemma fst_bind_reader: "(\<And>x s. fst (k x s) = s) \<Longrightarrow> fst (bind m k s) = fst (m s)"
  by (auto simp: bind_def split: prod.splits sum.splits)

lemma commitWriteOpVersion_state:
  "fst (commitWriteOpVersion fault opID path mtime ps e db) = fst (transact (
       bind (gets (op_at opID)) (\<lambda>w.
       case w of
         None \<Rightarrow> raise ErrNoRows
       | Some w \<Rightarrow>
           if w_state w = WriteOpCommitted then ret (w_file w, False)
           else if w_state w \<noteq> WriteOpPrepared then raise (Err ''write operation is not prepared'')
           else bind (commit_body fault opID path mtime ps e) (\<lambda>fileID. ret (fileID, True)))) db)"
  unfolding commitWriteOpVersion_def
  by (rule fst_bind_reader)
     (auto simp: io_simps checkpoint_state split: prod.splits sum.splits intro: checkpoint_state dest: arg_cong [where f = fst])

lemma commitWriteOpVersion_counted:
  "counted D db \<Longrightarrow> list_all hash_sized ps \<Longrightarrow> counted D (fst (commitWriteOpVersion fault opID path mtime ps e db))"
  unfolding commitWriteOpVersion_state
  by (rule transact_counted)
     (auto simp: gets_def ret_def raise_def bind_def split: option.splits if_splits prod.splits sum.splits intro: commit_body_counted)

lemma expire_root_counted:
  assumes c: "counted D db" and r: "r \<in> set (t_result_root db)" and e: "expire_root r db = (db', Inr ())"
  shows "counted D db'" "t_result_root db' = delete (\<lambda>x. r_op x = r_op r) (t_result_root db)"
proof -
  let ?db = "db\<lparr>t_write_op := update (\<lambda>w. w_id w = r_op r \<and> w_file w = r_file r \<and> w_state w = WriteOpCommitted) (\<lambda>w. w\<lparr>w_state := WriteOpExpired\<rparr>) (t_write_op db)\<rparr>"
  have c0: "counted D ?db" using c version_tables_counted [of ?db db] by (simp add: version_tables_def)
  have rt: "r_file r \<in> set (root_files ?db)" using r by (simp add: root_files_def)
  obtain db1 where 1: "adjust_version (r_file r) (- 1) ?db = (db1, Inr ())" "only_chunks ?db db1"
    "counted (\<lambda>h. D h + - 1 * occurs ?db (r_file r) h) db1"
    using adjust_version_counted [OF c0 rt, of "- 1"] by blast
  note O = only_chunksD [OF 1(2)]
  have db': "db' = db1\<lparr>t_result_root := delete (\<lambda>x. r_op x = r_op r) (t_result_root db1)\<rparr>"
    using e 1(1) by (auto simp: expire_root_def io_simps split: if_splits)
  have r1: "r \<in> set (t_result_root db1)" using r by (simp add: O)
  have "counted (\<lambda>h. D h + - 1 * occurs ?db (r_file r) h + occurs db1 (r_file r) h) db'"
    unfolding db' by (rule delete_root_counted [OF 1(3) r1])
  then show "counted D db'" by (simp add: O)
  show "t_result_root db' = delete (\<lambda>x. r_op x = r_op r) (t_result_root db)" by (simp add: db' O)
qed

lemma expire_roots_counted:
  "counted D db \<Longrightarrow> distinct (map r_op rs) \<Longrightarrow> set rs \<subseteq> set (t_result_root db) \<Longrightarrow> for_each expire_root rs db = (db', Inr ()) \<Longrightarrow> counted D db'"
proof (induction rs arbitrary: db)
  case (Cons r rs)
  then obtain db1 where 1: "expire_root r db = (db1, Inr ())" and 2: "for_each expire_root rs db1 = (db', Inr ())" by (auto dest: seq_okD)
  have r: "r \<in> set (t_result_root db)" using Cons.prems by simp
  note E = expire_root_counted [OF Cons.prems(1) r 1]
  have "set rs \<subseteq> set (t_result_root db1)" using Cons.prems(2,3) by (auto simp: E(2) image_iff)
  then show ?case using Cons.IH [OF E(1)] Cons.prems(2) 2 by simp
qed (simp add: ret_def)

lemma distinct_map_sort_key: "distinct (map k (sort_key f xs)) = distinct (map k xs)"
  by (simp add: distinct_map)

lemma ExpireWriteResults_counted: "counted D db \<Longrightarrow> counted D (fst (ExpireWriteResults now db))"
  unfolding ExpireWriteResults_def
proof (rule transact_counted)
  fix db' x
  let ?rs = "sort_key r_op (filter (\<lambda>r. r_expires r \<le> now) (t_result_root db))"
  assume c: "counted D db"
    and "bind (gets (\<lambda>db. sort_key r_op (filter (\<lambda>r. r_expires r \<le> now) (t_result_root db)))) (\<lambda>roots. seq (for_each expire_root roots) (ret (length roots))) db = (db', Inr x)"
  then have "for_each expire_root ?rs db = (db', Inr ())" by (auto simp: gets_def bind_def ret_def dest: seq_okD)
  moreover have "distinct (map r_op ?rs)"
    using c by (simp add: distinct_map_sort_key counted_def keys_ok_def distinct_map_filter)
  ultimately show "counted D db'" by (intro expire_roots_counted [OF c]) auto
qed

section \<open>Reclaiming and moving chunks\<close>

lemma occurs_nonneg: "0 \<le> occurs db i h"
  by (simp add: occurs_def)

lemma refs_nonneg: "0 \<le> refs db h"
  unfolding refs_def by (rule sum_list_nonneg) (auto simp: occurs_nonneg)

lemma refs_pos: "i \<in> set (root_files db) \<Longrightarrow> h \<in> set (hashes_of db i) \<Longrightarrow> 0 < refs db h"
proof -
  assume i: "i \<in> set (root_files db)" and h: "h \<in> set (hashes_of db i)"
  have "count_list (hashes_of db i) h \<noteq> 0" using h by (simp add: count_list_0_iff)
  then have "0 < occurs db i h" by (simp add: occurs_def)
  moreover have "occurs db i h \<le> refs db h"
    unfolding refs_def by (rule member_le_sum_list) (use i in \<open>auto simp: occurs_nonneg\<close>)
  ultimately show ?thesis by simp
qed

lemma chunk_at_Some: "distinct (map c_hash (t_chunk db)) \<Longrightarrow> c \<in> set (t_chunk db) \<Longrightarrow> chunk_at (c_hash c) db = Some c"
  unfolding chunk_at_def by (rule lookup_unique)

text \<open>Rows with no references may go.\<close>

lemma delete_chunks_counted:
  assumes c: "counted (\<lambda>_. 0) db" and P: "\<And>c. c \<in> set (t_chunk db) \<Longrightarrow> P c \<Longrightarrow> c_refcount c \<le> 0"
  shows "counted (\<lambda>_. 0) (db\<lparr>t_chunk := delete P (t_chunk db)\<rparr>)" (is "counted _ ?db")
proof -
  have k: "distinct (map c_hash (t_chunk db))" using c by (simp add: counted_def keys_ok_def)
  have rc: "refcount_of db h = refs db h" for h using c by (simp add: counted_def)
  have at: "chunk_at h ?db = (case chunk_at h db of None \<Rightarrow> None | Some c \<Rightarrow> if P c then None else Some c)" for h
  proof (cases "chunk_at h db")
    case None
    then have "chunk_at h ?db = None" by (auto simp: chunk_at_def lookup_None_iff)
    then show ?thesis using None by simp
  next
    case (Some c)
    then have h: "c \<in> set (t_chunk db)" "c_hash c = h" unfolding chunk_at_def by (auto dest: lookup_SomeD)
    show ?thesis
    proof (cases "P c")
      case True
      then have "chunk_at h ?db = None" using h k by (auto simp: chunk_at_def lookup_None_iff distinct_map inj_on_def)
      then show ?thesis using Some True by simp
    next
      case False
      then show ?thesis using Some h chunk_at_Some [of ?db c] distinct_map_delete [OF k] by simp
    qed
  qed
  have dead: "refs db h = 0" if "chunk_at h db = Some c" "P c" for h c
  proof -
    have "c \<in> set (t_chunk db)" using that(1) unfolding chunk_at_def by (auto dest: lookup_SomeD)
    then show ?thesis using that rc [of h] P [of c] refs_nonneg [of db h] by (simp add: refcount_of_def)
  qed
  have o: "only_chunks db ?db" by simp
  note O = only_chunksD [OF o]
  have "refcount_of ?db h = refs db h" for h using rc [of h] dead [of h] by (auto simp: refcount_of_def at split: option.splits)
  moreover have "rooted_ok ?db"
    unfolding rooted_ok_def
  proof (intro ballI conjI)
    fix i h assume i: "i \<in> set (root_files ?db)"
    then show "file_by_id i ?db \<noteq> None" using c by (auto simp: O counted_def rooted_ok_def)
    assume h: "h \<in> set (hashes_of ?db i)"
    then have "0 < refs db h" using i refs_pos [of i db h] by (simp add: O)
    moreover have "chunk_at h db \<noteq> None" using c i h by (auto simp: O counted_def rooted_ok_def)
    ultimately show "chunk_at h ?db \<noteq> None" using dead [of h] by (auto simp: at)
  qed
  moreover have "keys_ok ?db" using c distinct_map_delete [OF k] by (simp add: counted_def keys_ok_def)
  ultimately show ?thesis by (simp add: counted_def O)
qed

text \<open>The bulk delete and the batched one remove the same rows.\<close>

lemma fold_delete: "fold (\<lambda>b db. db\<lparr>t_chunk := delete (\<lambda>c. c_hash c \<in> cp_Hash ` set b) (t_chunk db)\<rparr>) bs db =
   db\<lparr>t_chunk := delete (\<lambda>c. c_hash c \<in> cp_Hash ` set (concat bs)) (t_chunk db)\<rparr>"
proof (induction bs arbitrary: db)
  case Nil
  show ?case by (simp add: delete_def)
next
  case (Cons b bs)
  have t: "delete (\<lambda>c. c_hash c \<in> cp_Hash ` set (concat bs)) (delete (\<lambda>c. c_hash c \<in> cp_Hash ` set b) xs) =
      delete (\<lambda>c. c_hash c \<in> cp_Hash ` set (concat (b # bs))) xs" for xs
    by (auto simp: delete_def intro!: filter_cong)
  show ?case unfolding fold_simps o_apply Cons.IH by (subst t [symmetric]) simp
qed

lemma GCChunks_eq:
  assumes k: "distinct (map c_hash (t_chunk db))"
  shows "fst (GCChunks pinned db) = db\<lparr>t_chunk := delete (\<lambda>c. c_refcount c \<le> 0 \<and> c_hash c \<notin> set pinned) (t_chunk db)\<rparr>"
proof (cases "pinned = []")
  case True
  then show ?thesis by (simp add: GCChunks_def Let_def)
next
  case False
  let ?dead = "filter (\<lambda>p. cp_Hash p \<notin> set pinned) (map placement_of (filter (\<lambda>c. c_refcount c \<le> 0) (t_chunk db)))"
  have "(c_hash c \<in> cp_Hash ` set ?dead) = (c_refcount c \<le> 0 \<and> c_hash c \<notin> set pinned)" if "c \<in> set (t_chunk db)" for c
  proof
    assume "c_hash c \<in> cp_Hash ` set ?dead"
    then obtain d where "d \<in> set (t_chunk db)" "c_refcount d \<le> 0" "c_hash d = c_hash c" "c_hash c \<notin> set pinned"
      by (auto simp: placement_of_def)
    moreover have "d = c" using calculation that k by (auto simp: distinct_map inj_on_def)
    ultimately show "c_refcount c \<le> 0 \<and> c_hash c \<notin> set pinned" by simp
  next
    assume "c_refcount c \<le> 0 \<and> c_hash c \<notin> set pinned"
    then show "c_hash c \<in> cp_Hash ` set ?dead" using that by (force simp: placement_of_def)
  qed
  then have "delete (\<lambda>c. c_hash c \<in> cp_Hash ` set ?dead) (t_chunk db) = delete (\<lambda>c. c_refcount c \<le> 0 \<and> c_hash c \<notin> set pinned) (t_chunk db)"
    unfolding delete_def by (intro filter_cong) auto
  then show ?thesis using False by (simp add: GCChunks_def Let_def fold_delete concat_batches maxChunkUpsertRows_def)
qed

lemma GCChunks_counted: "counted (\<lambda>_. 0) db \<Longrightarrow> counted (\<lambda>_. 0) (fst (GCChunks pinned db))"
proof -
  assume c: "counted (\<lambda>_. 0) db"
  then have "distinct (map c_hash (t_chunk db))" by (simp add: counted_def keys_ok_def)
  from GCChunks_eq [OF this] show ?thesis by (simp only:) (rule delete_chunks_counted [OF c], simp)
qed

lemma RelocateChunk_counted: "counted D db \<Longrightarrow> counted D (RelocateChunk h v off db)"
proof -
  let ?db = "RelocateChunk h v off db"
  assume c: "counted D db"
  have at: "chunk_at x ?db = map_option (\<lambda>c. if c_hash c = h then c\<lparr>c_vlog := v, c_vaddr := off\<rparr> else c) (chunk_at x db)" for x
    unfolding chunk_at_def RelocateChunk_def by (simp add: lookup_update)
  have o: "only_chunks db ?db" "distinct (map c_hash (t_chunk ?db))"
    using c by (simp_all add: RelocateChunk_def map_update counted_def keys_ok_def)
  have "counted (\<lambda>x. D x + 0) ?db"
    by (rule counted_chunks [OF c o]) (auto simp: at refcount_of_def split: option.splits)
  then show ?thesis by simp
qed

lemma retireVlogTx_counted:
  assumes c: "counted (\<lambda>_. 0) db" and e: "retireVlogTx v db = (db', Inr ps)"
  shows "counted (\<lambda>_. 0) db'"
proof -
  let ?db = "db\<lparr>t_chunk := delete (\<lambda>c. c_vlog c = v) (t_chunk db)\<rparr>"
  from e have live: "filter (\<lambda>c. c_vlog c = v \<and> 0 < c_refcount c) (t_chunk db) = []"
    and db': "db' = fst (close_jobs (\<lambda>j. j_kind j = JobScrubRepair \<and> j_target_vlog j = v) JobCancelled
        (delete_vlog v (fold (\<lambda>(i, _). delete_plog i) ps (delete_mappings (\<lambda>m. vp_vlog m = v) ?db))))"
    by (auto simp: retireVlogTx_def io_simps split: if_splits)
  have "counted (\<lambda>_. 0) ?db"
    using live by (intro delete_chunks_counted [OF c]) (force simp: filter_empty_conv)
  moreover have "placement_frame ?db db'"
    unfolding db' close_jobs_def
    by (auto intro!: placement_frame_delete_vlog placement_frame_fold placement_frame_mappings split: prod.splits)
  ultimately show ?thesis using placement_frame_counted by blast
qed

lemma retire_each_counted: "counted (\<lambda>_. 0) db \<Longrightarrow> retire_each vs db = (db', Inr ps) \<Longrightarrow> counted (\<lambda>_. 0) db'"
proof (induction vs arbitrary: db ps)
  case (Cons v vs)
  then obtain db1 p1 p2 where "retireVlogTx v db = (db1, Inr p1)" "retire_each vs db1 = (db', Inr p2)"
    by (auto dest!: bind_okD simp: ret_def)
  then show ?case using Cons retireVlogTx_counted by blast
qed (simp add: ret_def)

lemma GCFileVersions_counted: "counted D db \<Longrightarrow> counted D (fst (GCFileVersions limit db))"
proof -
  assume c: "counted D db"
  let ?ids = "take (nat limit) (sort (filter (\<lambda>i. \<not> version_owned db i) (map f_id (t_file db))))"
  let ?db = "db\<lparr>t_file := delete (\<lambda>f. f_id f \<in> set ?ids) (t_file db)\<rparr>"
  have unowned: "i \<notin> set ?ids" if "i \<in> set (root_files db)" for i
  proof
    assume "i \<in> set ?ids"
    then have "\<not> version_owned db i" by (auto dest: in_set_takeD)
    then show False using that by (auto simp: version_owned_def root_files_def list_ex_iff)
  qed
  have at: "file_by_id i ?db = file_by_id i db" if "i \<in> set (root_files db)" for i
    unfolding file_by_id_def using unowned [OF that] by (auto intro: lookup_delete)
  have r: "root_files ?db = root_files db" "chunk_at h ?db = chunk_at h db" "refcount_of ?db h = refcount_of db h" for h
    by (simp_all add: root_files_def chunk_at_def refcount_of_def)
  have "refs ?db h = refs db h" for h
    unfolding refs_def r occurs_def hashes_of_def by (rule arg_cong [where f = sum_list], rule map_cong) (simp_all add: at)
  moreover have "keys_ok ?db" using c by (auto simp: counted_def keys_ok_def intro: distinct_map_delete)
  moreover have "rooted_ok ?db" using c by (auto simp: counted_def rooted_ok_def r at hashes_of_def)
  ultimately have "counted D ?db" using c by (simp add: counted_def r)
  then show ?thesis using c by (simp add: GCFileVersions_def io_simps)
qed

section \<open>Every operation\<close>

lemma RetireVlog_counted:
  assumes c: "counted (\<lambda>_. 0) db"
  shows "counted (\<lambda>_. 0) (fst (RetireVlog v db))"
  unfolding RetireVlog_def by (rule transact_counted [OF c]) (rule retireVlogTx_counted [OF c])

lemma retireUnassigned_ok:
  assumes "bind (gets sel) (\<lambda>ids. bind (retire_each ids) (\<lambda>removed. ret (ids \<noteq> [], removed))) db = (db', Inr x)"
  obtains ids ps where "retire_each ids db = (db', Inr ps)"
proof -
  from bind_okD [OF assms] obtain s ids where "bind (retire_each ids) (\<lambda>removed. ret (ids \<noteq> [], removed)) s = (db', Inr x)" "s = db"
    unfolding gets_def by (elim exE conjE) blast
  from bind_okD [OF this(1)] \<open>s = db\<close> show thesis using that by (auto simp: ret_def)
qed

lemma retireUnassignedMaintenance_counted:
  assumes c: "counted (\<lambda>_. 0) db"
  shows "counted (\<lambda>_. 0) (fst (retireUnassignedMaintenance only db))"
  unfolding retireUnassignedMaintenance_def
  by (rule transact_counted [OF c]) (erule retireUnassigned_ok, rule retire_each_counted [OF c])

lemma SetSnapshotRetention_counted: "counted D db \<Longrightarrow> counted D (fst (SetSnapshotRetention r db))"
proof -
  have "version_tables (fst (SetSnapshotRetention r db)) = version_tables db"
    by (auto simp: SetSnapshotRetention_def io_simps version_tables_def split: option.splits)
  from version_tables_counted [OF this] show "counted D db \<Longrightarrow> ?thesis" by simp
qed

lemma version_step_exact: "refcounts_exact db \<Longrightarrow> op_ok (Version p) \<Longrightarrow> refcounts_exact (version_step p db)"
  unfolding refcounts_exact_def
  by (cases p)
     (simp_all add: CommitFile_counted GCChunks_counted GCFileVersions_counted CreateSnapshot_counted DeleteSnapshot_counted
       ExpireSnapshots_counted RelocateChunk_counted RetireVlog_counted retireUnassignedMaintenance_counted SetSnapshotRetention_counted)

lemma backfill_each_counted: "counted D db \<Longrightarrow> backfill_each ps db = (db', Inr ()) \<Longrightarrow> counted D db'"
proof (induction ps arbitrary: db)
  case (Cons p ps)
  let ?db = "db\<lparr>t_head := update (\<lambda>h. h_path h = p) (\<lambda>h. h\<lparr>h_parent := fst (splitPath p), h_name := snd (splitPath p)\<rparr>) (t_head db)\<rparr>"
  have "counted D ?db" using Cons.prems(1) by (intro counted_heads) (auto simp: map_update counted_def keys_ok_def)
  moreover obtain db1 where "ensureDirs p 0 ?db = (db1, Inr ())" "backfill_each ps db1 = (db', Inr ())"
    using Cons.prems(2) by (auto simp: modify_def dest!: seq_okD)
  ultimately show ?case using Cons.IH version_tables_counted [OF ensureDirs_frame] by blast
qed (simp add: ret_def)

lemma Mkdir_frame: "version_tables (fst (Mkdir path mtime db)) = version_tables db"
proof -
  have i: "version_tables (insert_dir d mtime s) = version_tables s" for d s by (simp add: insert_dir_def version_tables_def)
  show ?thesis unfolding Mkdir_def Let_def
    by (auto simp: transact_def io_simps i split: if_splits prod.splits sum.splits dest!: ensureDirs_frame)
qed

lemma Rmdir_frame: "version_tables (fst (Rmdir path db)) = version_tables db"
proof -
  have "version_tables (s\<lparr>t_dir := ds\<rparr>) = version_tables s" for s ds by (simp add: version_tables_def)
  then show ?thesis unfolding Rmdir_def Let_def by (auto simp: transact_def io_simps split: if_splits)
qed

lemma SetMtime_counted:
  assumes c: "counted D db"
  shows "counted D (fst (SetMtime path mtime db))"
proof -
  have "counted D (db\<lparr>t_head := update (\<lambda>h. h_path h = q) (\<lambda>h. h\<lparr>h_mtime := mtime\<rparr>) (t_head db)\<rparr>)" for q
    using c by (intro counted_heads) (auto simp: map_update counted_def keys_ok_def)
  moreover have "counted D (db\<lparr>t_dir := ds\<rparr>)" for ds
    using c version_tables_counted [of "db\<lparr>t_dir := ds\<rparr>" db] by (simp add: version_tables_def)
  ultimately show ?thesis using c by (simp add: SetMtime_def Let_def)
qed

lemma backfillNamespace_counted:
  assumes c: "counted D db"
  shows "counted D (fst (backfillNamespace db))"
proof -
  have "counted D (fst (transact (backfill_each ps) db))" for ps
    by (rule transact_counted [OF c]) (auto intro: backfill_each_counted [OF c])
  then show ?thesis using c by (simp add: backfillNamespace_def Let_def)
qed

lemma namespace_step_exact: "refcounts_exact db \<Longrightarrow> refcounts_exact (namespace_step p db)"
  unfolding refcounts_exact_def
  by (cases p)
     (simp_all add: UnlinkFile_counted RenameFile_counted SetMtime_counted backfillNamespace_counted
       version_tables_counted [OF Mkdir_frame] version_tables_counted [OF Rmdir_frame])

lemma write_op_frames:
  "version_tables (fst (CreateWriteOp now key path db)) = version_tables db"
  "version_tables (SetWriteOpTail i tail db) = version_tables db"
  "version_tables (fst (RetargetPreparedWriteOp i path db)) = version_tables db"
  "version_tables (AbandonWriteOp i db) = version_tables db"
  "version_tables (CancelWriteOp i db) = version_tables db"
  by (simp_all add: CreateWriteOp_def SetWriteOpTail_def RetargetPreparedWriteOp_def AbandonWriteOp_def CancelWriteOp_def
      finishPreparedWriteOp_def update_prepared_def io_simps Let_def version_tables_def)

lemma write_step_exact: "refcounts_exact db \<Longrightarrow> op_ok (Write p) \<Longrightarrow> refcounts_exact (write_step p db)"
  unfolding refcounts_exact_def
  by (cases p)
     (simp_all add: commitWriteOpVersion_counted ExpireWriteResults_counted write_op_frames [THEN version_tables_counted]
       lease_step_frame [THEN placement_frame_counted])

lemma perform_exact: "refcounts_exact db \<Longrightarrow> op_ok p \<Longrightarrow> refcounts_exact (perform p db)"
proof (cases p)
  case (Version q)
  then show "refcounts_exact db \<Longrightarrow> op_ok p \<Longrightarrow> refcounts_exact (perform p db)" using version_step_exact [of db q] by simp
next
  case (Write q)
  then show "refcounts_exact db \<Longrightarrow> op_ok p \<Longrightarrow> refcounts_exact (perform p db)" using write_step_exact [of db q] by simp
next
  case (Namespace q)
  then show "refcounts_exact db \<Longrightarrow> op_ok p \<Longrightarrow> refcounts_exact (perform p db)" by (simp add: namespace_step_exact)
qed (simp_all add: refcounts_exact_def shard_step_frame [THEN placement_frame_counted]
    disk_step_frame [THEN placement_frame_counted] job_step_frame [THEN placement_frame_counted])

lemma empty_exact: "refcounts_exact empty_db"
  by (simp add: refcounts_exact_def counted_def keys_ok_def rooted_ok_def root_files_def refs_def refcount_of_def chunk_at_def empty_db_def)

lemma reachable_exact: "reachable db \<Longrightarrow> refcounts_exact db"
  by (induction rule: reachable.induct) (simp_all add: empty_exact perform_exact)

section \<open>Reading a version back\<close>

lemma fold_map_upd:
  "distinct (map c_hash cs) \<Longrightarrow>
   fold (\<lambda>c m. m(c_hash c := Some c)) cs m h = (case lookup (\<lambda>c. c_hash c = h) cs of None \<Rightarrow> m h | Some c \<Rightarrow> Some c)"
proof (induction cs arbitrary: m)
  case (Cons c cs)
  have "lookup (\<lambda>x. c_hash x = c_hash c) cs = None" using Cons.prems by (auto simp: lookup_None_iff image_iff)
  with Cons show ?case by (auto split: option.splits)
qed simp

lemma lookup_filter: "lookup P (filter Q xs) = lookup (\<lambda>x. P x \<and> Q x) xs"
  by (induction xs) auto

lemma chunks_map_fold:
  assumes k: "distinct (map c_hash (t_chunk db))"
  shows "fold (\<lambda>batch m. fold (\<lambda>c m. m(c_hash c := Some c)) (filter (\<lambda>c. c_hash c \<in> set batch) (t_chunk db)) m) bs m h =
     (if h \<in> set (concat bs) \<and> chunk_at h db \<noteq> None then chunk_at h db else m h)"
proof (induction bs arbitrary: m)
  case (Cons b bs)
  let ?m = "fold (\<lambda>c m. m(c_hash c := Some c)) (filter (\<lambda>c. c_hash c \<in> set b) (t_chunk db)) m"
  have q: "(\<lambda>x. c_hash x = h \<and> c_hash x \<in> set b) = (if h \<in> set b then (\<lambda>x. c_hash x = h) else (\<lambda>_. False))" by auto
  have no: "lookup (\<lambda>_. False) xs = None" for xs :: "chunk_row list" by (simp add: lookup_None_iff)
  have "?m h = (if h \<in> set b \<and> chunk_at h db \<noteq> None then chunk_at h db else m h)"
    using k by (subst fold_map_upd) (auto simp: distinct_map_filter lookup_filter q no chunk_at_def split: option.splits)
  then show ?case unfolding fold_simps o_apply Cons.IH by auto
qed simp

lemma chunks_map_at:
  assumes k: "distinct (map c_hash (t_chunk db))" and h: "h \<in> set hs"
  shows "chunks_map hs db h = chunk_at h db"
  unfolding chunks_map_def chunks_map_fold [OF k] using h by (simp add: concat_batches)

lemma chunkHashes_Cons: "length e = 19 \<Longrightarrow> chunkHashes (e @ rest) = take 15 e # chunkHashes rest"
  by (subst chunkHashes.simps) simp

text \<open>If every chunk of the blob has a row, its placements are those of the rows, in the blob's order.\<close>

lemma placements_from_ok:
  "\<forall>h \<in> set (chunkHashes blob). m h \<noteq> None \<Longrightarrow>
   \<exists>out. placements_from m blob = Inr out \<and> map cp_Hash out = chunkHashes blob \<and>
     sum_list (map cp_LogicalLen out) = chunksLogicalSize blob \<and> (\<forall>p \<in> set out. \<exists>c. m (cp_Hash p) = Some c \<and>
       cp_VlogID p = c_vlog c \<and> cp_VaddrOffset p = c_vaddr c \<and> cp_CompressedLen p = c_compressed c)"
proof (induction blob rule: chunkHashes.induct)
  case (1 blob)
  show ?case
  proof (cases "19 \<le> length blob")
    case True
    then have hs: "chunkHashes blob = take 15 blob # chunkHashes (drop 19 blob)" by (subst chunkHashes.simps) simp
    then obtain c where c: "m (take 15 blob) = Some c" using "1.prems" by auto
    have "\<forall>h \<in> set (chunkHashes (drop 19 blob)). m h \<noteq> None" using "1.prems" hs by simp
    from "1.IH" [OF True this] obtain out where out: "placements_from m (drop 19 blob) = Inr out" "map cp_Hash out = chunkHashes (drop 19 blob)"
      "sum_list (map cp_LogicalLen out) = chunksLogicalSize (drop 19 blob)" "\<forall>p \<in> set out. \<exists>c. m (cp_Hash p) = Some c \<and>
       cp_VlogID p = c_vlog c \<and> cp_VaddrOffset p = c_vaddr c \<and> cp_CompressedLen p = c_compressed c" by blast
    show ?thesis using True c out by (subst placements_from.simps, subst chunksLogicalSize.simps) (simp add: hs)
  next
    case False
    then show ?thesis by (subst placements_from.simps, subst chunksLogicalSize.simps, subst chunkHashes.simps) simp
  qed
qed

lemma FileVersionChunks_ok:
  assumes c: "counted D db" and i: "i \<in> set (root_files db)"
  obtains f out where "file_by_id i db = Some f" "FileVersionChunks i db = Inr out" "map cp_Hash out = chunkHashes (f_chunks f)"
    "sum_list (map cp_LogicalLen out) = chunksLogicalSize (f_chunks f)" "\<forall>p \<in> set out. \<exists>c. chunk_at (cp_Hash p) db = Some c \<and>
       cp_VlogID p = c_vlog c \<and> cp_VaddrOffset p = c_vaddr c \<and> cp_CompressedLen p = c_compressed c"
proof -
  have k: "distinct (map c_hash (t_chunk db))" using c by (simp add: counted_def keys_ok_def)
  obtain f where f: "file_by_id i db = Some f" using c i by (auto simp: counted_def rooted_ok_def)
  then have pos: "i \<noteq> 0" using c unfolding file_by_id_def by (auto simp: counted_def keys_ok_def dest!: lookup_SomeD)
  let ?m = "chunks_map (remdups (chunkHashes (f_chunks f))) db"
  have at: "?m h = chunk_at h db" if "h \<in> set (chunkHashes (f_chunks f))" for h
    using that by (intro chunks_map_at [OF k]) simp
  have "\<forall>h \<in> set (chunkHashes (f_chunks f)). ?m h \<noteq> None"
    using c i f at by (auto simp: counted_def rooted_ok_def hashes_of_def)
  from placements_from_ok [OF this] obtain out where out: "placements_from ?m (f_chunks f) = Inr out" "map cp_Hash out = chunkHashes (f_chunks f)"
    "sum_list (map cp_LogicalLen out) = chunksLogicalSize (f_chunks f)" "\<forall>p \<in> set out. \<exists>c. ?m (cp_Hash p) = Some c \<and>
       cp_VlogID p = c_vlog c \<and> cp_VaddrOffset p = c_vaddr c \<and> cp_CompressedLen p = c_compressed c" by blast
  have "cp_Hash p \<in> set (chunkHashes (f_chunks f))" if "p \<in> set out" for p using that out(2) [symmetric] by simp
  then have "\<forall>p \<in> set out. \<exists>c. chunk_at (cp_Hash p) db = Some c \<and>
       cp_VlogID p = c_vlog c \<and> cp_VaddrOffset p = c_vaddr c \<and> cp_CompressedLen p = c_compressed c"
    using out(4) at by metis
  then show thesis using f pos out by (intro that) (simp_all add: FileVersionChunks_def)
qed

text \<open>
  Where a commit leaves a chunk. \<open>freed\<close> counts the references the replaced version of the path gives up; a
  chunk with more than those is held elsewhere and keeps its row, any other chunk is taken to the first of the
  committed placements that names it.
\<close>

definition freed :: "string \<Rightarrow> DB \<Rightarrow> bytes \<Rightarrow> int" where
  "freed path db h = (case head_at path db of None \<Rightarrow> 0 | Some old \<Rightarrow> occurs db (h_file old) h)"

definition held_elsewhere :: "string \<Rightarrow> DB \<Rightarrow> bytes \<Rightarrow> bool" where
  "held_elsewhere path db h \<longleftrightarrow> (case chunk_at h db of None \<Rightarrow> False | Some c \<Rightarrow> freed path db h < c_refcount c)"

definition settled_place :: "string \<Rightarrow> ChunkPlacement list \<Rightarrow> DB \<Rightarrow> bytes \<Rightarrow> ChunkPlacement option" where
  "settled_place path ps db h =
     (if held_elsewhere path db h then ChunkByHash h db
      else case find (\<lambda>p. cp_Hash p = h) ps of None \<Rightarrow> ChunkByHash h db | Some p \<Rightarrow> Some p)"

text \<open>What reading a committed chunk returns: the place it settled at, with the length the version stores.\<close>

definition read_back :: "string \<Rightarrow> ChunkPlacement list \<Rightarrow> DB \<Rightarrow> ChunkPlacement \<Rightarrow> ChunkPlacement" where
  "read_back path ps db p =
     (case settled_place path ps db (cp_Hash p) of None \<Rightarrow> p | Some q \<Rightarrow> q\<lparr>cp_LogicalLen := cp_LogicalLen p\<rparr>)"

text \<open>Placements that agree with each other and with the rows of the chunks in use.\<close>

definition consistent :: "ChunkPlacement list \<Rightarrow> bool" where
  "consistent ps \<longleftrightarrow> (\<forall>p \<in> set ps. \<forall>q \<in> set ps. cp_Hash p = cp_Hash q \<longrightarrow> p = q)"

definition canonical_for :: "DB \<Rightarrow> ChunkPlacement list \<Rightarrow> bool" where
  "canonical_for db ps \<longleftrightarrow> (\<forall>p \<in> set ps. \<forall>c. chunk_at (cp_Hash p) db = Some c \<and> 0 < c_refcount c \<longrightarrow> placement_of c = p)"

lemma upsert_chunk_at:
  "chunk_at h (upsert_chunk p db) =
      (if chunk_at (cp_Hash p) db = None \<and> h = cp_Hash p
       then Some \<lparr>c_hash = cp_Hash p, c_refcount = 1, c_vlog = cp_VlogID p, c_vaddr = cp_VaddrOffset p, c_logical = cp_LogicalLen p,
                  c_compressed = cp_CompressedLen p\<rparr>
       else map_option (\<lambda>c. if c_hash c = cp_Hash p then
             \<lparr>c_hash = c_hash c, c_refcount = c_refcount c + 1,
              c_vlog = (if c_refcount c = 0 then cp_VlogID p else c_vlog c),
              c_vaddr = (if c_refcount c = 0 then cp_VaddrOffset p else c_vaddr c),
              c_logical = (if c_refcount c = 0 then cp_LogicalLen p else c_logical c),
              c_compressed = (if c_refcount c = 0 then cp_CompressedLen p else c_compressed c)\<rparr> else c) (chunk_at h db))"
  unfolding upsert_chunk_def
  by (auto simp: chunk_at_def lookup_append lookup_update lookup_None_iff dest: lookup_SomeD split: option.splits)

lemma upsert_chunk_other: "h \<noteq> cp_Hash p \<Longrightarrow> chunk_at h (upsert_chunk p db) = chunk_at h db"
  by (cases "chunk_at h db") (auto simp: upsert_chunk_at dest: chunk_at_hash)

lemma upsert_chunk_used:
  assumes "chunk_at (cp_Hash p) db = Some c" "0 < c_refcount c"
  shows "chunk_at (cp_Hash p) (upsert_chunk p db) = Some (c\<lparr>c_refcount := c_refcount c + 1\<rparr>)"
  using assms chunk_at_hash [OF assms(1)] by (simp add: upsert_chunk_at)

lemma upsert_chunk_unused:
  assumes "case chunk_at (cp_Hash p) db of None \<Rightarrow> True | Some c \<Rightarrow> c_refcount c = 0"
  shows "\<exists>c. chunk_at (cp_Hash p) (upsert_chunk p db) = Some c \<and> placement_of c = p \<and> c_refcount c = 1"
  using assms by (cases "chunk_at (cp_Hash p) db") (auto simp: upsert_chunk_at placement_of_def dest: chunk_at_hash)

lemma upsertChunkRefs_used:
  assumes "chunk_at h db = Some c" "0 < c_refcount c"
  shows "\<exists>c'. chunk_at h (upsertChunkRefs ps db) = Some c' \<and> placement_of c' = placement_of c"
  using assms unfolding upsertChunkRefs_eq
proof (induction ps arbitrary: db c)
  case (Cons p ps)
  show ?case
  proof (cases "h = cp_Hash p")
    case True
    let ?c = "c\<lparr>c_refcount := c_refcount c + 1\<rparr>"
    have "chunk_at h (upsert_chunk p db) = Some ?c" "0 < c_refcount ?c"
      using True Cons.prems upsert_chunk_used by simp_all
    from Cons.IH [OF this] show ?thesis by (simp add: placement_of_def)
  next
    case False
    then show ?thesis using Cons by (simp add: upsert_chunk_other)
  qed
qed simp

lemma upsertChunkRefs_unused:
  assumes "case chunk_at h db of None \<Rightarrow> True | Some c \<Rightarrow> c_refcount c = 0"
  shows "ChunkByHash h (upsertChunkRefs ps db) =
    (case find (\<lambda>p. cp_Hash p = h) ps of None \<Rightarrow> ChunkByHash h db | Some p \<Rightarrow> Some p)"
  using assms
proof (induction ps arbitrary: db)
  case (Cons p ps)
  show ?case
  proof (cases "h = cp_Hash p")
    case True
    then obtain c where "chunk_at h (upsert_chunk p db) = Some c" "placement_of c = p" "0 < c_refcount c"
      using upsert_chunk_unused Cons.prems by fastforce
    then show ?thesis
      using upsertChunkRefs_used [of h "upsert_chunk p db" c ps] True by (auto simp: upsertChunkRefs_eq ChunkByHash_def)
  next
    case False
    then have "ChunkByHash h (upsert_chunk p db) = ChunkByHash h db" by (simp add: ChunkByHash_def upsert_chunk_other)
    then show ?thesis
      using False Cons.IH [of "upsert_chunk p db"] Cons.prems by (simp add: upsertChunkRefs_eq upsert_chunk_other split: option.split)
  qed
qed (simp add: upsertChunkRefs_eq)

lemma CommitFile_publishes: "CommitFile path mtime ps db = (db', Inr i) \<Longrightarrow> publishFileVersion path mtime ps db = (db', Inr i)"
  by (auto simp: CommitFile_def transact_def split: prod.splits sum.splits)

text \<open>Adjusting counts leaves placements alone.\<close>

lemma fold_bump_ref_at: "chunk_at h (fold (bump_ref d) hs db) = map_option (\<lambda>c. c\<lparr>c_refcount := c_refcount c + d * int (count_list hs h)\<rparr>) (chunk_at h db)"
proof (induction hs arbitrary: db)
  case Nil
  show ?case by (cases "chunk_at h db") simp_all
next
  case (Cons x hs)
  show ?case
    by (cases "chunk_at h db") (auto simp: Cons.IH chunk_at_bump_ref algebra_simps dest: chunk_at_hash)
qed

lemma adjust_version_at:
  "adjust_version i d db = (db', Inr ()) \<Longrightarrow>
   chunk_at h db' = map_option (\<lambda>c. c\<lparr>c_refcount := c_refcount c + d * occurs db i h\<rparr>) (chunk_at h db)"
  by (auto simp: adjust_version_def fileChunks_def io_simps adjustChunkRefs_eq fold_bump_ref_at occurs_def hashes_of_def
      split: option.splits)

lemma release_head_at:
  "release_head path db = (db', Inr ()) \<Longrightarrow>
   chunk_at h db' = map_option (\<lambda>c. c\<lparr>c_refcount := c_refcount c - freed path db h\<rparr>) (chunk_at h db)"
  by (cases "chunk_at h db") (auto simp: release_head_def freed_def adjust_version_at split: option.splits)

lemma publish_chunk_at:
  assumes "publishFileVersion path mtime ps db = (db', Inr i)"
  obtains db1 where "release_head (cleanPath path) db = (db1, Inr ())" "\<And>h. chunk_at h db' = chunk_at h (upsertChunkRefs ps db1)"
proof -
  from publish_cases [OF assms] obtain db1 db3 where e1: "release_head (cleanPath path) db = (db1, Inr ())"
    and e3: "insert_file (cleanPath path) mtime (concat (map chunk_entry ps)) (upsertChunkRefs ps db1) = (db3, Inr i)"
    and e5: "ensureDirs (cleanPath path) mtime (upsert_head (cleanPath path) i mtime db3) = (db', Inr ())" by blast
  have "t_chunk db3 = t_chunk (upsertChunkRefs ps db1)" using e3 by (auto simp: insert_file_def Let_def)
  then have "t_chunk db' = t_chunk (upsertChunkRefs ps db1)" using ensureDirs_frame [OF e5] by (simp add: version_tables_def)
  then show thesis using e1 by (intro that) (simp_all add: chunk_at_def)
qed

lemma freed_bounds:
  assumes "counted (\<lambda>_. 0) db" "chunk_at h db = Some c"
  shows "0 \<le> freed path db h \<and> freed path db h \<le> c_refcount c"
proof -
  have rc: "c_refcount c = refs db h"
    using assms unfolding counted_def refcount_of_def by (metis add.right_neutral option.simps(5))
  show ?thesis
  proof (cases "head_at path db")
    case None
    then show ?thesis using rc refs_nonneg [of db h] by (simp add: freed_def)
  next
    case (Some old)
    then have "occurs db (h_file old) h \<in> set (map (\<lambda>i. occurs db i h) (root_files db))" using head_at_root by simp
    then have "occurs db (h_file old) h \<le> refs db h"
      unfolding refs_def by (intro member_le_sum_list) (auto simp: occurs_def)
    then show ?thesis using rc Some by (simp add: freed_def occurs_def)
  qed
qed

lemma publish_settles:
  assumes c: "counted (\<lambda>_. 0) db" and e: "publishFileVersion path mtime ps db = (db', Inr i)"
  shows "ChunkByHash h db' = settled_place (cleanPath path) ps db h"
proof -
  from publish_chunk_at [OF e] obtain db1 where r: "release_head (cleanPath path) db = (db1, Inr ())"
    and at: "chunk_at h db' = chunk_at h (upsertChunkRefs ps db1)" by metis
  note R = release_head_at [OF r, of h]
  show ?thesis
  proof (cases "held_elsewhere (cleanPath path) db h")
    case True
    then obtain x where x: "chunk_at h db = Some x" "freed (cleanPath path) db h < c_refcount x"
      by (auto simp: held_elsewhere_def split: option.splits)
    let ?x = "x\<lparr>c_refcount := c_refcount x - freed (cleanPath path) db h\<rparr>"
    have "chunk_at h db1 = Some ?x" "0 < c_refcount ?x" using R x by simp_all
    from upsertChunkRefs_used [OF this, of ps] show ?thesis
      using True x(1) at by (auto simp: settled_place_def ChunkByHash_def placement_of_def)
  next
    case False
    then have "case chunk_at h db1 of None \<Rightarrow> True | Some c \<Rightarrow> c_refcount c = 0"
      using R freed_bounds [OF c, of h _ "cleanPath path"] by (cases "chunk_at h db") (fastforce simp: held_elsewhere_def)+
    from upsertChunkRefs_unused [OF this, of ps] show ?thesis
      using False at R by (cases "chunk_at h db") (simp_all add: settled_place_def ChunkByHash_def placement_of_def split: option.splits)
  qed
qed

lemma read_back_agreed:
  assumes c: "counted (\<lambda>_. 0) db" and k: "consistent ps" "canonical_for db ps" and p: "p \<in> set ps"
  shows "read_back path ps db p = p"
proof -
  obtain q where q: "find (\<lambda>q. cp_Hash q = cp_Hash p) ps = Some q"
    using p by (cases "find (\<lambda>q. cp_Hash q = cp_Hash p) ps") (auto simp: find_None_iff)
  then have qp: "q = p" using p k(1) by (auto simp: find_Some_iff consistent_def)
  have "settled_place path ps db (cp_Hash p) = Some p"
  proof (cases "held_elsewhere path db (cp_Hash p)")
    case True
    then obtain x where x: "chunk_at (cp_Hash p) db = Some x" "freed path db (cp_Hash p) < c_refcount x"
      by (auto simp: held_elsewhere_def split: option.splits)
    then have "0 < c_refcount x" using freed_bounds [OF c x(1), of path] by simp
    then show ?thesis using True x k(2) p by (simp add: settled_place_def ChunkByHash_def canonical_for_def)
  next
    case False
    then show ?thesis using q qp by (simp add: settled_place_def)
  qed
  then show ?thesis by (simp add: read_back_def)
qed

lemma placements_from_entries:
  "\<forall>p \<in> set ps. hash_sized p \<and> 0 \<le> cp_LogicalLen p \<and> cp_LogicalLen p < 2 ^ 32 \<and>
     (\<exists>c. m (cp_Hash p) = Some c \<and> c_hash c = cp_Hash p \<and> (placement_of c)\<lparr>cp_LogicalLen := cp_LogicalLen p\<rparr> = g p) \<Longrightarrow>
   placements_from m (concat (map chunk_entry ps)) = Inr (map g ps)"
proof (induction ps)
  case Nil
  show ?case by (subst placements_from.simps) simp
next
  case (Cons p ps)
  let ?e = "chunk_entry p" and ?r = "concat (map chunk_entry ps)"
  from Cons.prems obtain c where p: "length (cp_Hash p) = 15" "0 \<le> cp_LogicalLen p" "cp_LogicalLen p < 2 ^ 32"
    and c: "m (cp_Hash p) = Some c" "c_hash c = cp_Hash p" "(placement_of c)\<lparr>cp_LogicalLen := cp_LogicalLen p\<rparr> = g p" by (auto simp: hash_sized_def)
  have e: "length ?e = 19" "take 15 ?e = cp_Hash p" "bslice 15 19 ?e = le_put 4 (nat (cp_LogicalLen p mod 2 ^ 32))"
    using p(1) by (simp_all add: chunk_entry_def bslice_def)
  have "le_get (bslice 15 19 ?e) = nat (cp_LogicalLen p)" using p e(3) by (simp add: le_get_put nat_less_iff)
  moreover have "\<lparr>cp_Hash = cp_Hash p, cp_VlogID = c_vlog c, cp_VaddrOffset = c_vaddr c, cp_LogicalLen = cp_LogicalLen p, cp_CompressedLen = c_compressed c\<rparr> = g p"
    using c(2,3) by (auto simp: placement_of_def)
  ultimately show ?case using Cons e p(2) c(1) by (subst placements_from.simps) simp
qed

lemma chunksLogicalSize_entries:
  "\<forall>p \<in> set ps. hash_sized p \<and> 0 \<le> cp_LogicalLen p \<and> cp_LogicalLen p < 2 ^ 32 \<Longrightarrow>
   chunksLogicalSize (concat (map chunk_entry ps)) = sum_list (map cp_LogicalLen ps)"
proof (induction ps)
  case Nil
  show ?case by (subst chunksLogicalSize.simps) simp
next
  case (Cons p ps)
  let ?e = "chunk_entry p"
  from Cons.prems have p: "length (cp_Hash p) = 15" "0 \<le> cp_LogicalLen p" "cp_LogicalLen p < 2 ^ 32" by (auto simp: hash_sized_def)
  have e: "length ?e = 19" "bslice 15 19 ?e = le_put 4 (nat (cp_LogicalLen p mod 2 ^ 32))"
    using p(1) by (simp_all add: chunk_entry_def bslice_def)
  have "le_get (bslice 15 19 ?e) = nat (cp_LogicalLen p)" using p e(2) by (simp add: le_get_put nat_less_iff)
  then show ?case using Cons e p(2) by (subst chunksLogicalSize.simps) simp
qed

lemma publish_read_back:
  assumes c: "counted (\<lambda>_. 0) db" and s: "list_all hash_sized ps"
    and l: "\<forall>p \<in> set ps. 0 \<le> cp_LogicalLen p \<and> cp_LogicalLen p < 2 ^ 32"
    and e: "publishFileVersion path mtime ps db = (db', Inr i)"
  shows "FileVersionChunks i db' = Inr (map (read_back (cleanPath path) ps db) ps)"
proof -
  note P = publish_counted [OF c s e]
  have d: "distinct (map c_hash (t_chunk db'))" "0 \<le> file_seq db" using P(1) c by (simp_all add: counted_def keys_ok_def)
  have "\<exists>x. chunk_at (cp_Hash p) db' = Some x \<and> c_hash x = cp_Hash p \<and>
      (placement_of x)\<lparr>cp_LogicalLen := cp_LogicalLen p\<rparr> = read_back (cleanPath path) ps db p" if p: "p \<in> set ps" for p
  proof -
    obtain x where x: "chunk_at (cp_Hash p) db' = Some x" using P(8) p by auto
    then have "settled_place (cleanPath path) ps db (cp_Hash p) = Some (placement_of x)"
      using publish_settles [OF c e, of "cp_Hash p"] by (simp add: ChunkByHash_def)
    then show ?thesis using x chunk_at_hash [OF x] by (simp add: read_back_def)
  qed
  then have "placements_from (chunks_map (remdups (map cp_Hash ps)) db') (concat (map chunk_entry ps))
      = Inr (map (read_back (cleanPath path) ps db) ps)"
    using s l chunks_map_at [OF d(1)] by (intro placements_from_entries) (auto simp: list_all_iff)
  then show ?thesis using P(2,3) d(2) by (simp add: FileVersionChunks_def chunkHashes_entries [OF s])
qed

text \<open>
  C3. In every reachable catalog the reference count of a chunk row is exactly the number of times the
  chunk occurs in the versions held by file heads, snapshots and retained results, and a chunk with no row
  occurs in none of them.
\<close>

theorem refcounts_match:
  assumes "reachable db"
  shows "case chunk_at h db of None \<Rightarrow> refs db h = 0 | Some c \<Rightarrow> c_refcount c = refs db h"
proof -
  have "refcount_of db h = refs db h" using reachable_exact [OF assms] by (simp add: refcounts_exact_def counted_def)
  then show ?thesis by (simp add: refcount_of_def split: option.splits)
qed

text \<open>
  C4. Whatever was collected, retired, expired, renamed or relocated, a version held by a head, a snapshot or a
  retained result resolves completely: reading its chunk list succeeds and gives the stored hashes, in order,
  with the size stored, each at the place its chunk row names.
\<close>

theorem rooted_versions_resolve:
  assumes "reachable db" "i \<in> set (root_files db)"
  shows "\<exists>f out. file_by_id i db = Some f \<and> FileVersionChunks i db = Inr out \<and> map cp_Hash out = chunkHashes (f_chunks f) \<and>
     sum_list (map cp_LogicalLen out) = chunksLogicalSize (f_chunks f) \<and> (\<forall>p \<in> set out. \<exists>c. chunk_at (cp_Hash p) db = Some c \<and>
       cp_VlogID p = c_vlog c \<and> cp_VaddrOffset p = c_vaddr c \<and> cp_CompressedLen p = c_compressed c)"
proof -
  have c: "counted (\<lambda>_. 0) db" using reachable_exact [OF assms(1)] by (simp add: refcounts_exact_def)
  show ?thesis by (rule FileVersionChunks_ok [OF c assms(2)]) blast
qed

text \<open>
  C5. Committing a version (hashes of 15 bytes, lengths that fit the four bytes a version stores) makes it the
  file's version with its size and modification time, and reading it back gives the committed chunks in order,
  each with the committed length, at the place it settled: its own row's while another version holds it, else the
  first committed placement of that hash. Placements that agree with each other and with the rows in use are read
  back unchanged.
\<close>

theorem commit_version_roundtrip:
  assumes r: "reachable db" and s: "list_all hash_sized ps"
    and l: "\<forall>p \<in> set ps. 0 \<le> cp_LogicalLen p \<and> cp_LogicalLen p < 2 ^ 32"
    and e: "CommitFile path mtime ps db = (db', Inr i)"
  shows "OpenFile (cleanPath path) db' = i \<and> FileVersionMtime i db' = Inr mtime \<and>
     GetFileSize (cleanPath path) db' = sum_list (map cp_LogicalLen ps) \<and>
     FileVersionChunks i db' = Inr (map (read_back (cleanPath path) ps db) ps) \<and>
     (consistent ps \<and> canonical_for db ps \<longrightarrow> FileVersionChunks i db' = Inr ps)"
proof -
  have c: "counted (\<lambda>_. 0) db" using reachable_exact [OF r] by (simp add: refcounts_exact_def)
  have p: "publishFileVersion path mtime ps db = (db', Inr i)" by (rule CommitFile_publishes [OF e])
  note P = publish_counted [OF c s p]
  have "GetFileSize (cleanPath path) db' = sum_list (map cp_LogicalLen ps)"
    using P(3,7) s l by (simp add: GetFileSize_def chunksLogicalSize_entries list_all_iff)
  moreover have "map (read_back (cleanPath path) ps db) ps = ps" if "consistent ps" "canonical_for db ps"
    using read_back_agreed [OF c that] by (simp add: map_idI)
  ultimately show ?thesis using P(3,7) publish_read_back [OF c s l p] by (simp add: OpenFile_def FileVersionMtime_def)
qed

text \<open>
  C6. A commit decides the place of every chunk by who holds it: a chunk with a reference beyond those the replaced
  version gives up keeps its row's placement, whatever placement is committed for it; any other committed chunk is
  taken to the first placement committed for it, never to its stale row; and a chunk not committed stays where it is.
\<close>

theorem commit_keeps_live_placements:
  assumes r: "reachable db" and e: "CommitFile path mtime ps db = (db', Inr i)"
  shows "ChunkByHash h db' =
     (if held_elsewhere (cleanPath path) db h then ChunkByHash h db
      else case find (\<lambda>p. cp_Hash p = h) ps of None \<Rightarrow> ChunkByHash h db | Some p \<Rightarrow> Some p)"
proof -
  have "counted (\<lambda>_. 0) db" using reachable_exact [OF r] by (simp add: refcounts_exact_def)
  from publish_settles [OF this CommitFile_publishes [OF e], of h] show ?thesis by (simp add: settled_place_def)
qed

text \<open>A small catalog: a file of one chunk twice, and a snapshot of it.\<close>

definition demo_chunk :: ChunkPlacement where
  "demo_chunk =
     \<lparr>cp_Hash = [1, 2, 3, 4, 5, 6, 7, 8, 9, 10, 11, 12, 13, 14, 15], cp_VlogID = 4, cp_VaddrOffset = 640,
      cp_LogicalLen = 300, cp_CompressedLen = 200\<rparr>"

text \<open>The same chunk, and another one, stored somewhere else.\<close>

definition demo_moved :: ChunkPlacement where
  "demo_moved = demo_chunk\<lparr>cp_VlogID := 9, cp_VaddrOffset := 0\<rparr>"

definition demo_fresh :: ChunkPlacement where
  "demo_fresh = demo_moved\<lparr>cp_Hash := replicate 15 7\<rparr>"

definition demo_row :: "int \<Rightarrow> chunk_row" where
  "demo_row n =
     \<lparr>c_hash = cp_Hash demo_chunk, c_refcount = n, c_vlog = 4, c_vaddr = 640, c_logical = 300, c_compressed = 200\<rparr>"

definition demo_db :: DB where
  "demo_db =
     perform (Version (CreateSnapshotOp ''s'' 9))
       (perform (Version (CommitFileOp ''/a/f'' 7 [demo_chunk, demo_chunk])) empty_db)"

lemma demo_sized: "hash_sized demo_chunk"
  by code_simp

lemma demo_reachable: "reachable demo_db"
  unfolding demo_db_def by (intro reachable.intros) (simp_all add: demo_sized)

lemma demo_chunk_at: "chunk_at (cp_Hash demo_chunk) demo_db = Some (demo_row 4)"
  by code_simp

theorem refcounts_match_witness:
  "reachable demo_db \<and> chunk_at (cp_Hash demo_chunk) demo_db = Some (demo_row 4) \<and> refs demo_db (cp_Hash demo_chunk) = 4"
  using refcounts_match [OF demo_reachable, of "cp_Hash demo_chunk"] by (simp add: demo_reachable demo_chunk_at demo_row_def)

theorem rooted_versions_resolve_witness:
  "1 \<in> set (root_files demo_db) \<and> (\<exists>out. FileVersionChunks 1 demo_db = Inr out \<and> map cp_Hash out = [cp_Hash demo_chunk, cp_Hash demo_chunk])"
proof -
  have r: "1 \<in> set (root_files demo_db)" by code_simp
  have f: "map_option (chunkHashes \<circ> f_chunks) (file_by_id 1 demo_db) = Some [cp_Hash demo_chunk, cp_Hash demo_chunk]" by code_simp
  from rooted_versions_resolve [OF demo_reachable r] f show ?thesis by (auto simp: r)
qed

theorem commit_version_roundtrip_witness:
  "\<exists>db'. CommitFile ''/a/f'' 8 [demo_moved, demo_fresh] demo_db = (db', Inr 2) \<and>
     FileVersionChunks 2 db' = Inr [demo_chunk, demo_fresh] \<and> OpenFile ''a/f'' db' = 2"
proof -
  let ?ps = "[demo_moved, demo_fresh]"
  have ok: "snd (CommitFile ''/a/f'' 8 ?ps demo_db) = Inr 2" by code_simp
  obtain db' where e: "CommitFile ''/a/f'' 8 ?ps demo_db = (db', Inr 2)"
    using ok by (cases "CommitFile ''/a/f'' 8 ?ps demo_db") simp
  have l: "\<forall>p \<in> set ?ps. 0 \<le> cp_LogicalLen p \<and> cp_LogicalLen p < 2 ^ 32" by code_simp
  have s: "list_all hash_sized ?ps" by code_simp
  have c: "cleanPath ''/a/f'' = ''a/f''" by code_simp
  have b: "map (read_back ''a/f'' ?ps demo_db) ?ps = [demo_chunk, demo_fresh]" by code_simp
  from commit_version_roundtrip [OF demo_reachable s l e] e b show ?thesis by (auto simp: c)
qed

theorem commit_keeps_live_placements_witness:
  "\<exists>db'. CommitFile ''/a/f'' 8 [demo_moved, demo_fresh] demo_db = (db', Inr 2) \<and>
     ChunkByHash (cp_Hash demo_chunk) db' = Some demo_chunk \<and> ChunkByHash (cp_Hash demo_fresh) db' = Some demo_fresh"
proof -
  let ?ps = "[demo_moved, demo_fresh]"
  have ok: "snd (CommitFile ''/a/f'' 8 ?ps demo_db) = Inr 2" by code_simp
  obtain db' where e: "CommitFile ''/a/f'' 8 ?ps demo_db = (db', Inr 2)"
    using ok by (cases "CommitFile ''/a/f'' 8 ?ps demo_db") simp
  have h: "held_elsewhere (cleanPath ''/a/f'') demo_db (cp_Hash demo_chunk)" "ChunkByHash (cp_Hash demo_chunk) demo_db = Some demo_chunk"
    "\<not> held_elsewhere (cleanPath ''/a/f'') demo_db (cp_Hash demo_fresh)" "find (\<lambda>p. cp_Hash p = cp_Hash demo_fresh) ?ps = Some demo_fresh"
    by code_simp+
  show ?thesis
    using commit_keeps_live_placements [OF demo_reachable e, of "cp_Hash demo_chunk"]
      commit_keeps_live_placements [OF demo_reachable e, of "cp_Hash demo_fresh"] h e by (intro exI [of _ db']) simp
qed

end
