(* ===== verification/Rose_Views.thy ===== *)
theory Rose_Views
  imports Rose_Refs
begin

text \<open>
  What an operation cannot change. A view is a function of the catalog; the locales say which tables it ignores
  and conclude, once for every view, which operations keep it. The invariants of write operations, of the
  namespace, of snapshots and of placement interpret them on the tables they are about.
\<close>

section \<open>Views that ignore chunk rows\<close>

locale chunk_view =
  fixes view :: "DB \<Rightarrow> 'v"
  assumes chunk_blind [simp]: "view (db\<lparr>t_chunk := cs\<rparr>) = view db"
begin

lemma transact_view: "(\<And>db' x. m db = (db', Inr x) \<Longrightarrow> view db' = view db) \<Longrightarrow> view (fst (transact m db)) = view db"
  by (auto simp: transact_def split: prod.splits sum.splits)

lemma for_each_view:
  assumes f: "\<And>x db db'. f x db = (db', Inr ()) \<Longrightarrow> view db' = view db"
  shows "for_each f xs db = (db', Inr ()) \<Longrightarrow> view db' = view db"
  by (induction xs arbitrary: db) (auto simp: ret_def dest!: seq_okD f)

lemma fold_bump_ref_view: "view (fold (bump_ref d) hs db) = view db"
  by (induction hs arbitrary: db) (simp_all add: bump_ref_def)

lemma adjust_version_view: "adjust_version i d db = (db', r) \<Longrightarrow> view db' = view db"
  by (auto simp: adjust_version_def fileChunks_def io_simps adjustChunkRefs_eq fold_bump_ref_view split: option.splits)

lemma upsertChunkRefs_view [simp]: "view (upsertChunkRefs ps db) = view db"
  unfolding upsertChunkRefs_eq by (induction ps arbitrary: db) (simp_all add: upsert_chunk_def)

lemma release_head_view: "release_head p db = (db', r) \<Longrightarrow> view db' = view db"
  by (auto simp: release_head_def gets_def bind_def ret_def split: option.splits dest: adjust_version_view)

lemma release_rows_view: "for_each (\<lambda>s. adjust_version (g s) d) xs db = (db', Inr ()) \<Longrightarrow> view db' = view db"
  by (rule for_each_view [where f = "\<lambda>s. adjust_version (g s) d"]) (rule adjust_version_view)

lemma GCChunks_view: "view (fst (GCChunks pinned db)) = view db"
proof -
  have "view (fold (\<lambda>batch db. db\<lparr>t_chunk := delete (\<lambda>c. c_hash c \<in> cp_Hash ` set batch) (t_chunk db)\<rparr>) bs db) = view db" for bs
    by (induction bs arbitrary: db) simp_all
  then show ?thesis unfolding GCChunks_def Let_def by auto
qed

lemma RelocateChunk_view: "view (RelocateChunk h v off db) = view db"
  by (auto simp: RelocateChunk_def)

end

section \<open>Views that ignore file versions and the live namespace\<close>

locale version_view = chunk_view view
  for view :: "DB \<Rightarrow> 'v" +
  assumes file_blind [simp]: "view (db\<lparr>t_file := fs\<rparr>) = view db" "view (db\<lparr>file_seq := n\<rparr>) = view db"
    and name_blind [simp]: "view (db\<lparr>t_head := hs\<rparr>) = view db" "view (db\<lparr>t_dir := ds\<rparr>) = view db"
begin

lemma ensureDirs_view: "ensureDirs path mtime db = (db', r) \<Longrightarrow> view db' = view db"
proof -
  have "ensure_each dirs mtime db = (db', r) \<Longrightarrow> view db' = view db" for dirs db
    by (induction dirs arbitrary: db) (auto simp: io_simps insert_dir_def split: option.splits if_splits)
  then show "ensureDirs path mtime db = (db', r) \<Longrightarrow> view db' = view db" unfolding ensureDirs_def .
qed

lemma upsert_head_view [simp]: "view (upsert_head p i m db) = view db"
  by (simp add: upsert_head_def Let_def)

lemma publish_view: "publishFileVersion path mtime ps db = (db', Inr i) \<Longrightarrow> view db' = view db"
  by (erule publish_cases) (auto simp: insert_file_def Let_def dest!: ensureDirs_view release_head_view)

lemma CommitFile_view: "view (fst (CommitFile path mtime ps db)) = view db"
  unfolding CommitFile_def by (rule transact_view) (rule publish_view)

lemma GCFileVersions_view: "view (fst (GCFileVersions limit db)) = view db"
  by (auto simp: GCFileVersions_def io_simps)

lemma Mkdir_view: "view (fst (Mkdir path mtime db)) = view db"
  unfolding Mkdir_def Let_def
  by (auto simp: transact_def io_simps insert_dir_def split: if_splits prod.splits sum.splits dest!: ensureDirs_view)

lemma SetMtime_view: "view (fst (SetMtime path mtime db)) = view db"
  by (simp add: SetMtime_def Let_def)

lemma backfillNamespace_view: "view (fst (backfillNamespace db)) = view db"
proof -
  have "backfill_each ps db = (db', Inr ()) \<Longrightarrow> view db' = view db" for ps db db'
    by (induction ps arbitrary: db) (auto simp: ret_def modify_def dest!: seq_okD ensureDirs_view)
  then show ?thesis unfolding backfillNamespace_def Let_def by (auto intro!: transact_view)
qed

lemma move_view:
  "move_head a b p db = (db', Inr ()) \<Longrightarrow> view db' = view db" "move_dir a b p db = (db', Inr ()) \<Longrightarrow> view db' = view db"
  by (auto simp: move_head_def move_dir_def Let_def io_simps split: if_splits)

lemma renameDirSubtree_view: "renameDirSubtree now a b db = (db', Inr ()) \<Longrightarrow> view db' = view db"
  using for_each_view [where f = "move_head a b", OF move_view(1)] for_each_view [where f = "move_dir a b", OF move_view(2)]
  by (auto simp: renameDirSubtree_def rewriteSubtreePaths_head_def rewriteSubtreePaths_dir_def gets_def bind_def
      dest!: seq_okD ensureDirs_view)

lemma rename_dir_view: "rename_dir now a b db = (db', Inr ()) \<Longrightarrow> view db' = view db"
  by (auto simp: rename_dir_def io_simps split: if_splits prod.splits sum.splits dest!: renameDirSubtree_view)

lemma rename_head_view: "rename_head now a b old db = (db', Inr ()) \<Longrightarrow> view db' = view db"
  by (auto simp: rename_head_def io_simps split: if_splits option.splits prod.splits sum.splits dest!: ensureDirs_view adjust_version_view)

end

section \<open>Views that ignore snapshots\<close>

locale snapshot_view = chunk_view view
  for view :: "DB \<Rightarrow> 'v" +
  assumes snapshot_blind [simp]: "view (db\<lparr>t_snapshot := ss\<rparr>) = view db" "view (db\<lparr>snapshot_seq := n\<rparr>) = view db"
      "view (db\<lparr>t_snapshot_file := fs\<rparr>) = view db" "view (db\<lparr>t_snapshot_dir := ds\<rparr>) = view db" "view (db\<lparr>t_retention := r\<rparr>) = view db"
begin

lemma snapshot_heads_view: "for_each (snapshot_head i) hs db = (db', Inr ()) \<Longrightarrow> view db' = view db"
  by (rule for_each_view [where f = "snapshot_head i"]) (auto simp: snapshot_head_def modify_def dest!: seq_okD adjust_version_view)

lemma deleteSnapshotTx_view: "deleteSnapshotTx i db = (db', Inr ()) \<Longrightarrow> view db' = view db"
  by (auto simp: deleteSnapshotTx_def modify_def gets_def drop_snapshot_def dest!: bind_okD seq_okD)
     (drule release_rows_view [where g = sf_file], simp)

lemma CreateSnapshot_view: "view (fst (CreateSnapshot name t db)) = view db"
  unfolding CreateSnapshot_def
  by (rule transact_view)
     (auto simp: gets_def ret_def modify_def dest!: bind_okD seq_okD split: option.splits,
      drule snapshot_heads_view, simp)

lemma DeleteSnapshot_view: "view (fst (DeleteSnapshot i db)) = view db"
  unfolding DeleteSnapshot_def by (rule transact_view) (simp add: deleteSnapshotTx_view)

lemma ExpireSnapshots_view: "view (fst (ExpireSnapshots now db)) = view db"
proof -
  have "for_each deleteSnapshotTx is db = (db', Inr ()) \<Longrightarrow> view db' = view db" for "is" db'
    by (rule for_each_view [where f = deleteSnapshotTx]) (rule deleteSnapshotTx_view)
  then show ?thesis unfolding ExpireSnapshots_def
    by (intro transact_view) (auto simp: gets_def ret_def dest!: bind_okD seq_okD split: option.splits)
qed

lemma SetSnapshotRetention_view: "view (fst (SetSnapshotRetention r db)) = view db"
  by (auto simp: SetSnapshotRetention_def io_simps split: option.splits)

end

section \<open>Views that ignore write operations\<close>

locale op_view = chunk_view view
  for view :: "DB \<Rightarrow> 'v" +
  assumes op_blind [simp]: "view (db\<lparr>t_write_op := ws\<rparr>) = view db" "view (db\<lparr>write_op_seq := n\<rparr>) = view db" "view (db\<lparr>t_result_root := rs\<rparr>) = view db"
    and lease_blind [simp]: "view (db\<lparr>t_lease := ls\<rparr>) = view db" and bump_blind [simp]: "view (bump_vlogs P db) = view db"
begin

lemma delete_leases_view [simp]: "view (delete_leases P db) = view db"
proof -
  have "view (fold (\<lambda>l db. bump_vlogs (\<lambda>i. i = l_vlog l) (db\<lparr>t_lease := delete ((=) l) (t_lease db)\<rparr>)) ls db) = view db" for ls
    by (induction ls arbitrary: db) simp_all
  then show ?thesis by (simp add: delete_leases_def)
qed

lemma cancel_prepared_view [simp]: "view (cancel_prepared P db) = view db"
  by (simp add: cancel_prepared_def Let_def)

lemma retarget_prepared_view [simp]: "view (retarget_prepared a b db) = view db"
  by (simp add: retarget_prepared_def)

lemma prepared_view [simp]:
  "view (update_prepared i f db) = view db" "view (finishPreparedWriteOp i s db) = view db" "view (insert_lease l db) = view db"
  by (simp_all add: update_prepared_def finishPreparedWriteOp_def insert_lease_def)

lemma ExpireWriteResults_view: "view (fst (ExpireWriteResults now db)) = view db"
proof -
  have e: "expire_root r db = (db', Inr ()) \<Longrightarrow> view db' = view db" for r db db'
    by (auto simp: expire_root_def gets_def raise_def modify_def bind_def dest!: seq_okD adjust_version_view split: if_splits)
  have "for_each expire_root rs db = (db', Inr ()) \<Longrightarrow> view db' = view db" for rs db'
    by (rule for_each_view [where f = expire_root]) (rule e)
  then show ?thesis unfolding ExpireWriteResults_def
    by (intro transact_view) (auto simp: gets_def bind_def ret_def dest!: seq_okD)
qed

lemma retain_view: "retain opID f x db = (db', Inr ()) \<Longrightarrow> view db' = view db"
  by (auto simp: retain_def gets_def raise_def modify_def ret_def bind_def dest!: seq_okD adjust_version_view split: if_splits)

lemma commit_body_view:
  assumes "commit_body fault opID path mtime ps x db = (db', Inr f)"
  obtains db1 where "publishFileVersion path mtime ps db = (db1, Inr f)" "view db' = view db1"
  using commit_body_cases [OF assms] by (metis delete_leases_view retain_view mark_committed_def op_blind(1))

lemma other_write_view: "(\<forall>fault i path mtime ps e. p \<noteq> CommitWriteOp fault i path mtime ps e) \<Longrightarrow> view (write_step p db) = view db"
  by (cases p)
     (auto simp: ExpireWriteResults_view SetWriteOpTail_def RetargetPreparedWriteOp_def ReleaseWriteOpLeases_def AbandonWriteOp_def
       CancelWriteOp_def CreateWriteOp_def ClaimVlogLease_def Let_def io_simps intro!: transact_view split: option.splits if_splits)

lemma UnlinkFile_view:
  assumes "\<And>db hs. view (db\<lparr>t_head := hs\<rparr>) = view db"
  shows "view (fst (UnlinkFile path db)) = view db"
  unfolding UnlinkFile_def Let_def
  by (rule transact_view)
     (auto simp: modify_def gets_def ret_def bind_def assms dest!: seq_okD adjust_version_view split: option.splits)

lemma Rmdir_view:
  assumes "\<And>db ds. view (db\<lparr>t_dir := ds\<rparr>) = view db"
  shows "view (fst (Rmdir path db)) = view db"
  unfolding Rmdir_def Let_def by (auto simp: transact_def io_simps assms split: if_splits)

end

locale catalog_view = version_view view + op_view view
  for view :: "DB \<Rightarrow> 'v"
begin

lemma RenameFile_view: "view (fst (RenameFile now a b db)) = view db"
proof -
  let ?a = "cleanPath a" and ?b = "cleanPath b"
  let ?db = "retarget_prepared ?a ?b (cancel_prepared ((=) ?b) db)"
  have "view db' = view db" if "(case head_at ?a ?db of None \<Rightarrow> rename_dir now ?a ?b | Some h \<Rightarrow> rename_head now ?a ?b h) ?db = (db', Inr ())" for db'
    using that by (auto split: option.splits dest!: rename_dir_view rename_head_view)
  then show ?thesis unfolding RenameFile_def Let_def by (auto simp: io_simps intro!: transact_view split: if_splits)
qed

lemma namespace_step_view: "view (namespace_step p db) = view db"
  by (cases p) (simp_all add: Mkdir_view SetMtime_view backfillNamespace_view RenameFile_view UnlinkFile_view Rmdir_view)

lemma write_step_view: "view (write_step p db) = view db"
proof (cases "\<exists>fault i path mtime ps e. p = CommitWriteOp fault i path mtime ps e")
  case True
  then obtain fault i path mtime ps e where p: "p = CommitWriteOp fault i path mtime ps e" by blast
  have "commit_body fault i path mtime ps e db = (db', Inr f) \<Longrightarrow> view db' = view db" for db' f
    by (erule commit_body_view) (simp add: publish_view)
  then show ?thesis unfolding p write_step.simps commitWriteOpVersion_state
    by (intro transact_view)
       (auto simp: gets_def ret_def raise_def bind_def split: option.splits if_splits prod.splits sum.splits)
qed (simp add: other_write_view)

end

section \<open>Views that ignore shards, disks and jobs\<close>

locale log_view =
  fixes view :: "DB \<Rightarrow> 'v"
  assumes shard_blind [simp]: "view (db\<lparr>t_plog := ps\<rparr>) = view db" "view (db\<lparr>t_vlog_plog := ms\<rparr>) = view db"
    and disk_blind [simp]: "view (db\<lparr>t_disk := ds\<rparr>) = view db" "view (db\<lparr>t_node := ns\<rparr>) = view db"
    and job_blind [simp]: "view (db\<lparr>t_job := js\<rparr>) = view db" "view (db\<lparr>t_bucket := bs\<rparr>) = view db"
    and seq_blind [simp]: "view (db\<lparr>vlog_seq := n\<rparr>) = view db" "view (db\<lparr>plog_seq := n\<rparr>) = view db"
      "view (db\<lparr>job_seq := n\<rparr>) = view db" "view (db\<lparr>placement_clock := n\<rparr>) = view db"
    and vlog_update_blind [simp]: "(\<And>v. v_id (f v) = v_id v) \<Longrightarrow> view (db\<lparr>t_vlog := update P f (t_vlog db)\<rparr>) = view db"
begin

lemma log_transact_view: "(\<And>db' x. m db = (db', Inr x) \<Longrightarrow> view db' = view db) \<Longrightarrow> view (fst (transact m db)) = view db"
  by (auto simp: transact_def split: prod.splits sum.splits)

lemma bump_view [simp]: "view (bump_vlogs P db) = view db" "view (bump_plogs P db) = view db"
  by (simp_all add: bump_vlogs_def bump_plogs_def)

lemma delete_mappings_view [simp]: "view (delete_mappings P db) = view db"
proof -
  have "view (fold (\<lambda>m db. bump_vlogs (\<lambda>i. i = vp_vlog m) (bump_plogs (\<lambda>i. i = vp_plog m)
        (db\<lparr>t_vlog_plog := delete ((=) m) (t_vlog_plog db)\<rparr>))) ms db) = view db" for ms
    by (induction ms arbitrary: db) simp_all
  then show ?thesis by (simp add: delete_mappings_def)
qed

lemma changed_view [simp]:
  "view (delete_plog i db) = view db" "view (insert_mapping m db) = view db" "view (repoint_mapping m i db) = view db"
  "view (plog_changed i db) = view db" "view (disks_changed D db) = view db" "view (new_generation D db) = view db"
  "view (disk_changed i db) = view db" "view (node_changed i db) = view db" "view (vlog_changed i db) = view db"
  by (simp_all add: delete_plog_def insert_mapping_def repoint_mapping_def plog_changed_def disks_changed_def new_generation_def
      disk_changed_def node_changed_def vlog_changed_def Let_def)

lemma fold_delete_plog_view [simp]:
  "view (fold (\<lambda>p. delete_plog (g p)) qs db) = view db" "view (fold (\<lambda>(i, _). delete_plog i) ps db) = view db"
proof -
  show "view (fold (\<lambda>p. delete_plog (g p)) qs db) = view db" by (induction qs arbitrary: db) simp_all
  show "view (fold (\<lambda>(i, _). delete_plog i) ps db) = view db" by (induction ps arbitrary: db) auto
qed

lemma insert_plog_view: "insert_plog u d b db = (db', r) \<Longrightarrow> view db' = view db"
  by (auto simp: insert_plog_def Let_def)

lemma disk_step_view: "view (disk_step p db) = view db"
  by (cases p)
     (auto simp: disk_op_defs Let_def io_simps intro!: log_transact_view split: option.splits if_splits prod.splits sum.splits)

lemma job_step_view: "view (job_step p db) = view db"
  by (cases p)
     (auto simp: job_op_defs Let_def io_simps intro!: log_transact_view split: option.splits if_splits prod.splits sum.splits)

lemma other_shard_view:
  assumes "\<forall>v. p \<noteq> DiscardVlogOp v" "\<forall>u s a b c d g n own. p \<noteq> MakeVlogOp u s a b c d g n own"
  shows "view (shard_step p db) = view db"
  using assms
  by (cases p)
     (auto simp: MakePlog_def MakeRepairPlog_def DiscardUnassignedPlog_def SetVlogLength_def SetPlogLength_def AssignPlogToVlog_def
       MakeAssignedPlog_def ReplaceShardPlog_def RetireUnassignedRepairPlogs_def Let_def io_simps insert_plog_view intro!: log_transact_view
       split: option.splits if_splits prod.splits sum.splits)

end

locale vlog_view = log_view view + op_view view
  for view :: "DB \<Rightarrow> 'v" +
  assumes vlog_blind [simp]: "view (db\<lparr>t_vlog := vs\<rparr>) = view db"
begin

lemma delete_vlog_view [simp]: "view (delete_vlog v db) = view db"
  by (simp add: delete_vlog_def Let_def)

lemma shard_step_view: "view (shard_step p db) = view db"
proof (cases "\<exists>v. p = DiscardVlogOp v \<or> (\<exists>u s a b c d g n own. p = MakeVlogOp u s a b c d g n own)")
  case True
  then show ?thesis by (auto simp: DiscardEmptyVlog_def MakeVlogInDomain_def io_simps intro!: transact_view split: if_splits)
qed (rule other_shard_view, auto)

lemma retireVlogTx_view: "retireVlogTx v db = (db', Inr ps) \<Longrightarrow> view db' = view db"
  by (auto simp: retireVlogTx_def close_jobs_def io_simps split: if_splits)

lemma retire_each_view: "retire_each vs db = (db', Inr ps) \<Longrightarrow> view db' = view db"
proof (induction vs arbitrary: db ps)
  case (Cons v vs)
  then obtain db1 p1 p2 where "retireVlogTx v db = (db1, Inr p1)" "retire_each vs db1 = (db', Inr p2)"
    by (auto dest!: bind_okD simp: ret_def)
  then show ?case using Cons.IH retireVlogTx_view by metis
qed (simp add: ret_def)

lemma retire_view: "view (fst (RetireVlog v db)) = view db" "view (fst (retireUnassignedMaintenance only db)) = view db"
  unfolding RetireVlog_def retireUnassignedMaintenance_def
  by (rule transact_view, erule retireVlogTx_view) (rule transact_view, erule retireUnassigned_ok, rule retire_each_view)

end

end
