(* ===== verification/Rose_Leases.thy ===== *)
theory Rose_Leases
  imports Rose_Views
begin

text \<open>
  Write operations, vlog leases and retained results. An invariant over every catalog operation ties the three
  tables together: keys and ids are unique, a lease belongs to a prepared operation and an existing vlog, a
  retained result to a committed one. From it: leases are exclusive, expiry never fails, a retried commit or
  creation answers like the first.
\<close>

section \<open>The invariant\<close>

definition ops_ok :: "DB \<Rightarrow> bool" where
  "ops_ok db \<longleftrightarrow>
     distinct (map w_id (t_write_op db)) \<and> distinct (map w_key (t_write_op db)) \<and> (\<forall>w \<in> set (t_write_op db). w_id w \<le> write_op_seq db)"

definition leases_ok :: "DB \<Rightarrow> bool" where
  "leases_ok db \<longleftrightarrow>
     distinct (map l_vlog (t_lease db)) \<and> distinct (map (\<lambda>l. (l_op l, l_ordinal l)) (t_lease db)) \<and>
     (\<forall>l \<in> set (t_lease db). l_vlog l \<in> v_id ` set (t_vlog db) \<and>
        (\<exists>w \<in> set (t_write_op db). w_id w = l_op l \<and> w_state w = WriteOpPrepared))"

definition results_ok :: "DB \<Rightarrow> bool" where
  "results_ok db \<longleftrightarrow>
     distinct (map r_op (t_result_root db)) \<and>
     (\<forall>r \<in> set (t_result_root db). 0 < r_expires r \<and>
        (\<exists>w \<in> set (t_write_op db). w_id w = r_op r \<and> w_file w = r_file r \<and> w_state w = WriteOpCommitted))"

definition write_inv :: "DB \<Rightarrow> bool" where
  "write_inv db \<longleftrightarrow> ops_ok db \<and> leases_ok db \<and> results_ok db"

definition write_tables :: "DB \<Rightarrow> write_op_row list \<times> result_root_row list \<times> int \<times> lease_row list \<times> int set" where
  "write_tables db = (t_write_op db, t_result_root db, write_op_seq db, t_lease db, v_id ` set (t_vlog db))"

lemma write_tables_inv: "write_tables db' = write_tables db \<Longrightarrow> write_inv db' = write_inv db"
  by (simp add: write_tables_def write_inv_def ops_ok_def leases_ok_def results_ok_def)

lemma v_id_update: "(\<And>v. v_id (f v) = v_id v) \<Longrightarrow> v_id ` set (update P f vs) = v_id ` set vs"
  by (simp only: set_update image_image) (rule image_cong, simp_all)

interpretation wt: version_view write_tables
  by unfold_locales (simp_all add: write_tables_def)

interpretation ws: snapshot_view write_tables
  by unfold_locales (simp_all add: write_tables_def)

interpretation wl: log_view write_tables
  by unfold_locales (simp_all add: write_tables_def v_id_update)

lemma transact_write_inv: "write_inv db \<Longrightarrow> (\<And>db' x. m db = (db', Inr x) \<Longrightarrow> write_inv db') \<Longrightarrow> write_inv (fst (transact m db))"
  by (auto simp: transact_def split: prod.splits sum.splits)

section \<open>Operations on leases and vlogs\<close>

lemma write_inv_leases:
  assumes i: "write_inv db" and o: "t_write_op db' = t_write_op db" "t_result_root db' = t_result_root db" "write_op_seq db' = write_op_seq db"
    and l: "t_lease db' = filter Q (t_lease db)" and v: "\<And>l. l \<in> set (t_lease db') \<Longrightarrow> l_vlog l \<in> v_id ` set (t_vlog db')"
  shows "write_inv db'"
  using i l v by (auto simp: write_inv_def ops_ok_def leases_ok_def results_ok_def o distinct_map_filter)

lemma delete_leases_vids: "v_id ` set (t_vlog (delete_leases P db)) = v_id ` set (t_vlog db)"
proof -
  obtain ls vs where "delete_leases P db = db\<lparr>t_lease := ls, t_vlog := vs\<rparr>" "map (\<lambda>v. v\<lparr>v_epoch := 0\<rparr>) vs = map (\<lambda>v. v\<lparr>v_epoch := 0\<rparr>) (t_vlog db)"
    using delete_leases_frame [of db P] by (auto simp: same_but_leases_def)
  then have "map v_id (t_vlog (delete_leases P db)) = map v_id (t_vlog db)"
    by (auto dest: arg_cong [where f = "map v_id"] simp: o_def)
  then show ?thesis by (metis list.set_map)
qed

lemma delete_leases_inv: "write_inv db \<Longrightarrow> write_inv (delete_leases P db)"
  by (rule write_inv_leases [where Q = "\<lambda>l. \<not> P l"]) (auto simp: delete_leases_vids write_inv_def leases_ok_def)

lemma delete_mappings_tables [simp]:
  "t_lease (delete_mappings P db) = t_lease db" "v_id ` set (t_vlog (delete_mappings P db)) = v_id ` set (t_vlog db)"
  "t_write_op (delete_mappings P db) = t_write_op db" "t_result_root (delete_mappings P db) = t_result_root db"
  "write_op_seq (delete_mappings P db) = write_op_seq db"
  using wl.delete_mappings_view [of P db] by (simp_all add: write_tables_def)

lemma delete_vlog_inv: "write_inv db \<Longrightarrow> write_inv (delete_vlog v db)"
proof -
  assume i: "write_inv db"
  let ?db = "delete_mappings (\<lambda>m. vp_vlog m = v) (delete_leases (\<lambda>l. l_vlog l = v) (db\<lparr>t_vlog := delete (\<lambda>x. v_id x = v) (t_vlog db)\<rparr>))"
  have "write_inv ?db"
    by (rule write_inv_leases [where Q = "\<lambda>l. l_vlog l \<noteq> v", OF i])
       (use i in \<open>auto simp: delete_leases_vids write_inv_def leases_ok_def image_iff\<close>)
  then show ?thesis using i by (simp add: delete_vlog_def Let_def)
qed

lemma DiscardEmptyVlog_inv: "write_inv db \<Longrightarrow> write_inv (fst (DiscardEmptyVlog v db))"
  unfolding DiscardEmptyVlog_def
  by (rule transact_write_inv)
     (auto simp: io_simps write_tables_inv [OF wl.delete_mappings_view] intro!: delete_vlog_inv split: if_splits)

lemma MakeVlog_inv: "write_inv db \<Longrightarrow> write_inv (fst (MakeVlogInDomain u s a b c d g n own db))"
  by (auto simp: MakeVlogInDomain_def io_simps write_inv_def ops_ok_def leases_ok_def results_ok_def)

lemma shard_step_inv: "write_inv db \<Longrightarrow> write_inv (shard_step p db)"
proof (cases "\<exists>v. p = DiscardVlogOp v \<or> (\<exists>u s a b c d g n own. p = MakeVlogOp u s a b c d g n own)")
  case False
  then have "write_tables (shard_step p db) = write_tables db" by (intro wl.other_shard_view) auto
  then show "write_inv db \<Longrightarrow> ?thesis" by (simp add: write_tables_inv [of "shard_step p db" db])
qed (auto simp: DiscardEmptyVlog_inv MakeVlog_inv)

lemma retireVlogTx_inv:
  assumes i: "write_inv db" and e: "retireVlogTx v db = (db', Inr ps)"
  shows "write_inv db'"
proof -
  let ?db = "fold (\<lambda>(i, _). delete_plog i) ps (delete_mappings (\<lambda>m. vp_vlog m = v) (db\<lparr>t_chunk := delete (\<lambda>c. c_vlog c = v) (t_chunk db)\<rparr>))"
  from e have db': "db' = fst (close_jobs (\<lambda>j. j_kind j = JobScrubRepair \<and> j_target_vlog j = v) JobCancelled (delete_vlog v ?db))"
    by (auto simp: retireVlogTx_def io_simps split: if_splits)
  have "write_tables ?db = write_tables db" by (simp add: )
  then have "write_inv ?db" using i write_tables_inv by blast
  then have "write_inv (delete_vlog v ?db)" by (rule delete_vlog_inv)
  then show ?thesis by (simp add: db' close_jobs_def write_tables_inv [OF wl.job_blind(1)])
qed

lemma retire_each_inv: "write_inv db \<Longrightarrow> retire_each vs db = (db', Inr ps) \<Longrightarrow> write_inv db'"
proof (induction vs arbitrary: db ps)
  case (Cons v vs)
  then obtain db1 p1 p2 where "retireVlogTx v db = (db1, Inr p1)" "retire_each vs db1 = (db', Inr p2)"
    by (auto dest!: bind_okD simp: ret_def)
  then show ?case using Cons retireVlogTx_inv by blast
qed (simp add: ret_def)

lemma RetireVlog_inv:
  assumes i: "write_inv db"
  shows "write_inv (fst (RetireVlog v db))"
  unfolding RetireVlog_def by (rule transact_write_inv [OF i]) (rule retireVlogTx_inv [OF i])

lemma retireUnassignedMaintenance_inv:
  assumes i: "write_inv db"
  shows "write_inv (fst (retireUnassignedMaintenance only db))"
  unfolding retireUnassignedMaintenance_def
  by (rule transact_write_inv [OF i]) (erule retireUnassigned_ok, rule retire_each_inv [OF i])

lemma version_step_inv: "write_inv db \<Longrightarrow> write_inv (version_step p db)"
  by (cases p)
     (simp_all add: RetireVlog_inv retireUnassignedMaintenance_inv write_tables_inv [OF wt.CommitFile_view] write_tables_inv [OF wt.GCChunks_view]
       write_tables_inv [OF ws.CreateSnapshot_view] write_tables_inv [OF ws.DeleteSnapshot_view] write_tables_inv [OF ws.ExpireSnapshots_view]
       write_tables_inv [OF wt.GCFileVersions_view] write_tables_inv [OF wt.RelocateChunk_view] write_tables_inv [OF ws.SetSnapshotRetention_view])

section \<open>Operations on write operations\<close>

lemma set_update_mem: "w \<in> set (update P f ws) \<longleftrightarrow> (\<exists>x \<in> set ws. w = (if P x then f x else x))"
  by (auto simp: set_update)

text \<open>Changing some prepared operations, and dropping the leases of those that end.\<close>

lemma write_inv_ops:
  assumes i: "write_inv db" and f: "\<And>w. w_id (f w) = w_id w" "\<And>w. w_key (f w) = w_key w" "\<And>w. P w \<Longrightarrow> w_state w = WriteOpPrepared"
    and o: "t_write_op db' = update P f (t_write_op db)" "t_result_root db' = t_result_root db" "write_op_seq db' = write_op_seq db"
      "v_id ` set (t_vlog db') = v_id ` set (t_vlog db)"
    and l: "t_lease db' = filter Q (t_lease db)"
    and k: "\<And>l w. l \<in> set (t_lease db) \<Longrightarrow> Q l \<Longrightarrow> w \<in> set (t_write_op db) \<Longrightarrow> w_id w = l_op l \<Longrightarrow> P w \<Longrightarrow> w_state (f w) = WriteOpPrepared"
  shows "write_inv db'"
proof -
  have ops: "ops_ok db'"
    using i f by (auto simp: write_inv_def ops_ok_def o map_update set_update)
  have "(\<exists>w \<in> set (t_write_op db'). w_id w = l_op l \<and> w_state w = WriteOpPrepared)" if "l \<in> set (t_lease db')" for l
  proof -
    have l: "l \<in> set (t_lease db)" "Q l" using that l by auto
    then obtain w where w: "w \<in> set (t_write_op db)" "w_id w = l_op l" "w_state w = WriteOpPrepared"
      using i by (auto simp: write_inv_def leases_ok_def)
    show ?thesis using w k [OF l w(1,2)] f(1) by (intro bexI [of _ "if P w then f w else w"]) (auto simp: o set_update)
  qed
  then have "leases_ok db'" using i l by (auto simp: write_inv_def leases_ok_def o distinct_map_filter)
  moreover have "results_ok db'"
  proof -
    have "\<exists>w \<in> set (t_write_op db'). w_id w = r_op r \<and> w_file w = r_file r \<and> w_state w = WriteOpCommitted" if r: "r \<in> set (t_result_root db)" for r
    proof -
      obtain w where w: "w \<in> set (t_write_op db)" "w_id w = r_op r" "w_file w = r_file r" "w_state w = WriteOpCommitted"
        using i r by (auto simp: write_inv_def results_ok_def)
      have "\<not> P w" using f(3) [of w] w(4) by (auto simp: WriteOpPrepared_def WriteOpCommitted_def)
      then show ?thesis using w by (intro bexI [of _ w]) (auto simp: o set_update_mem)
    qed
    then show ?thesis using i by (auto simp: write_inv_def results_ok_def o)
  qed
  ultimately show ?thesis using ops by (simp add: write_inv_def)
qed

lemma cancel_prepared_inv: "write_inv db \<Longrightarrow> write_inv (cancel_prepared P db)"
proof -
  assume i: "write_inv db"
  let ?Q = "\<lambda>l. \<not> list_ex (\<lambda>w. w_id w = l_op l \<and> prepared_under P w) (t_write_op db)"
  show ?thesis
    by (rule write_inv_ops [OF i, where P = "prepared_under P" and Q = ?Q and f = "\<lambda>w. w\<lparr>w_state := WriteOpCancelled\<rparr>"])
       (auto simp: cancel_prepared_def Let_def delete_leases_vids prepared_under_def list_ex_iff)
qed

lemma retarget_prepared_inv: "write_inv db \<Longrightarrow> write_inv (retarget_prepared a b db)"
  by (rule write_inv_ops [where P = "prepared_under ((=) a)" and Q = "\<lambda>_. True" and f = "\<lambda>w. w\<lparr>w_path := b\<rparr>"])
     (auto simp: retarget_prepared_def prepared_under_def)

lemma update_prepared_inv:
  "write_inv db \<Longrightarrow> (\<And>w. w_id (f w) = w_id w \<and> w_key (f w) = w_key w \<and> w_state (f w) = w_state w) \<Longrightarrow> write_inv (update_prepared i f db)"
  by (rule write_inv_ops [where P = "\<lambda>w. w_id w = i \<and> w_state w = WriteOpPrepared" and Q = "\<lambda>_. True" and f = f])
     (auto simp: update_prepared_def)

lemma finishPrepared_inv: "write_inv db \<Longrightarrow> write_inv (finishPreparedWriteOp i state db)"
  by (rule write_inv_ops [where P = "\<lambda>w. w_id w = i \<and> w_state w = WriteOpPrepared" and Q = "\<lambda>l. l_op l \<noteq> i" and f = "\<lambda>w. w\<lparr>w_state := state\<rparr>"])
     (auto simp: finishPreparedWriteOp_def update_prepared_def delete_leases_vids)

lemma CreateWriteOp_inv: "write_inv db \<Longrightarrow> write_inv (fst (CreateWriteOp now key path db))"
  by (auto simp: CreateWriteOp_def Let_def write_inv_def ops_ok_def leases_ok_def results_ok_def list_ex_iff)

lemma ClaimVlogLease_inv: "write_inv db \<Longrightarrow> write_inv (fst (ClaimVlogLease v i n db))"
  unfolding ClaimVlogLease_def
proof (rule transact_write_inv)
  fix db' x
  assume i: "write_inv db"
    and e: "bind (gets (op_at i)) (\<lambda>w. case w of
       None \<Rightarrow> raise ErrNoRows
     | Some w \<Rightarrow>
         if w_state w \<noteq> WriteOpPrepared then raise (Err ''write operation is not prepared'')
         else bind (gets (\<lambda>db. list_ex (\<lambda>l. l_vlog l = v \<or> l_op l = i \<and> l_ordinal l = n) (t_lease db) \<or>
                               \<not> list_ex (\<lambda>x. v_id x = v) (t_vlog db))) (\<lambda>clash.
              if clash then raise constraint_failed
              else modify (insert_lease \<lparr>l_vlog = v, l_op = i, l_ordinal = n\<rparr>))) db = (db', Inr x)"
  then obtain w where w: "op_at i db = Some w" "w_state w = WriteOpPrepared"
    and g: "\<forall>l \<in> set (t_lease db). l_vlog l \<noteq> v \<and> (l_op l \<noteq> i \<or> l_ordinal l \<noteq> n)" "v \<in> v_id ` set (t_vlog db)"
    and db': "db' = insert_lease \<lparr>l_vlog = v, l_op = i, l_ordinal = n\<rparr> db"
    by (auto simp: io_simps list_ex_iff split: option.splits if_splits)
  have "w \<in> set (t_write_op db)" "w_id w = i" using w(1) unfolding op_at_def by (auto dest: lookup_SomeD)
  then show "write_inv db'"
    using i w(2) g by (auto simp: db' insert_lease_def bump_vlogs_def v_id_update write_inv_def ops_ok_def leases_ok_def results_ok_def)
qed

lemma update_other: "v \<in> set xs \<Longrightarrow> \<not> P v \<Longrightarrow> v \<in> set (update P f xs)"
  by (force simp: update_def)

lemma result_op:
  assumes "write_inv db" "r \<in> set (t_result_root db)"
  obtains v where "v \<in> set (t_write_op db)" "w_id v = r_op r" "w_file v = r_file r" "w_state v = WriteOpCommitted"
proof -
  have "\<exists>v \<in> set (t_write_op db). w_id v = r_op r \<and> w_file v = r_file r \<and> w_state v = WriteOpCommitted"
    using assms unfolding write_inv_def results_ok_def by blast
  then show thesis using that by blast
qed

lemma lease_op:
  assumes "write_inv db" "l \<in> set (t_lease db)"
  obtains v where "v \<in> set (t_write_op db)" "w_id v = l_op l" "w_state v = WriteOpPrepared"
proof -
  have "\<exists>v \<in> set (t_write_op db). w_id v = l_op l \<and> w_state v = WriteOpPrepared"
    using assms unfolding write_inv_def leases_ok_def by blast
  then show thesis using that by blast
qed

lemma same_op: "write_inv db \<Longrightarrow> v \<in> set (t_write_op db) \<Longrightarrow> w \<in> set (t_write_op db) \<Longrightarrow> w_id v = w_id w \<Longrightarrow> v = w"
  by (auto simp: write_inv_def ops_ok_def distinct_map inj_on_def)

lemma retain_cases:
  assumes "retain opID i e db = (db', Inr ())"
  obtains "e = 0" "db' = db"
  | db1 where "e > 0" "write_tables db1 = write_tables db" "opID \<notin> r_op ` set (t_result_root db)" "db' = db1\<lparr>t_result_root := t_result_root db1 @ [root_row opID i e]\<rparr>"
proof (cases "e = 0")
  case True
  then show thesis using assms that(1) by (simp add: retain_def ret_def)
next
  case False
  from assms False obtain db1 where a: "adjust_version i 1 db = (db1, Inr ())"
    and g: "\<not> (list_ex (\<lambda>r. r_op r = opID) (t_result_root db1) \<or> e \<le> 0)" "db' = db1\<lparr>t_result_root := t_result_root db1 @ [root_row opID i e]\<rparr>"
    by (auto simp: retain_def gets_def raise_def modify_def bind_def dest!: seq_okD split: if_splits)
  have "t_result_root db1 = t_result_root db" using wt.adjust_version_view [OF a] by (simp add: write_tables_def)
  then show thesis using g that(2) [OF _ wt.adjust_version_view [OF a]] by (auto simp: list_ex_iff)
qed

text \<open>
  After a commit only the committed operation differs, it holds no lease, and at most its own result root is new.
\<close>

lemma commit_body_inv:
  assumes i: "write_inv db" and w: "op_at opID db = Some w" "w_state w = WriteOpPrepared"
    and e: "commit_body fault opID path mtime ps x db = (db', Inr f)"
  shows "write_inv db'"
    and "t_write_op db' = update (\<lambda>w. w_id w = opID)
      (\<lambda>w. w\<lparr>w_state := WriteOpCommitted, w_file := f, w_ack := sum_list (map cp_LogicalLen ps), w_tail := []\<rparr>) (t_write_op db)"
    and "t_lease db' = filter (\<lambda>l. l_op l \<noteq> opID) (t_lease db)"
    and "t_result_root db' = t_result_root db @ (if x = 0 then [] else [root_row opID f x])"
proof -
  let ?g = "\<lambda>w. w\<lparr>w_state := WriteOpCommitted, w_file := f, w_ack := sum_list (map cp_LogicalLen ps), w_tail := []\<rparr>"
  from commit_body_cases [OF e] obtain db1 db2 where 1: "publishFileVersion path mtime ps db = (db1, Inr f)"
    and 2: "retain opID f x db1 = (db2, Inr ())" and db': "db' = delete_leases (\<lambda>l. l_op l = opID) (mark_committed opID f ps db2)" by blast
  have t1: "write_tables db1 = write_tables db" by (rule wt.publish_view [OF 1])
  have w': "w \<in> set (t_write_op db)" "w_id w = opID" using w(1) unfolding op_at_def by (auto dest: lookup_SomeD)
  have t2: "t_write_op db2 = t_write_op db" "write_op_seq db2 = write_op_seq db" "t_lease db2 = t_lease db" "v_id ` set (t_vlog db2) = v_id ` set (t_vlog db)"
    "t_result_root db2 = t_result_root db @ (if x = 0 then [] else [root_row opID f x])"
    and new: "x \<noteq> 0 \<Longrightarrow> 0 < x \<and> opID \<notin> r_op ` set (t_result_root db)"
    using t1 by (cases rule: retain_cases [OF 2]; simp add: write_tables_def)+
  show ops: "t_write_op db' = update (\<lambda>w. w_id w = opID) ?g (t_write_op db)"
    and lease: "t_lease db' = filter (\<lambda>l. l_op l \<noteq> opID) (t_lease db)"
    and roots: "t_result_root db' = t_result_root db @ (if x = 0 then [] else [root_row opID f x])"
    by (simp_all add: db' mark_committed_def t2)
  have seq: "write_op_seq db' = write_op_seq db" "v_id ` set (t_vlog db') = v_id ` set (t_vlog db)"
    by (simp_all add: db' delete_leases_vids mark_committed_def t2)
  have uniq: "v = w" if "v \<in> set (t_write_op db)" "w_id v = opID" for v
    using same_op [OF i that(1) w'(1)] that(2) w'(2) by simp
  have "ops_ok db'" using i by (auto simp: write_inv_def ops_ok_def ops seq map_update set_update)
  moreover have "leases_ok db'"
  proof -
    have "\<exists>v \<in> set (t_write_op db'). w_id v = l_op l \<and> w_state v = WriteOpPrepared" if l: "l \<in> set (t_lease db)" "l_op l \<noteq> opID" for l
    proof -
      obtain v where "v \<in> set (t_write_op db)" "w_id v = l_op l" "w_state v = WriteOpPrepared" using lease_op [OF i l(1)] by metis
      then show ?thesis using l(2) by (intro bexI [of _ v]) (auto simp: ops intro: update_other)
    qed
    then show ?thesis using i by (auto simp: write_inv_def leases_ok_def lease seq distinct_map_filter)
  qed
  moreover have "results_ok db'"
  proof -
    have old: "r_op r \<noteq> opID" if r: "r \<in> set (t_result_root db)" for r
    proof
      assume "r_op r = opID"
      then obtain v where "v \<in> set (t_write_op db)" "w_id v = opID" "w_state v = WriteOpCommitted" using result_op [OF i r] by metis
      then show False using uniq w(2) by (auto simp: WriteOpPrepared_def WriteOpCommitted_def)
    qed
    have keep: "\<exists>v \<in> set (t_write_op db'). w_id v = r_op r \<and> w_file v = r_file r \<and> w_state v = WriteOpCommitted" if r: "r \<in> set (t_result_root db)" for r
    proof -
      obtain v where "v \<in> set (t_write_op db)" "w_id v = r_op r" "w_file v = r_file r" "w_state v = WriteOpCommitted"
        using result_op [OF i r] by metis
      then show ?thesis using old [OF r] by (intro bexI [of _ v]) (auto simp: ops intro: update_other)
    qed
    have "?g w \<in> set (t_write_op db')" using w' by (auto simp: ops set_update)
    then have own: "\<exists>v \<in> set (t_write_op db'). w_id v = opID \<and> w_file v = f \<and> w_state v = WriteOpCommitted"
      using w'(2) by (intro bexI [of _ "?g w"]) simp_all
    show ?thesis using i keep own new by (auto simp: write_inv_def results_ok_def roots root_row_def)
  qed
  ultimately show "write_inv db'" by (simp add: write_inv_def)
qed

lemma commitWriteOpVersion_inv:
  assumes i: "write_inv db"
  shows "write_inv (fst (commitWriteOpVersion fault opID path mtime ps e db))"
  unfolding commitWriteOpVersion_state
  by (rule transact_write_inv [OF i])
     (auto simp: gets_def ret_def raise_def bind_def i split: option.splits if_splits prod.splits sum.splits intro: commit_body_inv(1) [OF i])

lemma expire_root_inv:
  assumes i: "write_inv db" and r: "r \<in> set (t_result_root db)"
    and e: "expire_root r db = (db', Inr ())"
  shows "write_inv db'" "t_result_root db' = delete (\<lambda>x. r_op x = r_op r) (t_result_root db)" "t_lease db' = t_lease db"
    "t_write_op db' = update (\<lambda>w. w_id w = r_op r) (\<lambda>w. w\<lparr>w_state := WriteOpExpired\<rparr>) (t_write_op db)"
proof -
  let ?P = "\<lambda>w. w_id w = r_op r \<and> w_file w = r_file r \<and> w_state w = WriteOpCommitted"
  obtain w where w: "w \<in> set (t_write_op db)" "?P w" using result_op [OF i r] by metis
  have uniq: "v = w" if "v \<in> set (t_write_op db)" "w_id v = r_op r" for v
    using same_op [OF i that(1) w(1)] that(2) w(2) by simp
  then have same: "update ?P f (t_write_op db) = update (\<lambda>w. w_id w = r_op r) f (t_write_op db)" for f
    unfolding update_def using w(2) by (intro map_cong) auto
  from e obtain db1 where a: "adjust_version (r_file r) (- 1) (db\<lparr>t_write_op := update ?P (\<lambda>w. w\<lparr>w_state := WriteOpExpired\<rparr>) (t_write_op db)\<rparr>) = (db1, Inr ())"
    and db': "db' = db1\<lparr>t_result_root := delete (\<lambda>x. r_op x = r_op r) (t_result_root db1)\<rparr>"
    by (auto simp: expire_root_def gets_def raise_def modify_def bind_def dest!: seq_okD split: if_splits)
  note A = wt.adjust_version_view [OF a]
  show roots: "t_result_root db' = delete (\<lambda>x. r_op x = r_op r) (t_result_root db)"
    and lease: "t_lease db' = t_lease db"
    and ops: "t_write_op db' = update (\<lambda>w. w_id w = r_op r) (\<lambda>w. w\<lparr>w_state := WriteOpExpired\<rparr>) (t_write_op db)"
    using A by (simp_all add: db' write_tables_def same)
  have t: "write_op_seq db' = write_op_seq db" "v_id ` set (t_vlog db') = v_id ` set (t_vlog db)"
    using A by (simp_all add: db' write_tables_def)
  have "\<exists>v \<in> set (t_write_op db'). w_id v = l_op l \<and> w_state v = WriteOpPrepared" if l: "l \<in> set (t_lease db)" for l
  proof -
    obtain v where v: "v \<in> set (t_write_op db)" "w_id v = l_op l" "w_state v = WriteOpPrepared" using lease_op [OF i l] by metis
    have "w_id v \<noteq> r_op r" using uniq [OF v(1)] v(3) w(2) by (auto simp: WriteOpPrepared_def WriteOpCommitted_def)
    then show ?thesis using v by (intro bexI [of _ v]) (auto simp: ops intro: update_other)
  qed
  moreover have "\<exists>v \<in> set (t_write_op db'). w_id v = r_op x \<and> w_file v = r_file x \<and> w_state v = WriteOpCommitted"
    if x: "x \<in> set (t_result_root db)" "r_op x \<noteq> r_op r" for x
  proof -
    obtain v where v: "v \<in> set (t_write_op db)" "w_id v = r_op x" "w_file v = r_file x" "w_state v = WriteOpCommitted"
      using result_op [OF i x(1)] by metis
    then show ?thesis using x(2) by (intro bexI [of _ v]) (auto simp: ops intro: update_other)
  qed
  ultimately show "write_inv db'"
    using i by (auto simp: write_inv_def ops_ok_def leases_ok_def results_ok_def lease roots t distinct_map_delete)
       (auto simp: ops map_update set_update)
qed

lemma expire_roots_inv:
  "write_inv db \<Longrightarrow> distinct (map r_op rs) \<Longrightarrow> set rs \<subseteq> set (t_result_root db) \<Longrightarrow> for_each expire_root rs db = (db', Inr ()) \<Longrightarrow>
   write_inv db' \<and> t_result_root db' = filter (\<lambda>x. r_op x \<notin> r_op ` set rs) (t_result_root db) \<and>
   t_write_op db' = update (\<lambda>w. w_id w \<in> r_op ` set rs) (\<lambda>w. w\<lparr>w_state := WriteOpExpired\<rparr>) (t_write_op db)"
proof (induction rs arbitrary: db)
  case Nil
  then show ?case by (simp add: ret_def update_def)
next
  case (Cons r rs)
  then obtain db1 where 1: "expire_root r db = (db1, Inr ())" and 2: "for_each expire_root rs db1 = (db', Inr ())" by (auto dest: seq_okD)
  have r: "r \<in> set (t_result_root db)" using Cons.prems by simp
  note E = expire_root_inv [OF Cons.prems(1) r 1]
  have "set rs \<subseteq> set (t_result_root db1)" using Cons.prems(2,3) by (auto simp: E(2) image_iff)
  from Cons.IH [OF E(1) _ this 2] Cons.prems(2) show ?case by (auto simp: E(2,4) delete_def update_def intro!: filter_cong)
qed

lemma expiring_distinct: "write_inv db \<Longrightarrow> distinct (map r_op (sort_key r_op (filter Q (t_result_root db))))"
  by (simp add: distinct_map_sort_key write_inv_def results_ok_def distinct_map_filter)

lemma ExpireWriteResults_inv:
  assumes i: "write_inv db"
  shows "write_inv (fst (ExpireWriteResults now db))"
  unfolding ExpireWriteResults_def
proof (rule transact_write_inv [OF i])
  fix db' x
  let ?rs = "sort_key r_op (filter (\<lambda>r. r_expires r \<le> now) (t_result_root db))"
  assume "bind (gets (\<lambda>db. sort_key r_op (filter (\<lambda>r. r_expires r \<le> now) (t_result_root db)))) (\<lambda>roots. seq (for_each expire_root roots) (ret (length roots))) db = (db', Inr x)"
  then have e: "for_each expire_root ?rs db = (db', Inr ())" by (auto simp: gets_def bind_def ret_def dest: seq_okD)
  have "set ?rs \<subseteq> set (t_result_root db)" by auto
  from expire_roots_inv [OF i expiring_distinct [OF i] this e] show "write_inv db'" by (rule conjunct1)
qed

lemma write_step_inv: "write_inv db \<Longrightarrow> write_inv (write_step p db)"
  by (cases p)
     (simp_all add: CreateWriteOp_inv ClaimVlogLease_inv finishPrepared_inv commitWriteOpVersion_inv ExpireWriteResults_inv
       AbandonWriteOp_def CancelWriteOp_def SetWriteOpTail_def ReleaseWriteOpLeases_def RetargetPreparedWriteOp_def update_prepared_inv
       delete_leases_inv io_simps Let_def)

section \<open>Namespace changes\<close>

lemma RenameFile_inv:
  assumes i: "write_inv db"
  shows "write_inv (fst (RenameFile now a b db))"
proof -
  let ?a = "cleanPath a" and ?b = "cleanPath b"
  let ?db = "retarget_prepared ?a ?b (cancel_prepared ((=) ?b) db)"
  have c0: "write_inv ?db" using i by (intro retarget_prepared_inv cancel_prepared_inv)
  have "write_inv db'" if e: "(case head_at ?a ?db of None \<Rightarrow> rename_dir now ?a ?b | Some h \<Rightarrow> rename_head now ?a ?b h) ?db = (db', Inr ())" for db'
  proof -
    have "write_tables db' = write_tables ?db" using e by (auto split: option.splits dest: wt.rename_dir_view wt.rename_head_view)
    then show ?thesis using c0 write_tables_inv by blast
  qed
  then show ?thesis using i unfolding RenameFile_def Let_def
    by (auto simp: io_simps intro!: transact_write_inv split: if_splits)
qed

lemma UnlinkFile_inv:
  assumes i: "write_inv db"
  shows "write_inv (fst (UnlinkFile path db))"
  unfolding UnlinkFile_def Let_def
proof (rule transact_write_inv [OF i])
  fix db' x
  let ?p = "cleanPath path"
  assume e: "seq (modify (cancel_prepared ((=) ?p))) (bind (gets (head_at ?p)) (\<lambda>h. case h of
        None \<Rightarrow> ret ()
      | Some h \<Rightarrow> seq (adjust_version (h_file h) (- 1)) (modify (\<lambda>db. db\<lparr>t_head := delete (\<lambda>h. h_path h = ?p) (t_head db)\<rparr>)))) db = (db', Inr x)"
  have "write_tables db' = write_tables (cancel_prepared ((=) ?p) db)"
    using e by (auto simp: modify_def gets_def ret_def dest!: seq_okD bind_okD wt.adjust_version_view split: option.splits)
  then show "write_inv db'" using cancel_prepared_inv [OF i, of "(=) ?p"] write_tables_inv by blast
qed

lemma Rmdir_inv:
  assumes i: "write_inv db"
  shows "write_inv (fst (Rmdir path db))"
proof -
  have "write_inv ((cancel_prepared P db)\<lparr>t_dir := ds\<rparr>)" for P ds
    using cancel_prepared_inv [OF i, of P] write_tables_inv [OF wt.name_blind(2)] by simp
  then show ?thesis using i unfolding Rmdir_def Let_def by (auto simp: transact_def io_simps split: if_splits)
qed

lemma namespace_step_inv: "write_inv db \<Longrightarrow> write_inv (namespace_step p db)"
  by (cases p)
     (simp_all add: UnlinkFile_inv RenameFile_inv Rmdir_inv write_tables_inv [OF wt.Mkdir_view] write_tables_inv [OF wt.SetMtime_view]
       write_tables_inv [OF wt.backfillNamespace_view])

lemma perform_write_inv: "write_inv db \<Longrightarrow> write_inv (perform p db)"
  by (cases p)
     (simp_all add: namespace_step_inv version_step_inv write_step_inv shard_step_inv write_tables_inv [OF wl.disk_step_view]
       write_tables_inv [OF wl.job_step_view])

lemma reachable_write_inv: "reachable db \<Longrightarrow> write_inv db"
proof (induction rule: reachable.induct)
  case empty
  show ?case by (simp add: write_inv_def ops_ok_def leases_ok_def results_ok_def empty_db_def)
qed (simp add: perform_write_inv)

section \<open>Expiring results always succeeds\<close>

lemma expire_root_ok:
  assumes c: "counted D db" and i: "write_inv db" and r: "r \<in> set (t_result_root db)"
  obtains db' where "expire_root r db = (db', Inr ())"
proof -
  let ?P = "\<lambda>w. w_id w = r_op r \<and> w_file w = r_file r \<and> w_state w = WriteOpCommitted"
  let ?db = "db\<lparr>t_write_op := update ?P (\<lambda>w. w\<lparr>w_state := WriteOpExpired\<rparr>) (t_write_op db)\<rparr>"
  have "list_ex ?P (t_write_op db)" using result_op [OF i r] by (auto simp: list_ex_iff)
  moreover have "counted D ?db" using c version_tables_counted [of ?db db] by (simp add: version_tables_def)
  moreover have "r_file r \<in> set (root_files ?db)" using r by (simp add: root_files_def)
  ultimately obtain db1 where "adjust_version (r_file r) (- 1) ?db = (db1, Inr ())" and "list_ex ?P (t_write_op db)"
    using adjust_version_counted [of D ?db "r_file r" "- 1"] by blast
  then show thesis using that by (simp add: expire_root_def io_simps)
qed

lemma expire_roots_ok:
  "counted D db \<Longrightarrow> write_inv db \<Longrightarrow> distinct (map r_op rs) \<Longrightarrow> set rs \<subseteq> set (t_result_root db) \<Longrightarrow>
   \<exists>db'. for_each expire_root rs db = (db', Inr ())"
proof (induction rs arbitrary: db)
  case (Cons r rs)
  have r: "r \<in> set (t_result_root db)" using Cons.prems by simp
  obtain db1 where 1: "expire_root r db = (db1, Inr ())" using expire_root_ok [OF Cons.prems(1,2) r] .
  note E = expire_root_inv [OF Cons.prems(2) r 1]
  have "set rs \<subseteq> set (t_result_root db1)" using Cons.prems(3,4) by (auto simp: E(2) image_iff)
  then show ?case using Cons.IH [OF expire_root_counted(1) [OF Cons.prems(1) r 1] E(1)] Cons.prems(3) 1 by (auto simp: seq_ok)
qed (simp add: ret_def)

section \<open>Retried commits\<close>

lemma delete_leases_head [simp]: "t_head (delete_leases P db) = t_head db"
  using delete_leases_version [of P db] by (simp add: version_tables_def)

lemma fold_bump_ref_head: "t_head (fold (bump_ref d) hs db) = t_head db"
  by (induction hs arbitrary: db) (simp_all add: bump_ref_def)

lemma retain_head: "retain opID f x db = (db', Inr ()) \<Longrightarrow> t_head db' = t_head db"
  by (auto simp: retain_def adjust_version_def adjustChunkRefs_eq fold_bump_ref_head fileChunks_def io_simps split: if_splits option.splits)

lemma publish_opens:
  assumes "publishFileVersion path mtime ps db = (db', Inr i)"
  shows "OpenFile (cleanPath path) db' = i"
proof -
  obtain db3 where "ensureDirs (cleanPath path) mtime (upsert_head (cleanPath path) i mtime db3) = (db', Inr ())"
    using publish_cases [OF assms] by metis
  from ensureDirs_frame [OF this] have "t_head db' = t_head (upsert_head (cleanPath path) i mtime db3)"
    by (simp add: version_tables_def)
  then have "head_at (cleanPath path) db' = head_at (cleanPath path) (upsert_head (cleanPath path) i mtime db3)" by (simp add: head_at_def)
  then show ?thesis by (simp add: OpenFile_def upsert_head_at)
qed

lemma commit_body_opens:
  assumes "commit_body fault opID path mtime ps x db = (db', Inr f)"
  shows "OpenFile (cleanPath path) db' = f"
proof -
  obtain db1 db2 where 1: "publishFileVersion path mtime ps db = (db1, Inr f)"
    and 2: "retain opID f x db1 = (db2, Inr ())" and db': "db' = delete_leases (\<lambda>l. l_op l = opID) (mark_committed opID f ps db2)"
    using commit_body_cases [OF assms] by blast
  have "OpenFile (cleanPath path) db1 = f" by (rule publish_opens [OF 1])
  moreover have "t_head db2 = t_head db1" by (rule retain_head [OF 2])
  ultimately show ?thesis by (simp add: db' mark_committed_def OpenFile_def head_at_def)
qed

lemma op_at_committed:
  assumes "op_at i db = Some w" "t_write_op db' = update (\<lambda>w. w_id w = i) g (t_write_op db)" "\<And>w. w_id (g w) = w_id w"
  shows "op_at i db' = Some (g w)"
proof -
  have "lookup (\<lambda>w. w_id w = i) (update (\<lambda>w. w_id w = i) g ws) = map_option g (lookup (\<lambda>w. w_id w = i) ws)" for ws
    by (induction ws) (simp_all add: update_def assms(3))
  then show ?thesis using assms(1,2) by (simp add: op_at_def)
qed

lemma commitWriteOpVersion_prepared:
  assumes w: "op_at i db = Some w" "w_state w = WriteOpPrepared"
  shows "commitWriteOpVersion fault i path mtime ps x db =
     (case commit_body fault i path mtime ps x db of
        (_, Inl e) \<Rightarrow> (db, Inl e)
      | (db', Inr f) \<Rightarrow> (db', case fault ''committed'' of None \<Rightarrow> Inr f | Some e \<Rightarrow> Inl e))"
  using w by (auto simp: commitWriteOpVersion_def transact_def io_simps publicationCheckpoint_def WriteOpPrepared_def WriteOpCommitted_def
      split: prod.splits sum.splits option.splits)

lemma commitWriteOpVersion_committed:
  "op_at i db = Some w \<Longrightarrow> w_state w = WriteOpCommitted \<Longrightarrow> commitWriteOpVersion fault i path mtime ps x db = (db, Inr (w_file w))"
  by (simp add: commitWriteOpVersion_def transact_def io_simps)

text \<open>
  C20. A vlog is leased by at most one write operation, which is still prepared, and only while the vlog
  exists; an operation that was committed, abandoned, cancelled or has expired holds no lease.
\<close>

theorem lease_exclusive:
  assumes "reachable db" "l \<in> set (t_lease db)"
  shows "(\<forall>l' \<in> set (t_lease db). l_vlog l' = l_vlog l \<longrightarrow> l' = l) \<and> l_vlog l \<in> v_id ` set (t_vlog db) \<and>
     (\<exists>w. op_at (l_op l) db = Some w \<and> w_state w = WriteOpPrepared)"
proof -
  have i: "write_inv db" using reachable_write_inv [OF assms(1)] .
  obtain w where w: "w \<in> set (t_write_op db)" "w_id w = l_op l" "w_state w = WriteOpPrepared" using lease_op [OF i assms(2)] .
  have "op_at (l_op l) db = Some w"
    unfolding op_at_def w(2) [symmetric] using i w(1) by (intro lookup_unique) (simp_all add: write_inv_def ops_ok_def)
  then show ?thesis using i w(3) assms(2) unfolding write_inv_def leases_ok_def by (auto simp: distinct_map inj_on_def)
qed

text \<open>
  C25. Expiring retained results never fails in a reachable catalog: it reports how many deadlines have passed,
  drops exactly those results, marks their operations expired and leaves every other operation alone.
\<close>

theorem ExpireWriteResults_succeeds:
  assumes "reachable db"
  shows "\<exists>db'. ExpireWriteResults now db = (db', Inr (length (filter (\<lambda>r. r_expires r \<le> now) (t_result_root db)))) \<and>
     t_result_root db' = filter (\<lambda>r. now < r_expires r) (t_result_root db) \<and>
     t_write_op db' = update (\<lambda>w. \<exists>r \<in> set (t_result_root db). r_op r = w_id w \<and> r_expires r \<le> now)
       (\<lambda>w. w\<lparr>w_state := WriteOpExpired\<rparr>) (t_write_op db)"
proof -
  let ?rs = "sort_key r_op (filter (\<lambda>r. r_expires r \<le> now) (t_result_root db))"
  have i: "write_inv db" and c: "counted (\<lambda>_. 0) db"
    using reachable_write_inv [OF assms] reachable_exact [OF assms] by (simp_all add: refcounts_exact_def)
  have sub: "set ?rs \<subseteq> set (t_result_root db)" by auto
  obtain db' where e: "for_each expire_root ?rs db = (db', Inr ())"
    using expire_roots_ok [OF c i expiring_distinct [OF i] sub] by blast
  note E = expire_roots_inv [OF i expiring_distinct [OF i] sub e]
  have result: "ExpireWriteResults now db = (db', Inr (length (filter (\<lambda>r. r_expires r \<le> now) (t_result_root db))))"
    using e by (simp add: ExpireWriteResults_def transact_def gets_def bind_def seq_ok ret_def)
  have "inj_on r_op (set (t_result_root db))" using i by (simp add: write_inv_def results_ok_def distinct_map)
  then have rest: "filter (\<lambda>x. r_op x \<notin> r_op ` set ?rs) (t_result_root db) = filter (\<lambda>r. now < r_expires r) (t_result_root db)"
    by (intro filter_cong) (auto simp: inj_on_def image_iff not_le [symmetric])
  have due: "(\<lambda>w. w_id w \<in> r_op ` set ?rs) = (\<lambda>w. \<exists>r \<in> set (t_result_root db). r_op r = w_id w \<and> r_expires r \<le> now)"
    by (intro ext) (auto simp: image_iff)
  show ?thesis using E [unfolded rest due] result by blast
qed

text \<open>
  C21. Committing a prepared operation, with an error or a lost answer at any of its checkpoints, either changes
  nothing or publishes a version, marks the operation committed with it and releases its leases; then every
  retry, whatever it asks for, answers with that version and changes nothing.
\<close>

theorem commit_retry_is_idempotent:
  assumes r: "reachable db" and w: "op_at opID db = Some w" "w_state w = WriteOpPrepared"
    and e: "commitWriteOpVersion fault opID path mtime ps x db = (db', res)"
  shows "(\<exists>err. res = Inl err) \<and> db' = db \<or>
     (\<exists>f. res = (case fault ''committed'' of None \<Rightarrow> Inr f | Some err \<Rightarrow> Inl err) \<and> OpenFile (cleanPath path) db' = f \<and>
        (\<forall>l \<in> set (t_lease db'). l_op l \<noteq> opID) \<and>
        (\<forall>fault' path' mtime' ps' x'. commitWriteOpVersion fault' opID path' mtime' ps' x' db' = (db', Inr f)))"
proof (cases "commit_body fault opID path mtime ps x db")
  case (Pair db1 res1)
  note C = commitWriteOpVersion_prepared [OF w, of fault path mtime ps x]
  show ?thesis
  proof (cases res1)
    case (Inl err)
    then have "db' = db" "res = Inl err" using e C Pair by simp_all
    then show ?thesis by blast
  next
    case (Inr f)
    note B = commit_body_inv [OF reachable_write_inv [OF r] w Pair [unfolded Inr]]
    have db': "db' = db1" "res = (case fault ''committed'' of None \<Rightarrow> Inr f | Some err \<Rightarrow> Inl err)" using e C Pair Inr by simp_all
    have "op_at opID db1 = Some (w\<lparr>w_state := WriteOpCommitted, w_file := f, w_ack := sum_list (map cp_LogicalLen ps), w_tail := []\<rparr>)"
      by (rule op_at_committed [OF w(1) B(2)]) simp
    from commitWriteOpVersion_committed [OF this]
    have "commitWriteOpVersion fault' opID path' mtime' ps' x' db1 = (db1, Inr f)" for fault' path' mtime' ps' x' by simp
    moreover have "OpenFile (cleanPath path) db1 = f" by (rule commit_body_opens [OF Pair [unfolded Inr]])
    ultimately show ?thesis using db' by (auto simp: B(3))
  qed
qed

text \<open>
  C26. Creating a write operation twice under one key, as a client that lost the first answer does, gives the
  operation created first, unchanged, whatever path and time the second call names.
\<close>

theorem CreateWriteOp_idempotent:
  assumes r: "reachable db" and p: "key \<noteq> []" "cleanPath path \<noteq> []" "cleanPath path' \<noteq> []"
    and e: "CreateWriteOp now key path db = (db', res)"
  shows "(\<exists>w. res = Inr w \<and> op_IdempotencyKey w = key) \<and> CreateWriteOp now' key path' db' = (db', res)"
proof (cases "list_ex (\<lambda>w. w_key w = key) (t_write_op db)")
  case True
  then obtain w where "lookup (\<lambda>w. w_key w = key) (t_write_op db) = Some w" "w_key w = key"
    by (cases "lookup (\<lambda>w. w_key w = key) (t_write_op db)") (auto simp: lookup_None_iff list_ex_iff dest: lookup_SomeD)
  then show ?thesis using e p True by (auto simp: CreateWriteOp_def WriteOpByKey_def)
next
  case False
  have "r_op x \<noteq> write_op_seq db + 1" if x: "x \<in> set (t_result_root db)" for x
  proof -
    obtain w where "w \<in> set (t_write_op db)" "w_id w = r_op x" using result_op [OF reachable_write_inv [OF r] x] by metis
    then show ?thesis using reachable_write_inv [OF r] by (auto simp: write_inv_def ops_ok_def)
  qed
  then have "lookup (\<lambda>x. r_op x = write_op_seq db + 1) (t_result_root db) = None" by (auto simp: lookup_None_iff)
  moreover have "lookup (\<lambda>w. w_key w = key) (t_write_op db) = None" using False by (auto simp: lookup_None_iff list_ex_iff)
  ultimately show ?thesis using e p False by (auto simp: CreateWriteOp_def Let_def WriteOpByKey_def WriteResultDeadline_def lookup_append)
qed

section \<open>A write, its lease and its retained result\<close>

definition lease_db :: DB where
  "lease_db =
     perform (Write (ClaimLeaseOp 1 1 0))
       (perform (Write (CreateWriteOpOp 5 ''key'' ''/a/g''))
         (perform (Shard (MakeVlogOp (replicate 16 7) ''active'' 0 1 1 0 [] 0 [])) empty_db))"

definition result_db :: DB where
  "result_db = perform (Write (CommitWriteOp (\<lambda>_. None) 1 ''/a/g'' 9 [demo_chunk] 20)) lease_db"

definition lost_answer :: "string \<Rightarrow> err option" where
  "lost_answer stage = (if stage = ''committed'' then Some (Err ''killed'') else None)"

lemma lease_reachable: "reachable lease_db"
  unfolding lease_db_def by (intro reachable.intros) simp_all

lemma result_reachable: "reachable result_db"
  unfolding result_db_def by (intro reachable.step lease_reachable) (simp add: demo_sized)

lemma lease_db_leases: "t_lease lease_db = [\<lparr>l_vlog = 1, l_op = 1, l_ordinal = 0\<rparr>]"
  by code_simp

theorem lease_exclusive_witness:
  "\<lparr>l_vlog = 1, l_op = 1, l_ordinal = 0\<rparr> \<in> set (t_lease lease_db) \<and> (\<exists>w. op_at 1 lease_db = Some w \<and> w_state w = WriteOpPrepared)"
proof -
  have l: "\<lparr>l_vlog = 1, l_op = 1, l_ordinal = 0\<rparr> \<in> set (t_lease lease_db)" by (simp add: lease_db_leases)
  from lease_exclusive [OF lease_reachable l, THEN conjunct2, THEN conjunct2] show ?thesis using l by (intro conjI) (simp_all only: lease_row.simps)
qed

theorem ExpireWriteResults_succeeds_witness:
  "t_result_root result_db = [root_row 1 1 20] \<and> (\<exists>db'. ExpireWriteResults 20 result_db = (db', Inr 1) \<and> t_result_root db' = [])"
proof -
  have r: "t_result_root result_db = [root_row 1 1 20]" by code_simp
  from ExpireWriteResults_succeeds [OF result_reachable, of 20] show ?thesis by (auto simp: r root_row_def)
qed

theorem commit_retry_is_idempotent_witness:
  "\<exists>db'. commitWriteOpVersion lost_answer 1 ''/a/g'' 9 [demo_chunk] 0 lease_db = (db', Inl (Err ''killed'')) \<and>
     commitWriteOpVersion (\<lambda>_. None) 1 ''/a/g'' 9 [demo_chunk] 0 db' = (db', Inr 1)"
proof -
  let ?r = "commitWriteOpVersion lost_answer 1 ''/a/g'' 9 [demo_chunk] 0 lease_db"
  have s: "map_option w_state (op_at 1 lease_db) = Some WriteOpPrepared" by code_simp
  have o: "snd ?r = Inl (Err ''killed'')" "OpenFile (cleanPath ''/a/g'') (fst ?r) = 1" "OpenFile (cleanPath ''/a/g'') lease_db = 0" by code_simp+
  obtain w where w: "op_at 1 lease_db = Some w" "w_state w = WriteOpPrepared" using s by auto
  obtain db' where e: "?r = (db', Inl (Err ''killed''))" using o(1) by (cases ?r) simp
  have "db' \<noteq> lease_db" "OpenFile (cleanPath ''/a/g'') db' = 1" using o(2,3) e by auto
  then show ?thesis using commit_retry_is_idempotent [OF lease_reachable w e] e by auto
qed

theorem CreateWriteOp_idempotent_witness:
  "\<exists>w. CreateWriteOp 6 ''key'' ''/b'' lease_db = (lease_db, Inr w) \<and> op_Path w = ''a/g'' \<and> CreateWriteOp 7 ''key'' ''/c'' lease_db = (lease_db, Inr w)"
proof -
  let ?r = "CreateWriteOp 6 ''key'' ''/b'' lease_db"
  have p: "cleanPath ''/b'' \<noteq> []" "cleanPath ''/c'' \<noteq> []" "''key'' \<noteq> []" by code_simp+
  have "list_ex (\<lambda>w. w_key w = ''key'') (t_write_op lease_db)" by code_simp
  then have db: "fst ?r = lease_db" using p by (simp add: CreateWriteOp_def Let_def)
  have q: "(case snd ?r of Inr w \<Rightarrow> op_Path w = ''a/g'' | Inl _ \<Rightarrow> False)" by code_simp
  obtain res where e: "?r = (lease_db, res)" using db by (cases ?r) simp
  from CreateWriteOp_idempotent [OF lease_reachable p(3,1,2) e, of 7] q e show ?thesis by auto
qed

end
