(* ===== verification/Rose_Tree.thy ===== *)
theory Rose_Tree
  imports Rose_Leases
begin

text \<open>
  The namespace as a tree. Canonical paths are lists of words; the live namespace and every snapshot of it
  are trees of such paths, kept by every catalog operation as long as a rename selects only the subtree it
  names. Renames select rows with LIKE, which ignores case; \<open>rename_exact\<close> says when that makes no difference.
\<close>

section \<open>Canonical paths as lists of words\<close>

lemma split_slash_slash: "split_slash (a @ slash # b) = split_slash a @ split_slash b"
proof (induction a)
  case (Cons c a)
  then show ?case by (cases "split_slash a") auto
qed simp

lemma join_slash_append: "xs \<noteq> [] \<Longrightarrow> ys \<noteq> [] \<Longrightarrow> join_slash (xs @ ys) = join_slash xs @ slash # join_slash ys"
proof (induction xs rule: join_slash.induct)
  case (2 w)
  then show ?case by (cases ys) simp_all
qed simp_all

lemma join_split: "join_slash (split_slash p) = p"
proof (induction p)
  case (Cons c p)
  show ?case
  proof (cases "split_slash p")
    case (Cons w ws)
    then show ?thesis using Cons.IH by (cases ws) auto
  qed simp
qed simp

lemma join_slash_inject:
  "xs \<noteq> [] \<Longrightarrow> ys \<noteq> [] \<Longrightarrow> list_all proper xs \<Longrightarrow> list_all proper ys \<Longrightarrow> join_slash xs = join_slash ys \<longleftrightarrow> xs = ys"
  by (metis list_all_iff proper_def split_join)

lemma cleanPath_id_iff: "p \<noteq> [] \<Longrightarrow> cleanPath p = p \<longleftrightarrow> list_all proper (split_slash p)"
proof
  assume p: "p \<noteq> []" "cleanPath p = p"
  obtain ws where ws: "list_all proper ws" "p = join_slash ws" using cleanPath_canonical [of p] p(2) by (auto simp: canonical_def)
  then have "ws \<noteq> []" using p(1) by auto
  then show "list_all proper (split_slash p)" using ws by (simp add: split_join list_all_iff proper_def)
next
  assume "list_all proper (split_slash p)"
  then show "cleanPath p = p" by (intro cleanPath_of_canonical) (auto simp: canonical_def join_split intro!: exI [of _ "split_slash p"])
qed

lemma proper_no_lead: "list_all proper ws \<Longrightarrow> dropWhile ((=) slash) (join_slash ws) = join_slash ws"
proof (cases ws rule: join_slash.cases)
  case (2 w)
  then show "list_all proper ws \<Longrightarrow> ?thesis" by (cases w) (auto simp: proper_def)
next
  case (3 w v vs)
  then show "list_all proper ws \<Longrightarrow> ?thesis" by (cases w) (auto simp: proper_def)
qed simp

lemma splitPath_join:
  assumes "list_all proper (ws @ [w])"
  shows "splitPath (join_slash (ws @ [w])) = (join_slash ws, w)"
proof (cases "ws = []")
  case True
  then show ?thesis using proper_no_lead [OF assms] assms by (simp add: splitPath_def Let_def proper_def)
next
  case False
  then have j: "join_slash (ws @ [w]) = join_slash ws @ slash # w" by (simp add: join_slash_append)
  have "takeWhile ((\<noteq>) slash) (rev w @ slash # rev (join_slash ws)) = rev w"
    using assms by (subst takeWhile_append2) (auto simp: proper_def)
  then show ?thesis using proper_no_lead [OF assms] by (simp add: splitPath_def Let_def j)
qed

definition parent :: "string \<Rightarrow> string" where
  "parent p = fst (splitPath p)"

definition clean :: "string \<Rightarrow> bool" where
  "clean p \<longleftrightarrow> p \<noteq> [] \<and> cleanPath p = p"

lemma clean_words: "clean p \<longleftrightarrow> p \<noteq> [] \<and> list_all proper (split_slash p)"
  by (auto simp: clean_def cleanPath_id_iff)

lemma cleanPath_clean: "cleanPath p \<noteq> [] \<Longrightarrow> clean (cleanPath p)"
  by (simp add: clean_def cleanPath_of_canonical cleanPath_canonical)

lemma clean_join: "ws \<noteq> [] \<Longrightarrow> list_all proper ws \<Longrightarrow> clean (join_slash ws)"
proof -
  assume ws: "ws \<noteq> []" "list_all proper ws"
  then have s: "split_slash (join_slash ws) = ws" by (intro split_join) (auto simp: list_all_iff proper_def)
  have "join_slash ws \<noteq> []"
  proof
    assume "join_slash ws = []"
    then have "ws = [[]]" using s by simp
    then show False using ws(2) by (simp add: proper_def)
  qed
  then show ?thesis using ws(2) s by (simp add: clean_words)
qed

lemma parent_words:
  assumes "clean p"
  shows "parent p = join_slash (butlast (split_slash p))"
proof -
  let ?ws = "split_slash p"
  have "?ws = butlast ?ws @ [last ?ws]" by simp
  then have "splitPath p = (join_slash (butlast ?ws), last ?ws)"
    using splitPath_join [of "butlast ?ws" "last ?ws"] assms by (simp add: clean_words join_split)
  then show ?thesis by (simp add: parent_def)
qed

lemma parent_clean: "clean p \<Longrightarrow> parent p \<noteq> [] \<Longrightarrow> clean (parent p)"
  unfolding parent_words by (rule clean_join) (auto simp: parent_words clean_words list_all_iff dest: in_set_butlastD)

lemma parent_shorter: "parent p \<noteq> [] \<Longrightarrow> length (parent p) < length p"
  unfolding parent_def by (rule splitPath_parent_shorter)

text \<open>A path below a directory, and the path the same words name below another.\<close>

lemma clean_below:
  assumes "clean (a @ slash # r)" "a \<noteq> []"
  shows "clean a" "clean r"
proof -
  have w: "list_all proper (split_slash a)" "list_all proper (split_slash r)" using assms(1) by (simp_all add: clean_words split_slash_slash)
  have "r \<noteq> []" using w(2) by (auto simp: proper_def)
  then show "clean a" "clean r" using w assms(2) by (simp_all add: clean_words)
qed

lemma clean_graft: "clean a \<Longrightarrow> clean r \<Longrightarrow> clean (a @ slash # r)"
  by (simp add: clean_words split_slash_slash)

lemma parent_graft:
  assumes "clean a" "clean r"
  shows "parent (a @ slash # r) = (if parent r = [] then a else a @ slash # parent r)"
proof -
  have w: "split_slash a \<noteq> []" "split_slash r \<noteq> []" by simp_all
  have "parent (a @ slash # r) = join_slash (split_slash a @ butlast (split_slash r))"
    by (simp add: parent_words [OF clean_graft [OF assms]] split_slash_slash butlast_append)
  moreover have "parent r = [] \<longleftrightarrow> butlast (split_slash r) = []"
    using parent_words [OF assms(2)] assms(2) clean_join [of "butlast (split_slash r)"]
    by (auto simp: clean_def [of "join_slash _"] clean_words [of r] list_all_iff dest: in_set_butlastD)
  ultimately show ?thesis
    by (auto simp: join_slash_append join_split parent_words [OF assms(2)])
qed

section \<open>Ancestors\<close>

lemma ancestors_closed: "parent p = [] \<or> parent p \<in> set (ancestors_loop p)"
  by (subst ancestors_loop.simps) (simp add: parent_def Let_def)

lemma ancestors_props:
  "clean p \<Longrightarrow> q \<in> set (ancestors_loop p) \<Longrightarrow> clean q \<and> length q < length p \<and> (parent q = [] \<or> parent q \<in> set (ancestors_loop p))"
proof (induction p rule: ancestors_loop.induct)
  case (1 p)
  let ?q = "fst (splitPath p)"
  show ?case
  proof (cases "?q = []")
    case True
    then show ?thesis using 1(3) by (subst (asm) ancestors_loop.simps) (simp add: Let_def)
  next
    case False
    then have a: "ancestors_loop p = ?q # ancestors_loop ?q" by (subst ancestors_loop.simps) (simp add: Let_def)
    have c: "clean ?q" "length ?q < length p" using parent_clean [OF 1(2)] parent_shorter [of p] False by (simp_all add: parent_def)
    show ?thesis
    proof (cases "q = ?q")
      case True
      then show ?thesis using c ancestors_closed [of ?q] a by auto
    next
      case False
      then have "q \<in> set (ancestors_loop ?q)" using 1(3) a by simp
      then show ?thesis using 1(1) [OF refl \<open>?q \<noteq> []\<close> c(1)] c(2) a by auto
    qed
  qed
qed

lemma ancestorsOf_clean: "clean p \<Longrightarrow> ancestorsOf p = ancestors_loop p"
  by (simp add: ancestorsOf_def clean_def)

section \<open>The namespace is a tree\<close>

text \<open>
  Files \<open>H\<close> and directories \<open>D\<close> by path: canonical, no path twice, and the parent of each is the root or a
  directory.
\<close>

definition path_tree :: "string list \<Rightarrow> string list \<Rightarrow> bool" where
  "path_tree H D \<longleftrightarrow> (\<forall>p \<in> set H \<union> set D. clean p \<and> (parent p = [] \<or> parent p \<in> set D)) \<and> distinct (H @ D)"

definition live_tree :: "DB \<Rightarrow> bool" where
  "live_tree db \<longleftrightarrow> path_tree (map h_path (t_head db)) (map d_path (t_dir db)) \<and>
     (\<forall>h \<in> set (t_head db). (h_parent h, h_name h) = splitPath (h_path h)) \<and>
     (\<forall>d \<in> set (t_dir db). (d_parent d, d_name d) = splitPath (d_path d))"

lemma path_treeI:
  "(\<And>p. p \<in> set H \<union> set D \<Longrightarrow> clean p \<and> (parent p = [] \<or> parent p \<in> set D)) \<Longrightarrow> distinct H \<Longrightarrow> distinct D \<Longrightarrow> set H \<inter> set D = {} \<Longrightarrow> path_tree H D"
  by (auto simp: path_tree_def)

lemma path_treeD:
  assumes "path_tree H D"
  shows "distinct H" "distinct D" "set H \<inter> set D = {}" "\<And>p. p \<in> set H \<or> p \<in> set D \<Longrightarrow> clean p"
    "\<And>p. p \<in> set H \<or> p \<in> set D \<Longrightarrow> parent p = [] \<or> parent p \<in> set D"
  using assms by (auto simp: path_tree_def)

lemma live_tree_cong: "t_head db' = t_head db \<Longrightarrow> t_dir db' = t_dir db \<Longrightarrow> live_tree db' = live_tree db"
  by (simp add: live_tree_def)

lemma head_at_None: "head_at p db = None \<longleftrightarrow> p \<notin> h_path ` set (t_head db)"
  by (auto simp: head_at_def lookup_None_iff)

lemma dir_at_None: "dir_at p db = None \<longleftrightarrow> p \<notin> d_path ` set (t_dir db)"
  by (auto simp: dir_at_def lookup_None_iff)

text \<open>Directory rows that were added, each with the parent and name of its path.\<close>

definition dirs_added :: "string set \<Rightarrow> DB \<Rightarrow> DB \<Rightarrow> bool" where
  "dirs_added P db db' \<longleftrightarrow>
     (\<exists>ds. db' = db\<lparr>t_dir := t_dir db @ ds\<rparr> \<and> (\<forall>d \<in> set ds. (d_parent d, d_name d) = splitPath (d_path d)) \<and>
        distinct (map d_path ds) \<and> d_path ` set ds = P - d_path ` set (t_dir db))"

lemma insert_dir_added: "dirs_added {p} db (insert_dir p mtime db)"
proof (cases "dir_at p db")
  case None
  let ?d = "\<lparr>d_path = p, d_parent = fst (splitPath p), d_name = snd (splitPath p), d_mtime = mtime\<rparr>"
  show ?thesis unfolding dirs_added_def using None
    by (intro exI [of _ "[?d]"]) (auto simp: insert_dir_def dir_at_None)
next
  case (Some d)
  then have "p \<in> d_path ` set (t_dir db)" using dir_at_None [of p db] by auto
  then show ?thesis unfolding dirs_added_def using Some by (intro exI [of _ "[]"]) (auto simp: insert_dir_def)
qed

lemma dirs_added_trans:
  assumes "dirs_added P db db1" "dirs_added Q db1 db2"
  shows "dirs_added (P \<union> Q) db db2"
proof -
  obtain ds where 1: "db1 = db\<lparr>t_dir := t_dir db @ ds\<rparr>" "\<forall>d \<in> set ds. (d_parent d, d_name d) = splitPath (d_path d)"
    "distinct (map d_path ds)" "d_path ` set ds = P - d_path ` set (t_dir db)"
    using assms(1) by (auto simp: dirs_added_def)
  obtain es where 2: "db2 = db1\<lparr>t_dir := t_dir db1 @ es\<rparr>" "\<forall>d \<in> set es. (d_parent d, d_name d) = splitPath (d_path d)"
    "distinct (map d_path es)" "d_path ` set es = Q - d_path ` set (t_dir db1)"
    using assms(2) by (auto simp: dirs_added_def)
  have "d_path ` set ds \<inter> d_path ` set es = {}" using 1(1) 2(4) by auto
  moreover have "d_path ` set (ds @ es) = P \<union> Q - d_path ` set (t_dir db)"
    using 1 2(4) by (simp add: image_Un) blast
  moreover have "db2 = db\<lparr>t_dir := t_dir db @ (ds @ es)\<rparr>" using 1(1) 2(1) by simp
  ultimately show ?thesis unfolding dirs_added_def using 1(2,3) 2(2,3) by (intro exI [of _ "ds @ es"]) auto
qed

lemma dirs_added_none: "dirs_added {} db db"
  by (auto simp: dirs_added_def intro: exI [of _ "[]"])

lemma ensure_each_added:
  "ensure_each dirs mtime db = (db', Inr ()) \<Longrightarrow> dirs_added (set dirs) db db' \<and> set dirs \<inter> h_path ` set (t_head db) = {}"
proof (induction dirs arbitrary: db)
  case Nil
  then show ?case by (simp add: ret_def dirs_added_none)
next
  case (Cons p dirs)
  then have h: "head_at p db = None" and e: "ensure_each dirs mtime (insert_dir p mtime db) = (db', Inr ())"
    by (auto simp: io_simps split: option.splits)
  have t: "t_head (insert_dir p mtime db) = t_head db" by (simp add: insert_dir_def)
  from Cons.IH [OF e] show ?case
    using dirs_added_trans [OF insert_dir_added [of p db mtime]] h t by (auto simp: head_at_None)
qed

lemma ensureDirs_added:
  "clean p \<Longrightarrow> ensureDirs p mtime db = (db', Inr ()) \<Longrightarrow>
   dirs_added (set (ancestors_loop p)) db db' \<and> set (ancestors_loop p) \<inter> h_path ` set (t_head db) = {}"
  unfolding ensureDirs_def by (simp add: ancestorsOf_clean ensure_each_added)

lemma dirs_added_tables:
  assumes "dirs_added P db db'"
  shows "t_head db' = t_head db" "d_path ` set (t_dir db') = d_path ` set (t_dir db) \<union> P"
    "distinct (map d_path (t_dir db)) \<Longrightarrow> distinct (map d_path (t_dir db'))"
    "(\<forall>d \<in> set (t_dir db). (d_parent d, d_name d) = splitPath (d_path d)) \<Longrightarrow> (\<forall>d \<in> set (t_dir db'). (d_parent d, d_name d) = splitPath (d_path d))"
proof -
  obtain ds where ds: "db' = db\<lparr>t_dir := t_dir db @ ds\<rparr>" "\<forall>d \<in> set ds. (d_parent d, d_name d) = splitPath (d_path d)"
    "distinct (map d_path ds)" "d_path ` set ds = P - d_path ` set (t_dir db)"
    using assms by (auto simp: dirs_added_def)
  show "t_head db' = t_head db" by (simp add: ds(1))
  show "d_path ` set (t_dir db') = d_path ` set (t_dir db) \<union> P" by (simp add: ds(1,4) image_Un)
  show "distinct (map d_path (t_dir db)) \<Longrightarrow> distinct (map d_path (t_dir db'))" using ds(3,4) by (auto simp: ds(1))
  show "(\<forall>d \<in> set (t_dir db). (d_parent d, d_name d) = splitPath (d_path d)) \<Longrightarrow> (\<forall>d \<in> set (t_dir db'). (d_parent d, d_name d) = splitPath (d_path d))"
    using ds(2) by (auto simp: ds(1))
qed

text \<open>Adding directories whose parents are there, or are added too, keeps the tree.\<close>

lemma live_tree_added:
  assumes t: "live_tree db" and a: "dirs_added P db db'" and P: "P \<inter> h_path ` set (t_head db) = {}"
    "\<And>p. p \<in> P \<Longrightarrow> clean p \<and> (parent p = [] \<or> parent p \<in> P \<union> d_path ` set (t_dir db))"
  shows "live_tree db'"
proof -
  note A = dirs_added_tables [OF a]
  have T: "path_tree (map h_path (t_head db)) (map d_path (t_dir db))" using t by (simp add: live_tree_def)
  note T = path_treeD [OF T]
  have "path_tree (map h_path (t_head db')) (map d_path (t_dir db'))"
  proof (rule path_treeI)
    fix p assume p: "p \<in> set (map h_path (t_head db')) \<union> set (map d_path (t_dir db'))"
    then consider "p \<in> P" | "p \<in> set (map h_path (t_head db)) \<or> p \<in> set (map d_path (t_dir db))" using A(1,2) by auto
    then show "clean p \<and> (parent p = [] \<or> parent p \<in> set (map d_path (t_dir db')))"
    proof cases
      case 1
      then show ?thesis using P(2) [OF 1] A(2) by auto
    next
      case 2
      then show ?thesis using T(4,5) [OF 2] A(2) by auto
    qed
  qed (use A(1,2,3) P(1) T(1,2,3) in auto)
  then show ?thesis using t A(1,4) by (simp add: live_tree_def)
qed

lemma ensureDirs_tree: "live_tree db \<Longrightarrow> clean p \<Longrightarrow> ensureDirs p mtime db = (db', Inr ()) \<Longrightarrow> live_tree db'"
proof -
  assume t: "live_tree db" and c: "clean p" and e: "ensureDirs p mtime db = (db', Inr ())"
  note A = ensureDirs_added [OF c e]
  show ?thesis by (rule live_tree_added [OF t conjunct1 [OF A] conjunct2 [OF A]]) (use ancestors_props [OF c] in blast)
qed

lemma Mkdir_tree: "live_tree db \<Longrightarrow> live_tree (fst (Mkdir path mtime db))"
proof (cases "cleanPath path = []")
  case False
  let ?p = "cleanPath path"
  assume t: "live_tree db"
  show ?thesis
  proof (cases "snd (Mkdir path mtime db)")
    case (Inr x)
    have c: "clean ?p" by (rule cleanPath_clean [OF False])
    obtain db1 where h: "head_at ?p db = None" and 1: "ensureDirs ?p mtime db = (db1, Inr ())" and 2: "fst (Mkdir path mtime db) = insert_dir ?p mtime db1"
      using Inr False by (auto simp: Mkdir_def Let_def transact_def io_simps split: if_splits prod.splits sum.splits)
    note A = dirs_added_tables [OF conjunct1 [OF ensureDirs_added [OF c 1]]]
    show ?thesis unfolding 2
    proof (rule live_tree_added [OF ensureDirs_tree [OF t c 1] insert_dir_added])
      show "{?p} \<inter> h_path ` set (t_head db1) = {}" using h by (simp add: A(1) head_at_None)
      show "clean p \<and> (parent p = [] \<or> parent p \<in> {?p} \<union> d_path ` set (t_dir db1))" if "p \<in> {?p}" for p
        using that c ancestors_closed [of ?p] A(2) by auto
    qed
  qed (use t False in \<open>auto simp: Mkdir_def Let_def transact_def split: prod.splits sum.splits\<close>)
qed (simp add: Mkdir_def Let_def ret_def)

section \<open>Files\<close>

abbreviation heads_of :: "DB \<Rightarrow> string set" where
  "heads_of db \<equiv> h_path ` set (t_head db)"

abbreviation dirs_of :: "DB \<Rightarrow> string set" where
  "dirs_of db \<equiv> d_path ` set (t_dir db)"

definition heads_indexed :: "DB \<Rightarrow> bool" where
  "heads_indexed db \<longleftrightarrow> (\<forall>h \<in> set (t_head db). (h_parent h, h_name h) = splitPath (h_path h)) \<and> distinct (map h_path (t_head db))"

lemma live_tree_rows: "live_tree db \<Longrightarrow> heads_indexed db"
  by (simp add: live_tree_def heads_indexed_def path_tree_def)

lemma upsert_head_indexed:
  assumes "heads_indexed db"
  shows "heads_indexed (upsert_head p i m db) \<and> heads_of (upsert_head p i m db) = insert p (heads_of db) \<and> t_dir (upsert_head p i m db) = t_dir db"
proof (cases "head_at p db")
  case None
  then show ?thesis using assms by (auto simp: upsert_head_def Let_def heads_indexed_def head_at_None)
next
  case (Some h)
  then have p: "p \<in> heads_of db" using head_at_None [of p db] by auto
  have "map h_path (t_head (upsert_head p i m db)) = map h_path (t_head db)"
    using Some by (simp add: upsert_head_def Let_def map_update)
  moreover from this have "heads_of (upsert_head p i m db) = heads_of db" by (metis list.set_map)
  ultimately show ?thesis using assms p Some by (auto simp: upsert_head_def Let_def heads_indexed_def set_update)
qed

lemma delete_head_indexed:
  "heads_indexed db \<Longrightarrow> heads_indexed (db\<lparr>t_head := delete P (t_head db)\<rparr>)"
  by (auto simp: heads_indexed_def distinct_map_delete set_delete)

text \<open>A file was put at \<open>p\<close>, others perhaps removed, and then its ancestors created.\<close>

lemma placed_tree:
  assumes t: "live_tree db" and c: "clean p" and p: "p \<notin> dirs_of db"
    and i: "heads_indexed db1" and h: "heads_of db1 \<subseteq> insert p (heads_of db)" and d: "t_dir db1 = t_dir db"
    and e: "ensureDirs p mtime db1 = (db', Inr ())"
  shows "live_tree db'"
proof -
  note E = ensureDirs_added [OF c e]
  note A = dirs_added_tables [OF conjunct1 [OF E]]
  have "path_tree (map h_path (t_head db)) (map d_path (t_dir db))" using t by (simp add: live_tree_def)
  note T = path_treeD [OF this]
  have pt: "path_tree (map h_path (t_head db')) (map d_path (t_dir db'))"
  proof (rule path_treeI)
    fix q assume "q \<in> set (map h_path (t_head db')) \<union> set (map d_path (t_dir db'))"
    then consider "q = p" | "q \<in> set (ancestors_loop p)" | "q \<in> set (map h_path (t_head db)) \<or> q \<in> set (map d_path (t_dir db))"
      using h A(1,2) d by auto
    then show "clean q \<and> (parent q = [] \<or> parent q \<in> set (map d_path (t_dir db')))"
    proof cases
      case 1
      then show ?thesis using c ancestors_closed [of p] A(2) by auto
    next
      case 2
      then show ?thesis using ancestors_props [OF c 2] A(2) by auto
    next
      case 3
      then show ?thesis using T(4,5) [OF 3] A(2) d by auto
    qed
  next
    show "distinct (map h_path (t_head db'))" using i by (simp add: A(1) heads_indexed_def)
    show "distinct (map d_path (t_dir db'))" using A(3) T(2) d by simp
    have "p \<notin> set (ancestors_loop p)" using ancestors_props [OF c] by blast
    then show "set (map h_path (t_head db')) \<inter> set (map d_path (t_dir db')) = {}"
      using h A(1,2) d E T(3) p by auto
  qed
  then show ?thesis using i t A(1,4) d by (simp add: live_tree_def heads_indexed_def)
qed

lemma removed_tree:
  assumes t: "live_tree db" shows "live_tree (db\<lparr>t_head := delete P (t_head db)\<rparr>)"
  using t by (auto simp: live_tree_def path_tree_def distinct_map_delete set_delete)

lemma same_names: "t_head db' = t_head db \<Longrightarrow> t_dir db' = t_dir db \<Longrightarrow> live_tree db \<Longrightarrow> live_tree db'"
  by (simp add: live_tree_def)

lemma fold_bump_names: "t_head (fold (bump_ref d) hs db) = t_head db \<and> t_dir (fold (bump_ref d) hs db) = t_dir db"
  by (induction hs arbitrary: db) (simp_all add: bump_ref_def)

lemma adjust_version_names: "adjust_version i d db = (db', r) \<Longrightarrow> t_head db' = t_head db \<and> t_dir db' = t_dir db"
  by (auto simp: adjust_version_def adjustChunkRefs_eq fold_bump_names fileChunks_def io_simps split: option.splits)

lemma release_head_names: "release_head p db = (db', r) \<Longrightarrow> t_head db' = t_head db \<and> t_dir db' = t_dir db"
  by (auto simp: release_head_def gets_def bind_def ret_def split: option.splits dest: adjust_version_names)

lemma upsertChunkRefs_names [simp]: "t_head (upsertChunkRefs ps db) = t_head db" "t_dir (upsertChunkRefs ps db) = t_dir db"
proof -
  have "t_head (fold upsert_chunk ps db) = t_head db \<and> t_dir (fold upsert_chunk ps db) = t_dir db"
    by (induction ps arbitrary: db) (simp_all add: upsert_chunk_def)
  then show "t_head (upsertChunkRefs ps db) = t_head db" "t_dir (upsertChunkRefs ps db) = t_dir db" by (simp_all add: upsertChunkRefs_eq)
qed

lemma publish_tree:
  assumes t: "live_tree db" and e: "publishFileVersion path mtime ps db = (db', Inr i)"
  shows "live_tree db'"
proof -
  let ?p = "cleanPath path"
  obtain db1 db3 where p: "?p \<noteq> []" "dir_at ?p db = None" and 1: "release_head ?p db = (db1, Inr ())"
    and 3: "insert_file ?p mtime (concat (map chunk_entry ps)) (upsertChunkRefs ps db1) = (db3, Inr i)"
    and 4: "ensureDirs ?p mtime (upsert_head ?p i mtime db3) = (db', Inr ())"
    using publish_cases [OF e] .
  have n: "t_head db3 = t_head db" "t_dir db3 = t_dir db" using release_head_names [OF 1] 3 by (auto simp: insert_file_def Let_def)
  then have i3: "heads_indexed db3" using live_tree_rows [OF t] by (simp add: heads_indexed_def)
  note U = upsert_head_indexed [OF i3, of ?p i mtime]
  show ?thesis
    by (rule placed_tree [OF t cleanPath_clean [OF p(1)] _ conjunct1 [OF U] _ _ 4]) (use U p(2) n in \<open>auto simp: dir_at_None\<close>)
qed

section \<open>Moving a subtree\<close>

text \<open>Rows are moved one at a time; when no move fails, that is all of them at once.\<close>

lemma seq_move:
  assumes "distinct ps" "set ps \<subseteq> k ` set rows" "distinct (map k rows)"
    and "\<And>rows p rows'. step p rows = Some rows' \<Longrightarrow>
       (f p = p \<or> f p \<notin> k ` set rows) \<and> rows' = update (\<lambda>r. k r = p) (g p) rows"
    and "\<And>p r. k (g p r) = f p"
    and "fold (\<lambda>p acc. Option.bind acc (step p)) ps (Some rows) = Some rows'"
  shows "rows' = map (\<lambda>r. if k r \<in> set ps then g (k r) r else r) rows \<and> distinct (map k rows')"
  using assms(1-3,6)
proof (induction ps arbitrary: rows)
  case (Cons p ps)
  have none: "fold (\<lambda>p acc. Option.bind acc (step p)) qs None = None" for qs by (induction qs) simp_all
  obtain rows1 where 1: "step p rows = Some rows1" and 2: "fold (\<lambda>p acc. Option.bind acc (step p)) ps (Some rows1) = Some rows'"
    using Cons.prems(4) none by (cases "step p rows") auto
  note S = assms(4) [OF 1]
  have "\<forall>x \<in> set rows. k x = f p \<longrightarrow> f p = p" using S by (metis imageI)
  then have d: "distinct (map k rows1)"
    using S distinct_move [OF Cons.prems(3), of "f p" p "g p"] assms(5) by simp
  have fp: "f p \<notin> set ps" using S Cons.prems(1,2) by auto
  have sub: "set ps \<subseteq> k ` set rows1"
  proof
    fix q assume q: "q \<in> set ps"
    then obtain r where r: "r \<in> set rows" "k r = q" using Cons.prems(2) by auto
    then have "r \<in> set rows1" using S q Cons.prems(1) by (auto intro: update_other)
    then show "q \<in> k ` set rows1" using r(2) by auto
  qed
  have "distinct ps" using Cons.prems(1) by simp
  note Cons.IH [OF this sub d 2]
  then show ?case using S fp Cons.prems(1) assms(5) by (auto simp: update_def)
qed simp

definition mv :: "string \<Rightarrow> string \<Rightarrow> string \<Rightarrow> string" where
  "mv a b p = (if in_subtree a p then moved_path a b p else p)"

lemma for_each_dirs:
  "for_each (move_dir a b) ps db = (db', Inr ()) \<Longrightarrow>
   \<exists>ds. db' = db\<lparr>t_dir := ds\<rparr> \<and> fold (\<lambda>p acc. Option.bind acc (\<lambda>ds. if moved_path a b p \<in> d_path ` set ds \<and> moved_path a b p \<noteq> p then None
      else Some (update (\<lambda>d. d_path d = p) (\<lambda>d. d\<lparr>d_path := moved_path a b p, d_parent := fst (splitPath (moved_path a b p)), d_name := snd (splitPath (moved_path a b p))\<rparr>) ds)))
      ps (Some (t_dir db)) = Some ds"
proof (induction ps arbitrary: db)
  case Nil
  then show ?case by (auto simp: ret_def intro: exI [of _ "t_dir db"])
next
  case (Cons p ps)
  then obtain db1 where 1: "move_dir a b p db = (db1, Inr ())" and 2: "for_each (move_dir a b) ps db1 = (db', Inr ())" by (auto dest: seq_okD)
  have m: "db1 = db\<lparr>t_dir := update (\<lambda>d. d_path d = p) (\<lambda>d. d\<lparr>d_path := moved_path a b p, d_parent := fst (splitPath (moved_path a b p)), d_name := snd (splitPath (moved_path a b p))\<rparr>) (t_dir db)\<rparr>"
    "\<not> (moved_path a b p \<in> dirs_of db \<and> moved_path a b p \<noteq> p)"
    using 1 dir_at_None [of "moved_path a b p" db] by (auto simp: move_dir_def Let_def io_simps split: if_splits)
  from Cons.IH [OF 2] m show ?case by auto
qed

lemma for_each_heads:
  "for_each (move_head a b) ps db = (db', Inr ()) \<Longrightarrow>
   \<exists>hs. db' = db\<lparr>t_head := hs\<rparr> \<and> fold (\<lambda>p acc. Option.bind acc (\<lambda>hs. if moved_path a b p \<in> h_path ` set hs \<and> moved_path a b p \<noteq> p then None
      else Some (update (\<lambda>h. h_path h = p) (\<lambda>h. h\<lparr>h_path := moved_path a b p, h_parent := fst (splitPath (moved_path a b p)), h_name := snd (splitPath (moved_path a b p))\<rparr>) hs)))
      ps (Some (t_head db)) = Some hs"
proof (induction ps arbitrary: db)
  case Nil
  then show ?case by (auto simp: ret_def intro: exI [of _ "t_head db"])
next
  case (Cons p ps)
  then obtain db1 where 1: "move_head a b p db = (db1, Inr ())" and 2: "for_each (move_head a b) ps db1 = (db', Inr ())" by (auto dest: seq_okD)
  have m: "db1 = db\<lparr>t_head := update (\<lambda>h. h_path h = p) (\<lambda>h. h\<lparr>h_path := moved_path a b p, h_parent := fst (splitPath (moved_path a b p)), h_name := snd (splitPath (moved_path a b p))\<rparr>) (t_head db)\<rparr>"
    "\<not> (moved_path a b p \<in> heads_of db \<and> moved_path a b p \<noteq> p)"
    using 1 head_at_None [of "moved_path a b p" db] by (auto simp: move_head_def Let_def io_simps split: if_splits)
  from Cons.IH [OF 2] m show ?case by auto
qed

definition moved_dir :: "string \<Rightarrow> string \<Rightarrow> dir_row \<Rightarrow> dir_row" where
  "moved_dir a b d =
     (if in_subtree a (d_path d)
      then let np = moved_path a b (d_path d) in d\<lparr>d_path := np, d_parent := fst (splitPath np), d_name := snd (splitPath np)\<rparr>
      else d)"

definition moved_head :: "string \<Rightarrow> string \<Rightarrow> head_row \<Rightarrow> head_row" where
  "moved_head a b h =
     (if in_subtree a (h_path h)
      then let np = moved_path a b (h_path h) in h\<lparr>h_path := np, h_parent := fst (splitPath np), h_name := snd (splitPath np)\<rparr>
      else h)"

lemma rewrite_dirs:
  assumes d: "distinct (map d_path (t_dir db))" and e: "rewriteSubtreePaths_dir a b db = (db', Inr ())"
  shows "db' = db\<lparr>t_dir := map (moved_dir a b) (t_dir db)\<rparr> \<and> distinct (map (mv a b) (map d_path (t_dir db)))"
proof -
  let ?np = "moved_path a b" and ?ps = "filter (in_subtree a) (map d_path (t_dir db))"
  let ?g = "\<lambda>p d. d\<lparr>d_path := ?np p, d_parent := fst (splitPath (?np p)), d_name := snd (splitPath (?np p))\<rparr>"
  have "for_each (move_dir a b) ?ps db = (db', Inr ())" using e by (simp add: rewriteSubtreePaths_dir_def gets_def bind_def)
  from for_each_dirs [OF this] obtain ds where db': "db' = db\<lparr>t_dir := ds\<rparr>"
    and f: "fold (\<lambda>p acc. Option.bind acc (\<lambda>ds. if ?np p \<in> d_path ` set ds \<and> ?np p \<noteq> p then None else Some (update (\<lambda>d. d_path d = p) (?g p) ds)))
        ?ps (Some (t_dir db)) = Some ds" by blast
  have "ds = map (\<lambda>r. if d_path r \<in> set ?ps then ?g (d_path r) r else r) (t_dir db) \<and> distinct (map d_path ds)"
    by (rule seq_move [where f = ?np and g = ?g and k = d_path, OF _ _ d _ _ f]) (use d in \<open>auto split: if_splits\<close>)
  moreover have "map (\<lambda>r. if d_path r \<in> set ?ps then ?g (d_path r) r else r) (t_dir db) = map (moved_dir a b) (t_dir db)"
    by (auto simp: moved_dir_def Let_def)
  moreover have "map d_path (map (moved_dir a b) (t_dir db)) = map (mv a b) (map d_path (t_dir db))"
    by (auto simp: moved_dir_def mv_def Let_def)
  ultimately show ?thesis using db' by metis
qed

lemma rewrite_heads:
  assumes d: "distinct (map h_path (t_head db))" and e: "rewriteSubtreePaths_head a b db = (db', Inr ())"
  shows "db' = db\<lparr>t_head := map (moved_head a b) (t_head db)\<rparr> \<and> distinct (map (mv a b) (map h_path (t_head db)))"
proof -
  let ?np = "moved_path a b" and ?ps = "filter (in_subtree a) (map h_path (t_head db))"
  let ?g = "\<lambda>p h. h\<lparr>h_path := ?np p, h_parent := fst (splitPath (?np p)), h_name := snd (splitPath (?np p))\<rparr>"
  have "for_each (move_head a b) ?ps db = (db', Inr ())" using e by (simp add: rewriteSubtreePaths_head_def gets_def bind_def)
  from for_each_heads [OF this] obtain hs where db': "db' = db\<lparr>t_head := hs\<rparr>"
    and f: "fold (\<lambda>p acc. Option.bind acc (\<lambda>hs. if ?np p \<in> h_path ` set hs \<and> ?np p \<noteq> p then None else Some (update (\<lambda>h. h_path h = p) (?g p) hs)))
        ?ps (Some (t_head db)) = Some hs" by blast
  have "hs = map (\<lambda>r. if h_path r \<in> set ?ps then ?g (h_path r) r else r) (t_head db) \<and> distinct (map h_path hs)"
    by (rule seq_move [where f = ?np and g = ?g and k = h_path, OF _ _ d _ _ f]) (use d in \<open>auto split: if_splits\<close>)
  moreover have "map (\<lambda>r. if h_path r \<in> set ?ps then ?g (h_path r) r else r) (t_head db) = map (moved_head a b) (t_head db)"
    by (auto simp: moved_head_def Let_def)
  moreover have "map h_path (map (moved_head a b) (t_head db)) = map (mv a b) (map h_path (t_head db))"
    by (auto simp: moved_head_def mv_def Let_def)
  ultimately show ?thesis using db' by metis
qed

section \<open>Renaming\<close>

definition below :: "string \<Rightarrow> string \<Rightarrow> bool" where
  "below a p \<longleftrightarrow> p = a \<or> take (length a + 1) p = a @ [slash]"

lemma below_iff: "below a p \<longleftrightarrow> p = a \<or> (\<exists>r. p = a @ slash # r)"
proof
  assume "below a p"
  then show "p = a \<or> (\<exists>r. p = a @ slash # r)"
    unfolding below_def using append_take_drop_id [of "length a + 1" p] by (metis append.assoc append_Cons append_Nil)
qed (auto simp: below_def)

lemma backslash_other [simp]: "backslash \<noteq> CHR ''%''" "backslash \<noteq> CHR ''/''" "backslash \<noteq> CHR ''_''" "CHR ''%'' \<noteq> backslash" "CHR ''/'' \<noteq> backslash" "CHR ''_'' \<noteq> backslash"
  by code_simp+

lemma like_any: "sql_like ''%'' s"
  by (induction s) (simp_all add: sql_like.simps)

lemma like_escaped: "sql_like pat s \<Longrightarrow> sql_like (escapeLike a @ pat) (a @ s)"
proof (induction a)
  case (Cons c a)
  then show ?case by (auto simp: escapeLike_def sql_like.simps(2))
qed (simp add: escapeLike_def)

lemma below_subtree: "below a p \<Longrightarrow> in_subtree a p"
  using like_escaped [of "''/%''" "slash # r" a for r]
  by (auto simp: below_iff in_subtree_def sql_like.simps(2) [of slash] like_any)

text \<open>
  The LIKE pattern ignores case. A rename is exact when it selects nothing but the subtree it names.
\<close>

definition rename_exact :: "string \<Rightarrow> string \<Rightarrow> DB \<Rightarrow> bool" where
  "rename_exact a b db \<longleftrightarrow>
     list_all (\<lambda>p. in_subtree a p \<longrightarrow> below a p) (map h_path (t_head db) @ map d_path (t_dir db) @ ancestorsOf b)"

lemma parent_below: "clean p \<Longrightarrow> parent p \<noteq> [] \<Longrightarrow> \<exists>n. p = parent p @ slash # n"
proof -
  assume p: "clean p" "parent p \<noteq> []"
  let ?ws = "split_slash p"
  have "butlast ?ws \<noteq> []" using p by (auto simp: parent_words)
  then have "join_slash (butlast ?ws @ [last ?ws]) = parent p @ slash # last ?ws"
    by (subst join_slash_append) (simp_all add: parent_words [OF p(1)])
  then show ?thesis by (auto simp: join_split)
qed

lemma tree_below:
  assumes t: "path_tree H D" and a: "a \<noteq> []"
  shows "a @ slash # r \<in> set H \<or> a @ slash # r \<in> set D \<Longrightarrow> a \<in> set D"
proof (induction "length r" arbitrary: r rule: less_induct)
  case less
  let ?p = "a @ slash # r"
  have c: "clean a" "clean r" using clean_below [OF path_treeD(4) [OF t less.prems] a] by simp_all
  have "parent ?p = [] \<or> parent ?p \<in> set D" by (rule path_treeD(5) [OF t less.prems])
  then have p: "parent ?p \<in> set D" using a by (auto simp: parent_graft [OF c])
  show ?case
  proof (cases "parent r = []")
    case False
    then show ?thesis using less.hyps [OF parent_shorter [OF False]] p by (simp add: parent_graft [OF c])
  qed (use p parent_graft [OF c] in simp)
qed

lemma mv_below: "below a p \<Longrightarrow> mv a b p = b @ drop (length a) p"
  by (simp add: mv_def below_subtree moved_path_def)

lemma moved_tree:
  assumes t: "path_tree H D" and a: "a \<in> set D" and b: "clean b" "b \<notin> set H" "b \<notin> set D" "\<not> below a b"
    "parent b = [] \<or> parent b \<in> set D"
    and x: "\<And>p. p \<in> set H \<or> p \<in> set D \<Longrightarrow> in_subtree a p \<Longrightarrow> below a p"
    and d: "distinct (map (mv a b) H)" "distinct (map (mv a b) D)"
  shows "path_tree (map (mv a b) H) (map (mv a b) D)"
proof -
  note T = path_treeD [OF t]
  have ne: "a \<noteq> []" "b \<noteq> []" using T(4) a b(1) by (auto simp: clean_def)
  have still: "mv a b q = q" if "q \<in> set D" "\<not> below a q" for q using x that by (auto simp: mv_def)
  have up: "clean (mv a b p) \<and> (parent (mv a b p) = [] \<or> parent (mv a b p) \<in> mv a b ` set D)"
    if p: "p \<in> set H \<or> p \<in> set D" for p
  proof (cases "below a p")
    case False
    then have m: "mv a b p = p" using x p by (auto simp: mv_def)
    have "\<not> below a (parent p)" if "parent p \<noteq> []"
      using parent_below [OF T(4) [OF p] that] False by (auto simp: below_iff)
    then show ?thesis using m T(4,5) [OF p] still by (metis imageI)
  next
    case True
    then consider "p = a" | r where "p = a @ slash # r" by (auto simp: below_iff)
    then show ?thesis
    proof cases
      case 1
      have "\<not> below a (parent b)" if "parent b \<noteq> []" using parent_below [OF b(1) that] b(4) by (auto simp: below_iff)
      then show ?thesis using b(1,5) still 1 by (metis True append.right_neutral drop_all imageI mv_below order_refl)
    next
      case 2
      have c: "clean r" "clean a" using clean_below [of a r] T(4) [OF p] ne 2 by simp_all
      have m: "mv a b p = b @ slash # r" using mv_below [OF True, of b] 2 by simp
      have "mv a b a = b" using mv_below [of a a b] by (simp add: below_def)
      then have "b \<in> mv a b ` set D" using a by (metis imageI)
      moreover have "b @ slash # parent r \<in> mv a b ` set D" if "parent r \<noteq> []"
      proof -
        have "a @ slash # parent r \<in> set D" using T(5) [OF p] that parent_graft [OF c(2,1)] 2 by simp
        moreover have "mv a b (a @ slash # parent r) = b @ slash # parent r" using mv_below [of a _ b] by (simp add: below_iff)
        ultimately show ?thesis by (metis imageI)
      qed
      ultimately show ?thesis using m clean_graft [OF b(1) c(1)] parent_graft [OF b(1) c(1)] by simp
    qed
  qed
  have gone: "\<not> below b q" if "q \<in> set H \<or> q \<in> set D" for q
    using tree_below [OF t ne(2)] b(2,3) that by (auto simp: below_iff)
  have landed: "below b (mv a b p)" if "below a p" for p using mv_below [OF that] that by (auto simp: below_iff)
  have inj: "p = q" if "below a p" "below a q" "mv a b p = mv a b q" for p q
    using that mv_below [of a _ b] by (auto simp: below_iff)
  have "mv a b p \<noteq> mv a b q" if p: "p \<in> set H" and q: "q \<in> set D" for p q
  proof
    assume e: "mv a b p = mv a b q"
    have "mv a b r = r" if "\<not> below a r" "r \<in> set H \<or> r \<in> set D" for r using x that by (auto simp: mv_def)
    then show False using e p q T(3) gone landed inj by (metis disjoint_iff)
  qed
  then show ?thesis using up d by (intro path_treeI) auto
qed

lemma removed_dir_tree:
  assumes t: "live_tree db" and n: "\<not> has_child p db"
  shows "live_tree (db\<lparr>t_dir := delete (\<lambda>d. d_path d = p) (t_dir db)\<rparr>)"
proof -
  let ?ds = "delete (\<lambda>d. d_path d = p) (t_dir db)"
  have q: "parent q \<noteq> p" if "q \<in> heads_of db \<or> q \<in> dirs_of db" for q
    using t n that by (auto simp: live_tree_def has_child_def list_ex_iff parent_def) (metis fst_conv)+
  have T: "path_tree (map h_path (t_head db)) (map d_path (t_dir db))" using t by (simp add: live_tree_def)
  have d: "d_path ` set ?ds = dirs_of db - {p}" by (auto simp: set_delete)
  have "path_tree (map h_path (t_head db)) (map d_path ?ds)"
  proof (rule path_treeI)
    fix r assume "r \<in> set (map h_path (t_head db)) \<union> set (map d_path ?ds)"
    then have r: "r \<in> heads_of db \<or> r \<in> dirs_of db" using d by auto
    then show "clean r \<and> (parent r = [] \<or> parent r \<in> set (map d_path ?ds))" using path_treeD(4,5) [OF T] q [OF r] d by auto
  qed (use path_treeD(1,2,3) [OF T] d in \<open>auto simp: distinct_map_delete\<close>)
  then show ?thesis using t by (auto simp: live_tree_def set_delete)
qed

lemma renameDirSubtree_tree:
  assumes t: "live_tree db" and a: "a \<in> dirs_of db" and b: "clean b" "b \<notin> heads_of db" "b \<notin> dirs_of db" "\<not> below a b"
    and x: "rename_exact a b db" and e: "renameDirSubtree now a b db = (db', Inr ())"
  shows "live_tree db'"
proof -
  obtain db1 db2 where 1: "ensureDirs b now db = (db1, Inr ())" and 2: "rewriteSubtreePaths_dir a b db1 = (db2, Inr ())"
    and 3: "rewriteSubtreePaths_head a b db2 = (db', Inr ())"
    using e by (auto simp: renameDirSubtree_def dest!: seq_okD)
  note A = dirs_added_tables [OF conjunct1 [OF ensureDirs_added [OF b(1) 1]]]
  have t1: "live_tree db1" by (rule ensureDirs_tree [OF t b(1) 1])
  then have T: "path_tree (map h_path (t_head db1)) (map d_path (t_dir db1))" by (simp add: live_tree_def)
  note D = rewrite_dirs [OF path_treeD(2) [OF T] 2]
  have h2: "t_head db2 = t_head db1" using D by simp
  note H = rewrite_heads [OF _ 3, unfolded h2, OF path_treeD(1) [OF T]]
  have "b \<notin> set (ancestors_loop b)" using ancestors_props [OF b(1)] by blast
  moreover have "in_subtree a p \<Longrightarrow> below a p" if "p \<in> heads_of db1 \<or> p \<in> dirs_of db1" for p
    using x that A(1,2) b(1) by (auto simp: rename_exact_def list_all_iff ancestorsOf_clean)
  ultimately have "path_tree (map (mv a b) (map h_path (t_head db1))) (map (mv a b) (map d_path (t_dir db1)))"
    using D H a b A(1,2) ancestors_closed [of b] by (intro moved_tree [OF T]) auto
  moreover have "map h_path (t_head db') = map (mv a b) (map h_path (t_head db1))" "map d_path (t_dir db') = map (mv a b) (map d_path (t_dir db1))"
    using D H by (auto simp: moved_head_def moved_dir_def mv_def Let_def)
  moreover have "\<forall>h \<in> set (t_head db'). (h_parent h, h_name h) = splitPath (h_path h)" "\<forall>d \<in> set (t_dir db'). (d_parent d, d_name d) = splitPath (d_path d)"
    using t1 D H by (auto simp: live_tree_def moved_head_def moved_dir_def Let_def)
  ultimately show ?thesis by (simp add: live_tree_def)
qed

lemma rename_dir_tree:
  assumes t: "live_tree db" and b: "clean b" "\<not> below a b" and x: "rename_exact a b db" and e: "rename_dir now a b db = (db', Inr ())"
  shows "live_tree db'"
proof -
  have a: "a \<in> dirs_of db" and h: "b \<notin> heads_of db"
    using e dir_at_None [of a db] head_at_None [of b db] by (auto simp: rename_dir_def io_simps split: if_splits)
  have ab: "a \<noteq> b" using b(2) by (auto simp: below_def)
  show ?thesis
  proof (cases "dir_at b db")
    case None
    then have "renameDirSubtree now a b db = (db', Inr ())" using e by (auto simp: rename_dir_def io_simps split: if_splits)
    then show ?thesis using renameDirSubtree_tree [OF t a b(1) h _ b(2) x] None dir_at_None [of b db] by auto
  next
    case (Some d)
    let ?db = "db\<lparr>t_dir := delete (\<lambda>d. d_path d = b) (t_dir db)\<rparr>"
    have n: "\<not> has_child b db" and r: "renameDirSubtree now a b ?db = (db', Inr ())"
      using e Some by (auto simp: rename_dir_def io_simps split: if_splits)
    have "a \<in> dirs_of ?db" "b \<notin> dirs_of ?db" using a ab by (auto simp: set_delete)
    moreover have "rename_exact a b ?db" using x by (auto simp: rename_exact_def list_all_iff set_delete)
    ultimately show ?thesis using renameDirSubtree_tree [OF removed_dir_tree [OF t n] _ b(1) _ _ b(2) _ r] h by simp
  qed
qed

lemma rename_head_tree:
  assumes t: "live_tree db" and b: "clean b" and e: "rename_head now a b old db = (db', Inr ())"
  shows "live_tree db'"
proof -
  from e obtain db1 where d: "dir_at b db = None" and e1: "release_head b db = (db1, Inr ())"
    and e4: "ensureDirs b now ((upsert_head b (h_file old) (h_mtime old) db1)\<lparr>t_head := delete (\<lambda>h. h_path h = a) (t_head (upsert_head b (h_file old) (h_mtime old) db1))\<rparr>) = (db', Inr ())"
    by (auto simp: rename_head_def release_head_def io_simps split: if_splits option.splits prod.splits sum.splits)
  note n = release_head_names [OF e1]
  have "heads_indexed db1" using live_tree_rows [OF t] n by (simp add: heads_indexed_def)
  note U = upsert_head_indexed [OF this, of b "h_file old" "h_mtime old"]
  show ?thesis
    by (rule placed_tree [OF t b _ delete_head_indexed [OF conjunct1 [OF U]] _ _ e4]) (use U d n in \<open>auto simp: dir_at_None set_delete\<close>)
qed

lemma delete_leases_names [simp]: "t_head (delete_leases P db) = t_head db" "t_dir (delete_leases P db) = t_dir db"
  by (simp_all add: same_but_leasesD [OF delete_leases_frame])

lemma cancel_names [simp]: "t_head (cancel_prepared P db) = t_head db" "t_dir (cancel_prepared P db) = t_dir db"
  by (simp_all add: cancel_prepared_def Let_def)

lemma retarget_names [simp]: "t_head (retarget_prepared a b db) = t_head db" "t_dir (retarget_prepared a b db) = t_dir db"
  by (simp_all add: retarget_prepared_def)

lemma transact_tree: "live_tree db \<Longrightarrow> (\<And>db' x. m db = (db', Inr x) \<Longrightarrow> live_tree db') \<Longrightarrow> live_tree (fst (transact m db))"
  by (auto simp: transact_def split: prod.splits sum.splits)

lemma RenameFile_tree:
  assumes t: "live_tree db" and x: "rename_exact (cleanPath a) (cleanPath b) db"
  shows "live_tree (fst (RenameFile now a b db))"
proof -
  let ?a = "cleanPath a" and ?b = "cleanPath b"
  let ?db = "retarget_prepared ?a ?b (cancel_prepared ((=) ?b) db)"
  have t0: "live_tree ?db" and x0: "rename_exact ?a ?b ?db" using t x by (simp_all add: live_tree_def rename_exact_def)
  have "live_tree db'" if g: "?b \<noteq> []" "?a \<noteq> ?b" "\<not> has_prefix ?b (?a @ ''/'')"
    and e: "(case head_at ?a ?db of None \<Rightarrow> rename_dir now ?a ?b | Some h \<Rightarrow> rename_head now ?a ?b h) ?db = (db', Inr ())" for db'
  proof -
    have "\<not> below ?a ?b" using g(2,3) by (simp add: below_def has_prefix_def)
    then show ?thesis using e rename_dir_tree [OF t0 cleanPath_clean [OF g(1)] _ x0] rename_head_tree [OF t0 cleanPath_clean [OF g(1)]]
      by (auto split: option.splits)
  qed
  then show ?thesis using t unfolding RenameFile_def Let_def
    by (auto simp: io_simps intro!: transact_tree split: if_splits)
qed

lemma UnlinkFile_tree:
  assumes t: "live_tree db"
  shows "live_tree (fst (UnlinkFile path db))"
  unfolding UnlinkFile_def Let_def
proof (rule transact_tree [OF t])
  fix db' x
  let ?p = "cleanPath path"
  assume e: "seq (modify (cancel_prepared ((=) ?p))) (bind (gets (head_at ?p)) (\<lambda>h. case h of
        None \<Rightarrow> ret ()
      | Some h \<Rightarrow> seq (adjust_version (h_file h) (- 1)) (modify (\<lambda>db. db\<lparr>t_head := delete (\<lambda>h. h_path h = ?p) (t_head db)\<rparr>)))) db = (db', Inr x)"
  have c: "live_tree (cancel_prepared ((=) ?p) db)" using t by (simp add: live_tree_def)
  have "db' = cancel_prepared ((=) ?p) db \<or>
    (\<exists>db1. t_head db1 = t_head db \<and> t_dir db1 = t_dir db \<and> db' = db1\<lparr>t_head := delete (\<lambda>h. h_path h = ?p) (t_head db1)\<rparr>)"
    using e by (auto simp: modify_def gets_def ret_def bind_def dest!: seq_okD adjust_version_names split: option.splits)
  then show "live_tree db'" using c removed_tree same_names [OF _ _ t] by metis
qed

lemma Rmdir_tree:
  assumes t: "live_tree db" shows "live_tree (fst (Rmdir path db))"
proof -
  have "live_tree ((cancel_prepared P db)\<lparr>t_dir := delete (\<lambda>d. d_path d = p) (t_dir db)\<rparr>)" if "\<not> has_child p (cancel_prepared P db)" for P p
    using removed_dir_tree [OF same_names [OF _ _ t] that] by simp
  then show ?thesis using t unfolding Rmdir_def Let_def by (auto simp: transact_def io_simps split: if_splits)
qed

lemma SetMtime_tree: "live_tree db \<Longrightarrow> live_tree (fst (SetMtime path mtime db))"
  by (auto simp: SetMtime_def Let_def live_tree_def map_update set_update)

lemma clean_name: "clean p \<Longrightarrow> snd (splitPath p) \<noteq> []"
proof -
  assume p: "clean p"
  let ?ws = "split_slash p"
  have l: "list_all proper (butlast ?ws @ [last ?ws])" using p by (simp add: clean_words)
  from splitPath_join [OF l] have "snd (splitPath p) = last ?ws" by (simp add: join_split)
  then show ?thesis using last_in_set [of ?ws] p by (auto simp: clean_words list_all_iff proper_def)
qed

lemma backfill_tree: "live_tree db \<Longrightarrow> backfillNamespace db = (db, Inr ())"
proof -
  assume t: "live_tree db"
  have "h_name h \<noteq> []" if h: "h \<in> set (t_head db)" for h
  proof -
    have "clean (h_path h)" "h_name h = snd (splitPath (h_path h))" using t h by (auto simp: live_tree_def path_tree_def) (metis snd_conv)
    then show ?thesis using clean_name by metis
  qed
  then show ?thesis by (auto simp: backfillNamespace_def Let_def filter_empty_conv)
qed

lemma namespace_step_tree:
  "live_tree db \<Longrightarrow> (\<And>now a b. p = RenameOp now a b \<Longrightarrow> rename_exact (cleanPath a) (cleanPath b) db) \<Longrightarrow> live_tree (namespace_step p db)"
  by (cases p) (simp_all add: Mkdir_tree SetMtime_tree Rmdir_tree backfill_tree UnlinkFile_tree RenameFile_tree)

section \<open>Every operation keeps the live tree\<close>

definition names :: "DB \<Rightarrow> head_row list \<times> dir_row list" where
  "names db = (t_head db, t_dir db)"

interpretation ns: snapshot_view names
  by unfold_locales (simp_all add: names_def)

interpretation nv: vlog_view names
  by unfold_locales (simp_all add: names_def bump_vlogs_def)

lemma names_tree: "names db' = names db \<Longrightarrow> live_tree db' = live_tree db"
  by (simp add: names_def live_tree_def)

lemma GCFileVersions_names: "names (fst (GCFileVersions limit db)) = names db"
  by (simp add: GCFileVersions_def io_simps names_def)

lemma version_step_tree: "live_tree db \<Longrightarrow> live_tree (version_step p db)"
proof (cases p)
  case (CommitFileOp path mtime ps)
  then show "live_tree db \<Longrightarrow> ?thesis" by (auto simp: CommitFile_def intro: transact_tree publish_tree)
qed (simp_all add: names_tree [OF ns.GCChunks_view] names_tree [OF ns.CreateSnapshot_view] names_tree [OF ns.DeleteSnapshot_view]
    names_tree [OF ns.ExpireSnapshots_view] names_tree [OF ns.SetSnapshotRetention_view] names_tree [OF ns.RelocateChunk_view]
    names_tree [OF nv.retire_view(1)] names_tree [OF nv.retire_view(2)] names_tree [OF GCFileVersions_names])

lemma write_step_tree: "live_tree db \<Longrightarrow> live_tree (write_step p db)"
proof (cases "\<exists>fault i path mtime ps e. p = CommitWriteOp fault i path mtime ps e")
  case True
  assume t: "live_tree db"
  obtain fault i path mtime ps e where p: "p = CommitWriteOp fault i path mtime ps e" using True by blast
  have "commit_body fault i path mtime ps e db = (db', Inr f) \<Longrightarrow> live_tree db'" for db' f
    by (erule nv.commit_body_view) (use publish_tree [OF t] names_tree in blast)
  then show ?thesis unfolding p write_step.simps commitWriteOpVersion_state
    by (intro transact_tree [OF t])
       (auto simp: gets_def ret_def raise_def bind_def t split: option.splits if_splits prod.splits sum.splits)
next
  case False
  then show "live_tree db \<Longrightarrow> ?thesis" using names_tree [OF nv.other_write_view] by blast
qed

section \<open>Every snapshot is a tree\<close>

definition snap_files :: "int \<Rightarrow> DB \<Rightarrow> string list" where
  "snap_files i db = map sf_path (filter (\<lambda>s. sf_snapshot s = i) (t_snapshot_file db))"

definition snap_dirs :: "int \<Rightarrow> DB \<Rightarrow> string list" where
  "snap_dirs i db = map sd_path (filter (\<lambda>s. sd_snapshot s = i) (t_snapshot_dir db))"

definition snap_tree :: "DB \<Rightarrow> bool" where
  "snap_tree db \<longleftrightarrow>
     (\<forall>i. path_tree (snap_files i db) (snap_dirs i db)) \<and>
     (\<forall>s \<in> set (t_snapshot_file db). sf_snapshot s \<le> snapshot_seq db \<and> (sf_parent s, sf_name s) = splitPath (sf_path s)) \<and>
     (\<forall>d \<in> set (t_snapshot_dir db). sd_snapshot d \<le> snapshot_seq db \<and> (sd_parent d, sd_name d) = splitPath (sd_path d))"

definition frozen :: "DB \<Rightarrow> snapshot_file_row list \<times> snapshot_dir_row list \<times> int" where
  "frozen db = (t_snapshot_file db, t_snapshot_dir db, snapshot_seq db)"

interpretation fc: catalog_view frozen
  by unfold_locales (simp_all add: frozen_def bump_vlogs_def)

interpretation fv: vlog_view frozen
  by unfold_locales (simp_all add: frozen_def bump_vlogs_def)

lemma frozen_tree: "frozen db' = frozen db \<Longrightarrow> snap_tree db' = snap_tree db"
  by (simp add: frozen_def snap_tree_def snap_files_def snap_dirs_def)

lemma snapshot_heads_rows:
  "for_each (snapshot_head i) hs db = (db', Inr ()) \<Longrightarrow>
   t_snapshot_file db' = t_snapshot_file db @ map (\<lambda>h. \<lparr>sf_snapshot = i, sf_path = h_path h, sf_parent = fst (splitPath (h_path h)),
     sf_name = snd (splitPath (h_path h)), sf_file = h_file h, sf_mtime = h_mtime h\<rparr>) hs \<and>
   t_snapshot_dir db' = t_snapshot_dir db \<and> snapshot_seq db' = snapshot_seq db"
proof (induction hs arbitrary: db)
  case (Cons h hs)
  then obtain db1 where 1: "snapshot_head i h db = (db1, Inr ())" and 2: "for_each (snapshot_head i) hs db1 = (db', Inr ())"
    by (auto dest: seq_okD)
  from 1 have "frozen db1 = frozen (db\<lparr>t_snapshot_file := t_snapshot_file db @ [\<lparr>sf_snapshot = i, sf_path = h_path h, sf_parent = fst (splitPath (h_path h)),
     sf_name = snd (splitPath (h_path h)), sf_file = h_file h, sf_mtime = h_mtime h\<rparr>]\<rparr>)"
    by (auto simp: snapshot_head_def modify_def dest!: seq_okD fc.adjust_version_view)
  then show ?case using Cons.IH [OF 2] by (simp add: frozen_def)
qed (simp add: ret_def)

lemma CreateSnapshot_tree:
  assumes t: "live_tree db" and s: "snap_tree db"
  shows "snap_tree (fst (CreateSnapshot name at db))"
proof (cases "lookup (\<lambda>s. s_name s = name) (t_snapshot db)")
  case (Some x)
  then show ?thesis using s by (simp add: CreateSnapshot_def transact_def io_simps)
next
  case None
  let ?i = "snapshot_seq db + 1"
  let ?db = "db\<lparr>t_snapshot := t_snapshot db @ [\<lparr>s_id = ?i, s_name = name, s_created = at\<rparr>], snapshot_seq := ?i\<rparr>"
  obtain db1 r where f: "for_each (snapshot_head ?i) (t_head db) ?db = (db1, r)" by fastforce
  show ?thesis
  proof (cases r)
    case (Inl e)
    then show ?thesis using f None s by (simp add: CreateSnapshot_def transact_def io_simps)
  next
    case (Inr u)
    let ?db' = "db1\<lparr>t_snapshot_dir := t_snapshot_dir db1 @ map (\<lambda>d. \<lparr>sd_snapshot = ?i, sd_path = d_path d, sd_parent = d_parent d, sd_name = d_name d, sd_mtime = d_mtime d\<rparr>) (t_dir db1)\<rparr>"
    have r: "fst (CreateSnapshot name at db) = ?db'" using f None Inr by (simp add: CreateSnapshot_def transact_def io_simps)
    have "names db1 = names ?db" using ns.snapshot_heads_view f Inr by simp
    then have n: "t_dir db1 = t_dir db" by (simp add: names_def)
    note R = snapshot_heads_rows [of ?i "t_head db" ?db db1]
    have old: "filter (\<lambda>s. sf_snapshot s = ?i) (t_snapshot_file db) = []" "filter (\<lambda>d. sd_snapshot d = ?i) (t_snapshot_dir db) = []"
      using s by (auto simp: snap_tree_def filter_empty_conv)
    have new: "snap_files j ?db' = (if j = ?i then map h_path (t_head db) else snap_files j db)"
      "snap_dirs j ?db' = (if j = ?i then map d_path (t_dir db) else snap_dirs j db)" for j
      using R f Inr old n by (auto simp: snap_files_def snap_dirs_def filter_map o_def)
    have "\<forall>j. path_tree (snap_files j ?db') (snap_dirs j ?db')" using s t unfolding new by (simp add: snap_tree_def live_tree_def)
    then show ?thesis unfolding r using R f Inr s t n by (fastforce simp: snap_tree_def live_tree_def)
  qed
qed

lemma drop_snapshot_tree: "snap_tree db \<Longrightarrow> snap_tree (drop_snapshot i db)"
proof -
  assume s: "snap_tree db"
  let ?db = "drop_snapshot i db"
  have "snap_files j ?db = snap_files j db \<and> snap_dirs j ?db = snap_dirs j db \<or> snap_files j ?db = [] \<and> snap_dirs j ?db = []" for j
    by (cases "j = i") (auto simp: drop_snapshot_def snap_files_def snap_dirs_def delete_def filter_filter intro: arg_cong [where f = "map _"] filter_cong)
  moreover have "path_tree [] []" by (simp add: path_tree_def)
  ultimately have "\<forall>j. path_tree (snap_files j ?db) (snap_dirs j ?db)" using s unfolding snap_tree_def by metis
  then show ?thesis using s by (auto simp: drop_snapshot_def snap_tree_def set_delete)
qed

lemma deleteSnapshotTx_tree: "snap_tree db \<Longrightarrow> deleteSnapshotTx i db = (db', Inr ()) \<Longrightarrow> snap_tree db'"
proof -
  assume s: "snap_tree db" and e: "deleteSnapshotTx i db = (db', Inr ())"
  obtain db1 where 1: "for_each (\<lambda>s. adjust_version (sf_file s) (- 1)) (filter (\<lambda>s. sf_snapshot s = i) (t_snapshot_file db)) db = (db1, Inr ())"
    and db': "db' = drop_snapshot i db1"
    using e by (auto simp: deleteSnapshotTx_def modify_def gets_def bind_def dest!: seq_okD)
  show ?thesis unfolding db' using frozen_tree [OF fc.release_rows_view [OF 1]] s by (intro drop_snapshot_tree) simp
qed

lemma transact_snap: "snap_tree db \<Longrightarrow> (\<And>db' x. m db = (db', Inr x) \<Longrightarrow> snap_tree db') \<Longrightarrow> snap_tree (fst (transact m db))"
  by (auto simp: transact_def split: prod.splits sum.splits)

lemma DeleteSnapshot_tree:
  assumes s: "snap_tree db" shows "snap_tree (fst (DeleteSnapshot i db))"
  unfolding DeleteSnapshot_def by (rule transact_snap [OF s]) (simp add: deleteSnapshotTx_tree [OF s])

lemma ExpireSnapshots_tree:
  assumes s: "snap_tree db" shows "snap_tree (fst (ExpireSnapshots now db))"
proof -
  have "for_each deleteSnapshotTx is db = (db', Inr ()) \<Longrightarrow> snap_tree db'" for "is" db'
    by (erule for_each_inv [where I = snap_tree, OF _ s, rotated]) (rule deleteSnapshotTx_tree)
  then show ?thesis unfolding ExpireSnapshots_def
    by (intro transact_snap [OF s]) (auto simp: gets_def bind_def ret_def s dest!: seq_okD split: option.splits)
qed

lemma version_step_snap: "live_tree db \<Longrightarrow> snap_tree db \<Longrightarrow> snap_tree (version_step p db)"
proof (cases p)
  case (SetRetentionOp r)
  then show "live_tree db \<Longrightarrow> snap_tree db \<Longrightarrow> ?thesis"
    by (auto simp: SetSnapshotRetention_def io_simps snap_tree_def snap_files_def snap_dirs_def split: option.splits)
qed (simp_all add: CreateSnapshot_tree DeleteSnapshot_tree ExpireSnapshots_tree frozen_tree [OF fc.CommitFile_view] frozen_tree [OF fc.GCChunks_view]
    frozen_tree [OF fc.GCFileVersions_view] frozen_tree [OF fc.RelocateChunk_view] frozen_tree [OF fv.retire_view(1)] frozen_tree [OF fv.retire_view(2)])

section \<open>All operations\<close>

definition tree_ok :: "DB \<Rightarrow> bool" where
  "tree_ok db \<longleftrightarrow> live_tree db \<and> snap_tree db"

fun exact_op :: "catalog_op \<Rightarrow> DB \<Rightarrow> bool" where
  "exact_op (Namespace (RenameOp now a b)) db = rename_exact (cleanPath a) (cleanPath b) db"
| "exact_op _ db = True"

lemma perform_tree: "tree_ok db \<Longrightarrow> exact_op p db \<Longrightarrow> tree_ok (perform p db)"
proof (cases p)
  case (Namespace n)
  assume "tree_ok db" "exact_op p db"
  then show ?thesis using Namespace
    by (auto simp: tree_ok_def frozen_tree [OF fc.namespace_step_view] intro!: namespace_step_tree)
qed (simp_all add: tree_ok_def version_step_tree version_step_snap write_step_tree frozen_tree [OF fc.write_step_view]
    names_tree [OF nv.shard_step_view] frozen_tree [OF fv.shard_step_view] names_tree [OF nv.disk_step_view] frozen_tree [OF fv.disk_step_view]
    names_tree [OF nv.job_step_view] frozen_tree [OF fv.job_step_view])

text \<open>Catalogs reached by operations whose renames were exact.\<close>

inductive reachable_tree :: "DB \<Rightarrow> bool" where
  empty_tree: "reachable_tree empty_db"
| step_tree: "reachable_tree db \<Longrightarrow> op_ok p \<Longrightarrow> exact_op p db \<Longrightarrow> reachable_tree (perform p db)"

lemma reachable_tree_ok: "reachable_tree db \<Longrightarrow> tree_ok db"
proof (induction rule: reachable_tree.induct)
  case empty_tree
  show ?case by (simp add: tree_ok_def live_tree_def snap_tree_def path_tree_def snap_files_def snap_dirs_def empty_db_def)
qed (simp add: perform_tree)

lemma reachable_tree_reachable: "reachable_tree db \<Longrightarrow> reachable db"
  by (induction rule: reachable_tree.induct) (auto intro: reachable.intros)

end
