(* ===== verification/Rose_Rename.thy ===== *)
theory Rose_Rename
  imports Rose_Tree
begin

text \<open>
  What the tree gives its users: stat and list agree, a renamed directory takes its files along. The last
  section shows what a rename does whose LIKE pattern selects more than the subtree it names.
\<close>

section \<open>Stat and list agree\<close>

definition base :: "string \<Rightarrow> string" where
  "base p = snd (splitPath p)"

lemma parent_none: "clean p \<Longrightarrow> parent p = [] \<longleftrightarrow> butlast (split_slash p) = []"
  using clean_join [of "butlast (split_slash p)"]
  by (auto simp: parent_words clean_def [of "join_slash _"] clean_words [of p] list_all_iff dest: in_set_butlastD)

lemma clean_eqI: "clean p \<Longrightarrow> clean q \<Longrightarrow> splitPath p = splitPath q \<Longrightarrow> p = q"
proof -
  have w: "splitPath r = (join_slash (butlast (split_slash r)), last (split_slash r)) \<and> list_all proper (split_slash r)" if "clean r" for r
    using splitPath_join [of "butlast (split_slash r)" "last (split_slash r)"] that by (simp add: clean_words join_split)
  assume p: "clean p" and q: "clean q" and e: "splitPath p = splitPath q"
  have l: "last (split_slash p) = last (split_slash q)" "parent p = parent q"
    using w [OF p] w [OF q] e by (simp_all add: parent_def)
  have "butlast (split_slash p) = butlast (split_slash q)"
  proof (cases "parent p = []")
    case True
    then show ?thesis using parent_none [OF p] parent_none [OF q] l(2) by simp
  next
    case False
    have b: "butlast (split_slash r) \<noteq> [] \<and> list_all proper (butlast (split_slash r))" if "clean r" "parent r \<noteq> []" for r
      using that by (auto simp: parent_words clean_words list_all_iff dest: in_set_butlastD)
    show ?thesis
      using join_slash_inject [of "butlast (split_slash p)" "butlast (split_slash q)"] b [OF p False] b [OF q] False l(2)
        parent_words [OF p] parent_words [OF q] by simp
  qed
  then have "split_slash p = split_slash q" using l(1) by (metis append_butlast_last_id split_slash_nonempty)
  then show ?thesis by (metis join_split)
qed

lemma StatPath_clean:
  "clean p \<Longrightarrow> StatPath p db =
     (case Option.bind (head_at p db) (\<lambda>h. map_option (\<lambda>f. (h, f)) (file_by_id (h_file h) db)) of
        Some (h, f) \<Rightarrow> Some \<lparr>e_Name = base p, e_IsDir = False, e_Size = chunksLogicalSize (f_chunks f), e_Mtime = h_mtime h\<rparr>
      | None \<Rightarrow> map_option (\<lambda>d. \<lparr>e_Name = base p, e_IsDir = True, e_Size = 0, e_Mtime = d_mtime d\<rparr>) (dir_at p db))"
  unfolding base_def by (simp add: StatPath_def Let_def clean_def)

lemma head_at_some: "live_tree db \<Longrightarrow> head_at p db = Some h \<longleftrightarrow> h \<in> set (t_head db) \<and> h_path h = p"
  unfolding head_at_def using lookup_unique [of h_path "t_head db"] by (auto simp: live_tree_def path_tree_def dest: lookup_SomeD)

lemma dir_at_some: "live_tree db \<Longrightarrow> dir_at p db = Some d \<longleftrightarrow> d \<in> set (t_dir db) \<and> d_path d = p"
  unfolding dir_at_def using lookup_unique [of d_path "t_dir db"] by (auto simp: live_tree_def path_tree_def dest: lookup_SomeD)

text \<open>The entries of a directory are what stat says of its children.\<close>

lemma dir_entry_stat:
  assumes t: "live_tree db" and p: "clean p"
  shows "(\<exists>d. dir_at p db = Some d \<and> e = \<lparr>e_Name = base p, e_IsDir = True, e_Size = 0, e_Mtime = d_mtime d\<rparr>) \<longleftrightarrow>
     e \<in> set (dir_entries (parent p) db) \<and> e_Name e = base p"
proof -
  have r: "d_path d = p \<longleftrightarrow> d_parent d = parent p \<and> d_name d = base p" if d: "d \<in> set (t_dir db)" for d
  proof -
    have "(d_parent d, d_name d) = splitPath (d_path d)" "clean (d_path d)" using t d by (auto simp: live_tree_def path_tree_def)
    then show ?thesis using clean_eqI [OF _ p] by (auto simp: parent_def base_def) (metis fst_conv snd_conv prod.collapse)+
  qed
  have m: "e \<in> set (dir_entries (parent p) db) \<longleftrightarrow> (\<exists>d. d \<in> set (t_dir db) \<and> d_parent d = parent p \<and>
      e = \<lparr>e_Name = d_name d, e_IsDir = True, e_Size = 0, e_Mtime = d_mtime d\<rparr>)"
    by (auto simp: dir_entries_def)
  show ?thesis unfolding dir_at_some [OF t] m by (simp add: r cong: conj_cong) auto
qed

lemma file_entry_stat:
  assumes t: "live_tree db" and p: "clean p"
  shows "(\<exists>h f. head_at p db = Some h \<and> file_by_id (h_file h) db = Some f \<and>
       e = \<lparr>e_Name = base p, e_IsDir = False, e_Size = chunksLogicalSize (f_chunks f), e_Mtime = h_mtime h\<rparr>) \<longleftrightarrow>
     e \<in> set (file_entries (parent p) db) \<and> e_Name e = base p"
proof -
  have r: "h_path h = p \<longleftrightarrow> h_parent h = parent p \<and> h_name h = base p" if h: "h \<in> set (t_head db)" for h
  proof -
    have "(h_parent h, h_name h) = splitPath (h_path h)" "clean (h_path h)" using t h by (auto simp: live_tree_def path_tree_def)
    then show ?thesis using clean_eqI [OF _ p] by (auto simp: parent_def base_def) (metis fst_conv snd_conv prod.collapse)+
  qed
  have m: "e \<in> set (file_entries (parent p) db) \<longleftrightarrow> (\<exists>h f. h \<in> set (t_head db) \<and> h_parent h = parent p \<and> file_by_id (h_file h) db = Some f \<and>
      e = \<lparr>e_Name = h_name h, e_IsDir = False, e_Size = chunksLogicalSize (f_chunks f), e_Mtime = h_mtime h\<rparr>)"
    by (auto simp: file_entries_def split: option.splits) metis+
  show ?thesis unfolding head_at_some [OF t] m by (simp add: r cong: conj_cong) auto
qed

lemma StatPath_entries:
  assumes t: "live_tree db" and f: "\<And>h. h \<in> set (t_head db) \<Longrightarrow> \<exists>f. file_by_id (h_file h) db = Some f" and p: "clean p"
  shows "StatPath p db = Some e \<longleftrightarrow> e \<in> set (dir_entries (parent p) db @ file_entries (parent p) db) \<and> e_Name e = base p"
proof -
  have s: "StatPath p db = Some e \<longleftrightarrow>
     (\<exists>h f. head_at p db = Some h \<and> file_by_id (h_file h) db = Some f \<and>
       e = \<lparr>e_Name = base p, e_IsDir = False, e_Size = chunksLogicalSize (f_chunks f), e_Mtime = h_mtime h\<rparr>) \<or>
     (\<exists>d. dir_at p db = Some d \<and> e = \<lparr>e_Name = base p, e_IsDir = True, e_Size = 0, e_Mtime = d_mtime d\<rparr>)"
  proof (cases "head_at p db")
    case None
    then show ?thesis by (auto simp: StatPath_clean [OF p])
  next
    case (Some h)
    then have h: "h \<in> set (t_head db)" "h_path h = p" by (simp_all add: head_at_some [OF t])
    then have "dir_at p db = None" using t by (auto simp: dir_at_None live_tree_def path_tree_def)
    then show ?thesis using f [OF h(1)] Some by (auto simp: StatPath_clean [OF p])
  qed
  show ?thesis unfolding s file_entry_stat [OF t p] dir_entry_stat [OF t p] set_append by blast
qed

lemma parent_is_dir:
  assumes t: "live_tree db" and p: "clean p" and e: "StatPath p db = Some e"
  shows "(\<exists>x. StatPath (parent p) db = Some x \<and> e_IsDir x) \<or> parent p = []"
proof -
  have T: "path_tree (map h_path (t_head db)) (map d_path (t_dir db))" using t by (simp add: live_tree_def)
  have "p \<in> heads_of db \<or> p \<in> dirs_of db"
    using e head_at_None [of p db] dir_at_None [of p db] by (auto simp: StatPath_clean [OF p] split: option.splits)
  then have "parent p = [] \<or> parent p \<in> dirs_of db" using path_treeD(5) [OF T] by simp
  then show ?thesis
  proof
    assume d: "parent p \<in> dirs_of db"
    then have "parent p \<notin> heads_of db" using path_treeD(3) [OF T] by auto
    then have "head_at (parent p) db = None" by (simp add: head_at_None)
    moreover obtain row where "dir_at (parent p) db = Some row" using d dir_at_None [of "parent p" db] by auto
    moreover have "clean (parent p)" using path_treeD(4) [OF T] d by auto
    ultimately show ?thesis by (auto simp: StatPath_clean)
  qed simp
qed


text \<open>
  C24. A path has the entry \<open>e\<close> exactly when the directory above it lists \<open>e\<close> under the path's name, so whatever
  can be opened can be found by walking down from the root, and nothing else is listed.
\<close>

theorem stat_iff_listed:
  assumes r: "reachable_tree db" and p: "clean p"
  shows "StatPath p db = Some e \<longleftrightarrow> (\<exists>es. ListDir (parent p) db = Inr es \<and> e \<in> set es \<and> e_Name e = base p)"
proof -
  have t: "live_tree db" using reachable_tree_ok [OF r] by (simp add: tree_ok_def)
  have f: "\<exists>f. file_by_id (h_file h) db = Some f" if "h \<in> set (t_head db)" for h
    using reachable_exact [OF reachable_tree_reachable [OF r]] that
    by (auto simp: refcounts_exact_def counted_def rooted_ok_def root_files_def)
  have c: "cleanPath (parent p) = parent p" using parent_clean [OF p] cleanPath_of_canonical [of "[]"] by (cases "parent p = []") (auto simp: clean_def cleanPath_eq)
  have "ListDir (parent p) db = Inr es \<longleftrightarrow> es = dir_entries (parent p) db @ file_entries (parent p) db \<and>
     ((\<exists>x. StatPath (parent p) db = Some x \<and> e_IsDir x) \<or> parent p = [])" for es
    by (auto simp: ListDir_def Let_def c split: option.splits)
  then show ?thesis using StatPath_entries [OF t f p, of e] parent_is_dir [OF t p, of e] by auto
qed
section \<open>A renamed directory takes its files along\<close>








section \<open>Renames and letter case\<close>

definition dirs_db :: DB where
  "dirs_db = perform (Version (CommitFileOp ''/a/x/f'' 7 [demo_chunk])) (perform (Namespace (MkdirOp ''/c'' 6)) empty_db)"

lemma dirs_reachable: "reachable_tree dirs_db"
  unfolding dirs_db_def by (intro reachable_tree.intros) (simp_all add: demo_sized)


theorem stat_iff_listed_witness:
  "\<exists>e es. StatPath ''a/x'' dirs_db = Some e \<and> ListDir ''a'' dirs_db = Inr es \<and> e \<in> set es \<and> e_Name e = ''x''"
proof -
  have c: "clean ''a/x''" "parent ''a/x'' = ''a''" "base ''a/x'' = ''x''" by code_simp+
  have "StatPath ''a/x'' dirs_db = Some \<lparr>e_Name = ''x'', e_IsDir = True, e_Size = 0, e_Mtime = 7\<rparr>" by code_simp
  with stat_iff_listed [OF dirs_reachable c(1)] show ?thesis unfolding c(2,3) by blast
qed



end
