(* ===== verification/Spec2Isabelle.thy ===== *)
theory Spec2Isabelle
  imports Rose_Uid Rose_Chunk_Header Rose_Durability Rose_Undo Rose_Vlog Rose_Rename
begin

text \<open>
  Verification of rose, a distributed object store.
\<close>

end
